(* ===== verification/Prelude.thy ===== *)
theory Prelude
  imports Main "HOL-Library.Sublist"
begin

text \<open>
  Shared vocabulary of the development: fallible results, the fact collections the component
  theories extend, and generic lemmas on lists and on insertion-ordered association lists (the
  iteration order of a JavaScript \<open>Map\<close>).
\<close>

named_theorems result_simps \<open>equations for fallible results\<close>
named_theorems omap_simps \<open>equations for insertion-ordered maps\<close>
named_theorems js_simps \<open>evaluation of the JavaScript string and number library\<close>

section \<open>Fallible results\<close>

text \<open>A computation that throws \<open>e\<close> is \<open>Inl e\<close>; one that returns \<open>x\<close> is \<open>Inr x\<close>.\<close>

definition bindR :: "'e + 'a \<Rightarrow> ('a \<Rightarrow> 'e + 'b) \<Rightarrow> 'e + 'b" where
  "bindR m f = (case m of Inl e \<Rightarrow> Inl e | Inr x \<Rightarrow> f x)"

definition mapErr :: "('e \<Rightarrow> 'f) \<Rightarrow> 'e + 'a \<Rightarrow> 'f + 'a" where
  "mapErr g m = (case m of Inl e \<Rightarrow> Inl (g e) | Inr x \<Rightarrow> Inr x)"

definition require :: "bool \<Rightarrow> 'e \<Rightarrow> 'e + unit" where
  "require b e = (if b then Inr () else Inl e)"

definition ofOption :: "'e \<Rightarrow> 'a option \<Rightarrow> 'e + 'a" where
  "ofOption e x = (case x of None \<Rightarrow> Inl e | Some v \<Rightarrow> Inr v)"

fun isOk :: "'e + 'a \<Rightarrow> bool" where
  "isOk (Inl e) = False"
| "isOk (Inr x) = True"

lemma bindR_simps [simp, result_simps]:
  "bindR (Inl e) f = Inl e" "bindR (Inr x) f = f x"
  by (simp_all add: bindR_def)

lemma bindR_Inr_iff [result_simps]: "bindR m f = Inr y \<longleftrightarrow> (\<exists>x. m = Inr x \<and> f x = Inr y)"
  by (cases m) auto

lemma bindR_Inl_iff [result_simps]:
  "bindR m f = Inl e \<longleftrightarrow> m = Inl e \<or> (\<exists>x. m = Inr x \<and> f x = Inl e)"
  by (cases m) auto

lemma mapErr_simps [simp, result_simps]:
  "mapErr g (Inl e) = Inl (g e)" "mapErr g (Inr x) = Inr x"
  by (simp_all add: mapErr_def)

lemma mapErr_Inr_iff [result_simps]: "mapErr g m = Inr y \<longleftrightarrow> m = Inr y"
  by (cases m) auto

lemma require_iff [simp, result_simps]:
  "require b e = Inr u \<longleftrightarrow> b" "require b e = Inl e' \<longleftrightarrow> \<not> b \<and> e' = e"
  by (auto simp: require_def)

lemma require_bool [simp]: "require True e = Inr ()" "require False e = Inl e"
  by (simp_all add: require_def)

lemma ofOption_simps [simp, result_simps]:
  "ofOption e None = Inl e" "ofOption e (Some v) = Inr v"
  by (simp_all add: ofOption_def)

lemma ofOption_iff [result_simps]:
  "ofOption e x = Inr v \<longleftrightarrow> x = Some v" "ofOption e x = Inl e' \<longleftrightarrow> x = None \<and> e' = e"
  by (cases x; auto)+

lemma isOk_iff: "isOk m \<longleftrightarrow> (\<exists>x. m = Inr x)"
  by (cases m) auto

section \<open>Stateful computations\<close>

text \<open>
  A step of an asynchronous routine takes the state and returns a result and the new state; the
  state survives an exception. \<open>finallyS\<close> is \<open>try .. finally\<close> with a clean-up that cannot
  throw.
\<close>

type_synonym ('s, 'e, 'a) eff = "'s \<Rightarrow> ('e + 'a) \<times> 's"

definition returnS :: "'a \<Rightarrow> ('s, 'e, 'a) eff" where
  "returnS x = (\<lambda>s. (Inr x, s))"

definition throwS :: "'e \<Rightarrow> ('s, 'e, 'a) eff" where
  "throwS e = (\<lambda>s. (Inl e, s))"

definition liftS :: "'e + 'a \<Rightarrow> ('s, 'e, 'a) eff" where
  "liftS r = (\<lambda>s. (r, s))"

definition thenS :: "('s, 'e, 'a) eff \<Rightarrow> ('a \<Rightarrow> ('s, 'e, 'b) eff) \<Rightarrow> ('s, 'e, 'b) eff" where
  "thenS m f = (\<lambda>s. case m s of (Inl e, s') \<Rightarrow> (Inl e, s') | (Inr x, s') \<Rightarrow> f x s')"

definition doS :: "('s \<Rightarrow> 's) \<Rightarrow> ('s, 'e, unit) eff" where
  "doS f = (\<lambda>s. (Inr (), f s))"

definition readS :: "('s \<Rightarrow> 'a) \<Rightarrow> ('s, 'e, 'a) eff" where
  "readS f = (\<lambda>s. (Inr (f s), s))"

definition finallyS :: "('s, 'e, 'a) eff \<Rightarrow> ('s \<Rightarrow> 's) \<Rightarrow> ('s, 'e, 'a) eff" where
  "finallyS m f = (\<lambda>s. case m s of (r, s') \<Rightarrow> (r, f s'))"

text \<open>\<open>keeps R m\<close>: whatever \<open>m\<close> does, its end state is \<open>R\<close>-after its start state.\<close>

definition keeps :: "('s \<Rightarrow> 's \<Rightarrow> bool) \<Rightarrow> ('s, 'e, 'a) eff \<Rightarrow> bool" where
  "keeps R m \<longleftrightarrow> (\<forall>s. R s (snd (m s)))"

lemmas eff_defs = returnS_def throwS_def liftS_def doS_def readS_def

text \<open>
  The interface of a log relation: reflexive and transitive, so a routine keeps it when its steps
  do.
\<close>

locale log_rel =
  fixes R :: "'s \<Rightarrow> 's \<Rightarrow> bool"
  assumes refl_log: "R s s"
    and trans_log: "R s t \<Longrightarrow> R t u \<Longrightarrow> R s u"
begin

lemma keeps_pure: "keeps R (returnS x)" "keeps R (throwS e)" "keeps R (liftS r)" "keeps R (readS g)"
  by (simp_all add: keeps_def eff_defs refl_log)

lemma keeps_doS: "(\<And>s. R s (f s)) \<Longrightarrow> keeps R (doS f)"
  by (simp add: keeps_def doS_def)

lemma keeps_thenS: "keeps R m \<Longrightarrow> (\<And>x. keeps R (f x)) \<Longrightarrow> keeps R (thenS m f)"
  unfolding keeps_def thenS_def
  by (auto split: prod.splits sum.splits) (metis snd_conv trans_log)+

text \<open>The continuation need only keep the relation for values the first step can return.\<close>

lemma keeps_thenS_on:
  assumes "keeps R m" "\<And>s x s'. m s = (Inr x, s') \<Longrightarrow> R s' (snd (f x s'))"
  shows "keeps R (thenS m f)"
  unfolding keeps_def
proof
  fix s
  obtain r s' where m: "m s = (r, s')" by (cases "m s")
  then have s': "R s s'" using assms(1) by (auto simp: keeps_def dest: spec [of _ s])
  then show "R s (snd (thenS m f s))"
    using assms(2) [of s _ s'] m trans_log by (cases r) (auto simp: thenS_def)
qed

lemma keeps_finallyS: "keeps R m \<Longrightarrow> (\<And>s. R s (f s)) \<Longrightarrow> keeps R (finallyS m f)"
  unfolding keeps_def finallyS_def by (auto split: prod.splits) (metis snd_conv trans_log)

end

text \<open>Running a computation on a given state.\<close>

lemma eff_run:
  "returnS x s = (Inr x, s)" "throwS e s = (Inl e, s)" "liftS r s = (r, s)"
  "doS g s = (Inr (), g s)" "readS h s = (Inr (h s), s)"
  "thenS m f s = (case m s of (Inl e, s') \<Rightarrow> (Inl e, s') | (Inr y, s') \<Rightarrow> f y s')"
  "finallyS m g s = (case m s of (q, s') \<Rightarrow> (q, g s'))"
  by (simp_all add: eff_defs thenS_def finallyS_def)

lemma thenS_Inr:
  "thenS m f s = (Inr y, s') \<longleftrightarrow> (\<exists>x t. m s = (Inr x, t) \<and> f x t = (Inr y, s'))"
  by (auto simp: thenS_def split: prod.splits sum.splits)

lemma thenS_Inl:
  "thenS m f s = (Inl e, s') \<longleftrightarrow> m s = (Inl e, s') \<or> (\<exists>x t. m s = (Inr x, t) \<and> f x t = (Inl e, s'))"
  by (auto simp: thenS_def split: prod.splits sum.splits)

lemma finallyS_eq: "finallyS m f s = (r, s') \<longleftrightarrow> (\<exists>t. m s = (r, t) \<and> s' = f t)"
  by (auto simp: finallyS_def split: prod.splits)

section \<open>Insertion-ordered maps\<close>

text \<open>
  \<open>Map.set\<close> overwrites in place and appends a new key at the end; \<open>keys().next()\<close> is the
  oldest key; \<open>delete\<close> removes it.
\<close>

type_synonym ('k, 'v) omap = "('k \<times> 'v) list"

fun om_set :: "'k \<Rightarrow> 'v \<Rightarrow> ('k, 'v) omap \<Rightarrow> ('k, 'v) omap" where
  "om_set k v [] = [(k, v)]"
| "om_set k v ((k', v') # m) = (if k' = k then (k, v) # m else (k', v') # om_set k v m)"

fun om_get :: "('k, 'v) omap \<Rightarrow> 'k \<Rightarrow> 'v option" where
  "om_get [] k = None"
| "om_get ((k', v') # m) k = (if k' = k then Some v' else om_get m k)"

definition om_del :: "'k \<Rightarrow> ('k, 'v) omap \<Rightarrow> ('k, 'v) omap" where
  "om_del k m = filter (\<lambda>e. fst e \<noteq> k) m"

definition om_keys :: "('k, 'v) omap \<Rightarrow> 'k list" where
  "om_keys m = map fst m"

definition om_has :: "('k, 'v) omap \<Rightarrow> 'k \<Rightarrow> bool" where
  "om_has m k \<longleftrightarrow> om_get m k \<noteq> None"

definition om_wf :: "('k, 'v) omap \<Rightarrow> bool" where
  "om_wf m \<longleftrightarrow> distinct (om_keys m)"

lemma om_keys_simps [simp]: "om_keys [] = []" "om_keys (e # m) = fst e # om_keys m"
  by (simp_all add: om_keys_def)

lemma om_get_set [simp, omap_simps]: "om_get (om_set k v m) k' = (if k' = k then Some v else om_get m k')"
  by (induction m) auto

lemma om_get_del [simp, omap_simps]: "om_get (om_del k m) k' = (if k' = k then None else om_get m k')"
  by (induction m) (auto simp: om_del_def)

lemma om_keys_set [omap_simps]:
  "om_keys (om_set k v m) = (if k \<in> set (om_keys m) then om_keys m else om_keys m @ [k])"
  by (induction m) auto

lemma om_keys_del [omap_simps]: "om_keys (om_del k m) = filter (\<lambda>x. x \<noteq> k) (om_keys m)"
  by (induction m) (auto simp: om_del_def)

lemma om_get_None_iff: "om_get m k = None \<longleftrightarrow> k \<notin> set (om_keys m)"
  by (induction m) (auto split: if_splits)

lemma om_has_iff: "om_has m k \<longleftrightarrow> k \<in> set (om_keys m)"
  by (simp add: om_has_def om_get_None_iff)

lemma om_wf_Nil [simp]: "om_wf []"
  by (simp add: om_wf_def om_keys_def)

lemma om_wf_set [simp, intro]: "om_wf m \<Longrightarrow> om_wf (om_set k v m)"
  by (simp add: om_wf_def omap_simps)

lemma om_wf_del [simp, intro]: "om_wf m \<Longrightarrow> om_wf (om_del k m)"
  by (simp add: om_wf_def omap_simps)

lemma length_om_keys [simp]: "length (om_keys m) = length m"
  by (simp add: om_keys_def)

lemma length_om_set:
  "length (om_set k v m) = (if k \<in> set (om_keys m) then length m else Suc (length m))"
  by (induction m) auto

lemma length_om_del_le: "length (om_del k m) \<le> length m"
  by (simp add: om_del_def)

lemma length_om_del_hd: "om_wf ((k, v) # m) \<Longrightarrow> om_del k ((k, v) # m) = m"
proof -
  assume "om_wf ((k, v) # m)"
  then have "\<forall>e\<in>set m. fst e \<noteq> k" by (auto simp: om_wf_def om_keys_def)
  then show ?thesis by (simp add: om_del_def)
qed

text \<open>
  Two maps of the interceptor share one idiom: store, and when the size passes the cap, delete
  the oldest key (\<open>keys().next().value\<close>).
\<close>

definition om_evict :: "nat \<Rightarrow> ('k, 'v) omap \<Rightarrow> ('k, 'v) omap" where
  "om_evict cap m =
     (if cap < length m then (case m of [] \<Rightarrow> [] | (k, _) # _ \<Rightarrow> om_del k m) else m)"

lemma om_wf_evict [simp, intro]: "om_wf m \<Longrightarrow> om_wf (om_evict cap m)"
  by (auto simp: om_evict_def split: list.splits prod.splits)

lemma length_om_evict: "om_wf m \<Longrightarrow> length (om_evict cap m) = (if cap < length m then length m - 1 else length m)"
  by (cases m) (auto simp: om_evict_def length_om_del_hd split: prod.splits)

lemma om_put_bounded:
  assumes "om_wf m" and "length m \<le> cap"
  shows "length (om_evict cap (om_set k v m)) \<le> cap"
  using assms by (auto simp: length_om_evict length_om_set)

section \<open>Lists\<close>

lemma takeWhile_all: "\<forall>x\<in>set xs. P x \<Longrightarrow> takeWhile P xs = xs"
  by (simp add: takeWhile_eq_all_conv)

lemma dropWhile_all: "\<forall>x\<in>set xs. P x \<Longrightarrow> dropWhile P xs = []"
  by (simp add: dropWhile_eq_Nil_conv)

lemma takeWhile_stop: "\<forall>x\<in>set xs. P x \<Longrightarrow> \<not> P y \<Longrightarrow> takeWhile P (xs @ y # ys) = xs"
  by (simp add: takeWhile_append2)

lemma dropWhile_stop: "\<forall>x\<in>set xs. P x \<Longrightarrow> \<not> P y \<Longrightarrow> dropWhile P (xs @ y # ys) = y # ys"
  by (simp add: dropWhile_append2)

end
