(* ===== verification/JsString.thy ===== *)
theory JsString
  imports Prelude "HOL-Library.Word"
begin

text \<open>
  The part of the JavaScript string library the sources use, on \<open>string\<close> (a list of code
  units below 256: the Latin-1 range; a code unit outside it does not occur in the model).
  \<open>isSpace\<close> is the language's white space and line terminators in that range, shared by
  \<open>trim\<close>, \<open>Number\<close> and the regular-expression class \<open>\s\<close>.
\<close>

definition code :: "char \<Rightarrow> nat" where
  "code c = of_char c"

definition isSpace :: "char \<Rightarrow> bool" where
  "isSpace c \<longleftrightarrow> (let n = code c in (9 \<le> n \<and> n \<le> 13) \<or> n = 32 \<or> n = 160)"

definition isDigit :: "char \<Rightarrow> bool" where
  "isDigit c \<longleftrightarrow> 48 \<le> code c \<and> code c \<le> 57"

definition isWordChar :: "char \<Rightarrow> bool" where
  "isWordChar c \<longleftrightarrow> (let n = code c in
     (48 \<le> n \<and> n \<le> 57) \<or> (65 \<le> n \<and> n \<le> 90) \<or> n = 95 \<or> (97 \<le> n \<and> n \<le> 122))"

definition lowerChar :: "char \<Rightarrow> char" where
  "lowerChar c = (let n = code c in
     if (65 \<le> n \<and> n \<le> 90) \<or> (192 \<le> n \<and> n \<le> 222 \<and> n \<noteq> 215) then char_of (n + 32) else c)"

definition upperChar :: "char \<Rightarrow> string" where
  "upperChar c = (let n = code c in
     if (97 \<le> n \<and> n \<le> 122) \<or> (224 \<le> n \<and> n \<le> 254 \<and> n \<noteq> 247) then [char_of (n - 32)]
     else if n = 223 then ''SS'' else [c])"

definition toLower :: "string \<Rightarrow> string" where
  "toLower s = map lowerChar s"

definition toUpper :: "string \<Rightarrow> string" where
  "toUpper s = concat (map upperChar s)"

definition trimStart :: "string \<Rightarrow> string" where
  "trimStart s = dropWhile isSpace s"

definition trim :: "string \<Rightarrow> string" where
  "trim s = rev (dropWhile isSpace (rev (trimStart s)))"

definition startsWith :: "string \<Rightarrow> string \<Rightarrow> bool" where
  "startsWith s p \<longleftrightarrow> take (length p) s = p"

definition endsWith :: "string \<Rightarrow> string \<Rightarrow> bool" where
  "endsWith s p \<longleftrightarrow> startsWith (rev s) (rev p)"

fun strIncludes :: "string \<Rightarrow> string \<Rightarrow> bool" where
  "strIncludes [] p = (p = [])"
| "strIncludes (c # s) p = (startsWith (c # s) p \<or> strIncludes s p)"

text \<open>\<open>s.split(d)\<close> for a one-character separator: never the empty list.\<close>

fun splitOn :: "char \<Rightarrow> string \<Rightarrow> string list" where
  "splitOn d [] = [[]]"
| "splitOn d (c # s) =
     (if c = d then [] # splitOn d s
      else (case splitOn d s of [] \<Rightarrow> [[c]] | w # ws \<Rightarrow> (c # w) # ws))"

fun joinWith :: "string \<Rightarrow> string list \<Rightarrow> string" where
  "joinWith d [] = []"
| "joinWith d [w] = w"
| "joinWith d (w # v # ws) = w @ d @ joinWith d (v # ws)"

definition padStart :: "nat \<Rightarrow> char \<Rightarrow> string \<Rightarrow> string" where
  "padStart n c s = replicate (n - length s) c @ s"

section \<open>Facts\<close>

lemma code_inject [simp]: "code a = code b \<longleftrightarrow> a = b"
  by (simp add: code_def)

lemma code_less: "code c < 256"
  by (simp add: code_def)

lemma code_char_of [simp]: "n < 256 \<Longrightarrow> code (char_of n) = n"
  by (simp add: code_def)

lemma startsWith_prefix: "startsWith s p \<longleftrightarrow> prefix p s"
  by (auto simp: startsWith_def prefix_def) (metis append_take_drop_id)

lemma startsWith_append [simp]: "startsWith (p @ s) p"
  by (simp add: startsWith_def)

lemma startsWith_refl [simp]: "startsWith s s"
  by (simp add: startsWith_def)

lemma startsWith_Nil [simp]: "startsWith s []"
  by (simp add: startsWith_def)

lemma startsWith_Cons [simp]: "startsWith (c # s) (d # p) \<longleftrightarrow> c = d \<and> startsWith s p"
  by (auto simp: startsWith_def)

lemma startsWith_Nil_Cons [simp]: "\<not> startsWith [] (d # p)"
  by (simp add: startsWith_def)

lemma startsWithE: "startsWith s p \<Longrightarrow> (\<And>r. s = p @ r \<Longrightarrow> thesis) \<Longrightarrow> thesis"
  by (auto simp: startsWith_prefix prefix_def)

lemma strIncludes_iff: "strIncludes s p \<longleftrightarrow> (\<exists>u v. s = u @ p @ v)"
proof (induction s)
  case Nil
  then show ?case by auto
next
  case (Cons c s)
  show ?case
  proof
    assume "strIncludes (c # s) p"
    then consider "startsWith (c # s) p" | "strIncludes s p" by auto
    then show "\<exists>u v. c # s = u @ p @ v"
    proof cases
      case 1
      then show ?thesis by (elim startsWithE) (metis append_Nil)
    next
      case 2
      with Cons.IH show ?thesis by (metis append_Cons)
    qed
  next
    assume "\<exists>u v. c # s = u @ p @ v"
    then obtain u v where uv: "c # s = u @ p @ v" by blast
    show "strIncludes (c # s) p"
    proof (cases u)
      case Nil
      with uv have "startsWith (c # s) p" by simp
      then show ?thesis by simp
    next
      case (Cons a u')
      with uv have "s = u' @ p @ v" by simp
      with Cons.IH show ?thesis by auto
    qed
  qed
qed

lemma splitOn_neq_Nil [simp]: "splitOn d s \<noteq> []"
  by (cases s) (auto split: list.splits)

lemma splitOn_no_sep: "d \<notin> set s \<Longrightarrow> splitOn d s = [s]"
  by (induction s) auto

lemma splitOn_append: "d \<notin> set u \<Longrightarrow> splitOn d (u @ d # s) = u # splitOn d s"
  by (induction u) auto

lemma splitOn_elem: "w \<in> set (splitOn d s) \<Longrightarrow> d \<notin> set w"
  by (induction s arbitrary: w) (auto split: if_splits list.splits)

lemma splitOn_chars: "w \<in> set (splitOn d s) \<Longrightarrow> set w \<subseteq> set s"
proof (induction s arbitrary: w)
  case (Cons c s)
  then show ?case by (fastforce split: if_splits list.splits)
qed simp

lemma joinWith_splitOn: "joinWith [d] (splitOn d s) = s"
proof (induction s)
  case Nil
  then show ?case by simp
next
  case (Cons c s)
  obtain w ws where sp: "splitOn d s = w # ws" by (cases "splitOn d s") simp_all
  with Cons.IH show ?case by (cases ws) auto
qed

lemma splitOn_joinWith:
  "ws \<noteq> [] \<Longrightarrow> \<forall>w\<in>set ws. d \<notin> set w \<Longrightarrow> splitOn d (joinWith [d] ws) = ws"
proof (induction ws rule: induct_list012)
  case (2 w)
  then show ?case by (simp add: splitOn_no_sep)
next
  case (3 w v ws)
  then show ?case by (simp add: splitOn_append)
qed simp

lemma joinWith_chars: "set (joinWith d ws) \<subseteq> set d \<union> (\<Union>w\<in>set ws. set w)"
  by (induction ws rule: induct_list012) auto

lemma trim_no_space:
  assumes "\<forall>c\<in>set s. \<not> isSpace c"
  shows "trim s = s" "trimStart s = s"
proof -
  have *: "dropWhile isSpace t = t" if "\<forall>c\<in>set t. \<not> isSpace c" for t
    using that by (cases t) auto
  show "trim s = s" "trimStart s = s"
    using assms by (simp_all add: trim_def trimStart_def *)
qed

lemma lowerChar_ascii [simp]: "code c < 65 \<Longrightarrow> lowerChar c = c"
  by (simp add: lowerChar_def Let_def)

lemma lowerChar_lower [simp]: "97 \<le> code c \<Longrightarrow> code c < 192 \<Longrightarrow> lowerChar c = c"
  by (simp add: lowerChar_def Let_def)

lemma lowerChar_idem [simp]: "lowerChar (lowerChar c) = lowerChar c"
  by (simp add: lowerChar_def Let_def)

lemma toLower_idem [simp]: "toLower (toLower s) = toLower s"
  by (simp add: toLower_def)

lemma toLower_append [simp]: "toLower (s @ t) = toLower s @ toLower t"
  by (simp add: toLower_def)

lemma length_toLower [simp]: "length (toLower s) = length s"
  by (simp add: toLower_def)

lemma isDigit_not_space: "isDigit c \<Longrightarrow> \<not> isSpace c"
  by (auto simp: isDigit_def isSpace_def Let_def)

lemma length_padStart: "length (padStart n c s) = max n (length s)"
  by (simp add: padStart_def)

end
