(* ===== verification/JsNumber.thy ===== *)
theory JsNumber
  imports Complex_Main JsString
begin

text \<open>
  JavaScript numbers. A finite double is represented by its exact rational value; every
  arithmetic result is rounded to the nearest double, ties to even (\<open>roundDouble\<close>), so the
  model keeps the precision and the overflow of the code's arithmetic. The sign of zero is not
  kept: no source modelled here observes it.
\<close>

datatype jsnum = NaN | PosInf | NegInf | Fin rat

text \<open>The relational operators are false as soon as one side is \<open>NaN\<close>.\<close>

fun num_le :: "jsnum \<Rightarrow> jsnum \<Rightarrow> bool" where
  "num_le NaN b = False"
| "num_le a NaN = False"
| "num_le NegInf b = True"
| "num_le a PosInf = True"
| "num_le PosInf b = False"
| "num_le a NegInf = False"
| "num_le (Fin x) (Fin y) = (x \<le> y)"

instantiation jsnum :: ord
begin

definition less_eq_jsnum :: "jsnum \<Rightarrow> jsnum \<Rightarrow> bool" where
  "less_eq_jsnum a b = num_le a b"

definition less_jsnum :: "jsnum \<Rightarrow> jsnum \<Rightarrow> bool" where
  "less_jsnum a b = (a \<noteq> NaN \<and> b \<noteq> NaN \<and> \<not> num_le b a)"

instance ..

end

lemma jsnum_le_simps [simp]:
  "Fin x \<le> Fin y \<longleftrightarrow> x \<le> y" "Fin x < Fin y \<longleftrightarrow> x < y"
  "Fin x \<le> PosInf" "\<not> PosInf < a" "Fin x < PosInf" "\<not> (NaN < a)" "\<not> (a < NaN)" "NegInf < Fin x"
  "\<not> (NaN \<le> a)" "\<not> (a \<le> NaN)" "\<not> PosInf \<le> Fin x" "\<not> Fin x < NegInf" "\<not> Fin x \<le> NegInf"
  by (cases a; simp add: less_eq_jsnum_def less_jsnum_def not_le)+

text \<open>\<open>===\<close>: \<open>NaN\<close> differs from itself.\<close>

definition numEq :: "jsnum \<Rightarrow> jsnum \<Rightarrow> bool" where
  "numEq a b \<longleftrightarrow> a \<noteq> NaN \<and> a = b"

definition ofInt :: "int \<Rightarrow> jsnum" where
  "ofInt i = Fin (of_int i)"

definition isFiniteNum :: "jsnum \<Rightarrow> bool" where
  "isFiniteNum a = (case a of Fin _ \<Rightarrow> True | _ \<Rightarrow> False)"

definition isInteger :: "jsnum \<Rightarrow> bool" where
  "isInteger a = (case a of Fin x \<Rightarrow> of_int \<lfloor>x\<rfloor> = x | _ \<Rightarrow> False)"

section \<open>Rounding\<close>

fun bitLength :: "nat \<Rightarrow> nat" where
  "bitLength n = (if n = 0 then 0 else Suc (bitLength (n div 2)))"

declare bitLength.simps [simp del]

text \<open>The exponent \<open>k\<close> with \<open>2 ^ k \<le> x < 2 ^ (k + 1)\<close>, for positive \<open>x\<close>.\<close>

definition binExp :: "rat \<Rightarrow> int" where
  "binExp x = (case quotient_of x of (n, d) \<Rightarrow>
     let k = int (bitLength (nat n)) - int (bitLength (nat d))
     in if 2 powi k \<le> x then k else k - 1)"

definition roundHalfEven :: "rat \<Rightarrow> int" where
  "roundHalfEven x = (let f = \<lfloor>x\<rfloor>; r = x - of_int f in
     if r < 1 / 2 then f else if 1 / 2 < r then f + 1 else if even f then f else f + 1)"

definition roundExp :: "rat \<Rightarrow> int" where
  "roundExp a = max (- 1074) (binExp a - 52)"

definition roundMag :: "rat \<Rightarrow> rat" where
  "roundMag a = of_int (roundHalfEven (a / 2 powi roundExp a)) * 2 powi roundExp a"

definition roundDouble :: "rat \<Rightarrow> jsnum" where
  "roundDouble x =
     (if x = 0 then Fin 0
      else let v = roundMag \<bar>x\<bar>
           in if 2 ^ 1024 \<le> v then (if 0 < x then PosInf else NegInf)
              else Fin (if 0 < x then v else - v))"

lemma bitLength_bounds: "0 < n \<Longrightarrow> 2 ^ (bitLength n - 1) \<le> n \<and> n < 2 ^ bitLength n"
proof (induction n rule: bitLength.induct)
  case (1 n)
  show ?case
  proof (cases "n = 1")
    case True
    then show ?thesis by (simp add: bitLength.simps [of "Suc 0"] bitLength.simps [of 0])
  next
    case False
    with "1.prems" have pos: "0 < n div 2" by (simp add: div_greater_zero_iff)
    with "1.IH" "1.prems" have ih: "2 ^ (bitLength (n div 2) - 1) \<le> n div 2"
      "n div 2 < 2 ^ bitLength (n div 2)" by auto
    have bl: "0 < bitLength (n div 2)" using pos by (simp add: bitLength.simps [of "n div 2"])
    have "(2::nat) ^ bitLength (n div 2) = 2 * 2 ^ (bitLength (n div 2) - 1)"
      using bl by (metis power_eq_if not_gr_zero)
    with ih have "2 ^ bitLength (n div 2) \<le> n" by linarith
    moreover have "n < 2 * 2 ^ bitLength (n div 2)" using ih(2) by linarith
    ultimately show ?thesis using "1.prems" by (simp add: bitLength.simps [of n])
  qed
qed

lemma roundHalfEven_of_int [simp]: "roundHalfEven (of_int i) = i"
  by (simp add: roundHalfEven_def)

lemma roundHalfEven_near: "\<lfloor>x\<rfloor> \<le> roundHalfEven x" "of_int (roundHalfEven x) < x + 1"
  by (auto simp: roundHalfEven_def Let_def) linarith+

lemma roundHalfEven_le: "x \<le> of_int N \<Longrightarrow> roundHalfEven x \<le> N"
proof (cases "x = of_int N")
  case False
  moreover assume "x \<le> of_int N"
  ultimately have "x < of_int N" by simp
  then have "\<lfloor>x\<rfloor> + 1 \<le> N" by linarith
  then show ?thesis by (auto simp: roundHalfEven_def Let_def)
qed simp

lemma roundHalfEven_ge: "of_int N \<le> x \<Longrightarrow> N \<le> roundHalfEven x"
  using roundHalfEven_near(1) [of x] by (meson le_floor_iff order_trans)

lemma binExp_upper:
  assumes "0 < x" and "x < 2 ^ m"
  shows "binExp x < int m"
proof (rule ccontr)
  assume "\<not> binExp x < int m"
  then have ge: "int m \<le> binExp x" by simp
  obtain n d where q: "quotient_of x = (n, d)" by (cases "quotient_of x")
  then have d: "0 < d" and x: "x = of_int n / of_int d"
    using quotient_of_denom_pos quotient_of_div by auto
  from assms(1) d x have n: "0 < n" by (simp add: zero_less_divide_iff)
  define k where "k = int (bitLength (nat n)) - int (bitLength (nat d))"
  have low: "2 powi (k - 1) \<le> x"
  proof -
    have n1: "2 ^ (bitLength (nat n) - 1) \<le> nat n" and d1: "nat d < 2 ^ bitLength (nat d)"
      using bitLength_bounds [of "nat n"] bitLength_bounds [of "nat d"] n d by auto
    have bn: "0 < bitLength (nat n)" using n by (simp add: bitLength.simps [of "nat n"])
    have "(2::rat) ^ (bitLength (nat n) - 1) \<le> of_int n"
      using n1 n by (metis of_nat_numeral of_nat_power of_int_of_nat_eq of_nat_le_iff int_nat_eq less_imp_le)
    moreover have "of_int d < (2::rat) ^ bitLength (nat d)"
      using d1 d by (metis of_nat_numeral of_nat_power of_int_of_nat_eq of_nat_less_iff int_nat_eq less_imp_le)
    moreover have "(2::rat) powi (k - 1) = 2 ^ (bitLength (nat n) - 1) / 2 ^ bitLength (nat d)"
    proof -
      have "k - 1 = int (bitLength (nat n) - 1) - int (bitLength (nat d))" using bn by (simp add: k_def)
      then show ?thesis by (simp add: power_int_diff)
    qed
    ultimately show ?thesis using x d n
      by (simp add: frac_le)
  qed
  have "2 powi binExp x \<le> x"
    using low by (auto simp: binExp_def q Let_def k_def [symmetric])
  moreover have "(2::rat) powi int m \<le> 2 powi binExp x"
    using ge by (intro power_int_increasing) auto
  ultimately show False using assms(2) by (simp add: power_int_def)
qed

lemma scaled_int: "e \<le> 0 \<Longrightarrow> (of_int n :: rat) / 2 powi e = of_int (n * 2 ^ nat (- e))"
proof -
  assume "e \<le> 0"
  then obtain k where k: "e = - int k" by (metis int_nat_eq minus_minus neg_0_le_iff_le nat_0_le)
  show ?thesis by (simp add: k power_int_minus field_simps)
qed

text \<open>Every integer up to \<open>2 ^ 53\<close> is a double; rounding keeps integer bounds.\<close>

lemma roundExp_nonpos:
  assumes "0 < x" "x < 2 ^ 53"
  shows "roundExp x \<le> 0"
  using binExp_upper [of x 53] assms by (simp add: roundExp_def)

lemma roundMag_bounds:
  assumes pos: "0 < x" and up: "x \<le> of_int N" and N: "N < 2 ^ 53" and lo: "of_int L \<le> x"
  shows "of_int L \<le> roundMag x" "roundMag x \<le> of_int N"
proof -
  define e where "e = roundExp x"
  have "(of_int N :: rat) < of_int (2 ^ 53)" using N by (simp only: of_int_less_iff)
  then have "x < 2 ^ 53" using up by simp
  then have e0: "e \<le> 0" using roundExp_nonpos [OF pos] by (simp add: e_def)
  have pe: "0 < (2::rat) powi e" by simp
  have "x / 2 powi e \<le> of_int (N * 2 ^ nat (- e))"
    unfolding scaled_int [OF e0, symmetric] using up pe by (simp add: divide_right_mono)
  then have "roundHalfEven (x / 2 powi e) \<le> N * 2 ^ nat (- e)" by (rule roundHalfEven_le)
  then have "(of_int (roundHalfEven (x / 2 powi e)) :: rat) \<le> of_int N / 2 powi e"
    unfolding scaled_int [OF e0] by (simp only: of_int_le_iff)
  then show "roundMag x \<le> of_int N"
    using pe unfolding roundMag_def e_def [symmetric] by (simp only: pos_le_divide_eq)
  have "of_int (L * 2 ^ nat (- e)) \<le> x / 2 powi e"
    unfolding scaled_int [OF e0, symmetric] using lo pe by (simp add: divide_right_mono)
  then have "L * 2 ^ nat (- e) \<le> roundHalfEven (x / 2 powi e)" by (rule roundHalfEven_ge)
  then have "(of_int L :: rat) / 2 powi e \<le> of_int (roundHalfEven (x / 2 powi e))"
    unfolding scaled_int [OF e0] by (simp only: of_int_le_iff)
  then show "of_int L \<le> roundMag x"
    using pe unfolding roundMag_def e_def [symmetric] by (simp only: pos_divide_le_eq)
qed

lemma small_no_overflow: "v \<le> of_int N \<Longrightarrow> N < 2 ^ 53 \<Longrightarrow> \<not> (2::rat) ^ 1024 \<le> v"
proof -
  assume "v \<le> of_int N" "N < 2 ^ 53"
  moreover have "(of_int N :: rat) < of_int (2 ^ 53)" using \<open>N < 2 ^ 53\<close> by (simp only: of_int_less_iff)
  moreover have "(2::rat) ^ 53 \<le> 2 ^ 1024" by (rule power_increasing) auto
  ultimately show ?thesis by simp
qed

lemma roundDouble_bounds:
  assumes "0 \<le> x" "x \<le> of_int N" "N < 2 ^ 53" "of_int L \<le> x"
  shows "\<exists>v. roundDouble x = Fin v \<and> of_int L \<le> v \<and> v \<le> of_int N"
proof (cases "x = 0")
  case True
  with assms show ?thesis by (auto simp: roundDouble_def)
next
  case False
  with assms(1) have pos: "0 < x" by simp
  note b = roundMag_bounds [OF pos assms(2,3,4)]
  from b pos small_no_overflow [OF b(2) assms(3)] show ?thesis
    by (simp add: roundDouble_def Let_def)
qed

lemma roundDouble_int_small:
  assumes "\<bar>n\<bar> < 2 ^ 53"
  shows "roundDouble (of_int n) = Fin (of_int n)"
proof (cases "n = 0")
  case False
  then have pos: "0 < (of_int \<bar>n\<bar> :: rat)" by simp
  note b = roundMag_bounds [OF pos order_refl assms order_refl]
  from b have "roundMag \<bar>of_int n\<bar> = \<bar>of_int n\<bar>" by simp
  with small_no_overflow [OF b(2) assms] False show ?thesis
    by (auto simp: roundDouble_def Let_def)
qed (simp add: roundDouble_def)

section \<open>Numerals: \<open>Number(s)\<close>, \<open>Number.parseInt\<close> and printing\<close>

definition digitVal :: "char \<Rightarrow> nat option" where
  "digitVal c = (let n = code c in
     if 48 \<le> n \<and> n \<le> 57 then Some (n - 48)
     else if 97 \<le> n \<and> n \<le> 122 then Some (n - 87)
     else if 65 \<le> n \<and> n \<le> 90 then Some (n - 55) else None)"

definition isRadixDigit :: "nat \<Rightarrow> char \<Rightarrow> bool" where
  "isRadixDigit r c = (case digitVal c of None \<Rightarrow> False | Some d \<Rightarrow> d < r)"

definition digitOf :: "char \<Rightarrow> nat" where
  "digitOf c = (case digitVal c of None \<Rightarrow> 0 | Some d \<Rightarrow> d)"

definition radixValue :: "nat \<Rightarrow> string \<Rightarrow> nat" where
  "radixValue r s = foldl (\<lambda>v c. r * v + digitOf c) 0 s"

definition radixLiteral :: "nat \<Rightarrow> string \<Rightarrow> jsnum" where
  "radixLiteral r s =
     (if s \<noteq> [] \<and> list_all (isRadixDigit r) s then roundDouble (of_nat (radixValue r s)) else NaN)"

definition splitSign :: "string \<Rightarrow> bool \<times> string" where
  "splitSign s = (case s of [] \<Rightarrow> (False, [])
     | c # r \<Rightarrow> if c = CHR ''-'' then (True, r) else if c = CHR ''+'' then (False, r) else (False, s))"

definition exponentPart :: "string \<Rightarrow> int option" where
  "exponentPart s = (case s of [] \<Rightarrow> Some 0
     | c # r \<Rightarrow>
         if c = CHR ''e'' \<or> c = CHR ''E'' then
           (case splitSign r of (neg, ds) \<Rightarrow>
              if ds \<noteq> [] \<and> list_all isDigit ds
              then Some (if neg then - int (radixValue 10 ds) else int (radixValue 10 ds)) else None)
         else None)"

definition unsignedDecimal :: "string \<Rightarrow> rat option" where
  "unsignedDecimal u =
     (let ip = takeWhile isDigit u; r1 = dropWhile isDigit u;
          (fp, r2) = (case r1 of [] \<Rightarrow> ([], [])
             | c # r \<Rightarrow> if c = CHR ''.'' then (takeWhile isDigit r, dropWhile isDigit r) else ([], r1))
      in if ip = [] \<and> fp = [] then None
         else (case exponentPart r2 of None \<Rightarrow> None
           | Some e \<Rightarrow> Some (of_nat (radixValue 10 (ip @ fp)) * 10 powi (e - int (length fp)))))"

definition decimalLiteral :: "string \<Rightarrow> jsnum" where
  "decimalLiteral t = (case splitSign t of (neg, u) \<Rightarrow>
     if u = ''Infinity'' then (if neg then NegInf else PosInf)
     else (case unsignedDecimal u of None \<Rightarrow> NaN
       | Some x \<Rightarrow> roundDouble (if neg then - x else x)))"

text \<open>\<open>Number(s)\<close> for a string.\<close>

definition stringToNumber :: "string \<Rightarrow> jsnum" where
  "stringToNumber s = (let t = trim s in
     if t = [] then Fin 0
     else if startsWith t ''0x'' \<or> startsWith t ''0X'' then radixLiteral 16 (drop 2 t)
     else if startsWith t ''0o'' \<or> startsWith t ''0O'' then radixLiteral 8 (drop 2 t)
     else if startsWith t ''0b'' \<or> startsWith t ''0B'' then radixLiteral 2 (drop 2 t)
     else decimalLiteral t)"

text \<open>\<open>Number.parseInt(s, r)\<close> for the radices 10 and 16 of the sources.\<close>

definition parseInt :: "nat \<Rightarrow> string \<Rightarrow> jsnum" where
  "parseInt r s = (case splitSign (trimStart s) of (neg, u) \<Rightarrow>
     let v = (if r = 16 \<and> (startsWith u ''0x'' \<or> startsWith u ''0X'') then drop 2 u else u);
         ds = takeWhile (isRadixDigit r) v
     in if ds = [] then NaN
        else roundDouble (if neg then - of_nat (radixValue r ds) else of_nat (radixValue r ds)))"

text \<open>\<open>ToInt32\<close>, the conversion of the bitwise operators.\<close>

definition toInt32 :: "jsnum \<Rightarrow> 32 word" where
  "toInt32 a = (case a of Fin x \<Rightarrow> of_int (if 0 \<le> x then \<lfloor>x\<rfloor> else \<lceil>x\<rceil>) | _ \<Rightarrow> 0)"

definition digitChar :: "nat \<Rightarrow> char" where
  "digitChar d = char_of (if d < 10 then d + 48 else d + 87)"

fun showRadix :: "nat \<Rightarrow> nat \<Rightarrow> string" where
  "showRadix r n =
     (if r < 2 \<or> n < r then [digitChar n] else showRadix r (n div r) @ [digitChar (n mod r)])"

declare showRadix.simps [simp del]

abbreviation showNat :: "nat \<Rightarrow> string" where
  "showNat \<equiv> showRadix 10"

abbreviation showHex :: "nat \<Rightarrow> string" where
  "showHex \<equiv> showRadix 16"

lemma digitVal_digitChar: "d < 36 \<Longrightarrow> digitVal (digitChar d) = Some d"
  by (auto simp: digitVal_def digitChar_def Let_def)

lemma isRadixDigit_digitChar: "d < r \<Longrightarrow> r \<le> 36 \<Longrightarrow> isRadixDigit r (digitChar d)"
  by (simp add: isRadixDigit_def digitVal_digitChar)

lemma isRadixDigit_10 [simp]: "isRadixDigit 10 c = isDigit c"
  by (auto simp: isRadixDigit_def digitVal_def isDigit_def Let_def split: option.splits)

lemma showRadix_digits:
  "2 \<le> r \<Longrightarrow> r \<le> 36 \<Longrightarrow> c \<in> set (showRadix r n) \<Longrightarrow> isRadixDigit r c"
proof (induction r n rule: showRadix.induct)
  case (1 r n)
  then show ?case
    by (subst (asm) (2) showRadix.simps) (auto simp: isRadixDigit_digitChar split: if_splits)
qed

lemma showRadix_neq_Nil [simp]: "showRadix r n \<noteq> []"
  by (subst showRadix.simps) simp

lemma radixValue_snoc [simp]: "radixValue r (s @ [c]) = r * radixValue r s + digitOf c"
  by (simp add: radixValue_def)

lemma radixValue_single [simp]: "radixValue r [c] = digitOf c"
  by (simp add: radixValue_def)

lemma radixValue_showRadix: "2 \<le> r \<Longrightarrow> r \<le> 36 \<Longrightarrow> radixValue r (showRadix r n) = n"
proof (induction r n rule: showRadix.induct)
  case (1 r n)
  show ?case
  proof (cases "n < r")
    case True
    with "1.prems" show ?thesis
      by (subst showRadix.simps) (simp add: digitOf_def digitVal_digitChar)
  next
    case False
    with 1 have "radixValue r (showRadix r (n div r)) = n div r" by simp
    moreover have "n mod r < 36" using "1.prems" by (meson less_le_trans mod_less_divisor pos2 order_less_le_trans)
    ultimately show ?thesis using "1.prems" False
      by (subst showRadix.simps) (simp add: digitOf_def digitVal_digitChar)
  qed
qed

lemma showNat_digits: "\<forall>c\<in>set (showNat n). isDigit c"
  using showRadix_digits [of 10 _ n] by auto

lemma radixDigit_not:
  assumes "isRadixDigit r c" "r \<le> 16"
  shows "\<not> isSpace c" "c \<noteq> CHR ''x''" "c \<noteq> CHR ''X''" "c \<noteq> CHR ''-''" "c \<noteq> CHR ''+''"
    "c \<noteq> CHR ''.''" "c \<noteq> CHR '':''" "c \<noteq> CHR ''o''" "c \<noteq> CHR ''O''" "c \<noteq> CHR ''I''"
    "c \<noteq> CHR ''[''" "c \<noteq> CHR '']''"
  using assms by (auto simp: isRadixDigit_def digitVal_def isSpace_def Let_def code_def split: if_splits)

lemma digit_not:
  assumes "isDigit c"
  shows "c \<noteq> CHR ''b''" "c \<noteq> CHR ''B''" "c \<noteq> CHR ''e''" "c \<noteq> CHR ''E''"
  using assms by (auto simp: isDigit_def code_def)

lemma splitSign_digits: "(\<And>c. c \<in> set s \<Longrightarrow> isRadixDigit r c) \<Longrightarrow> r \<le> 16 \<Longrightarrow> splitSign s = (False, s)"
  using radixDigit_not(4,5) [of r] by (cases s) (auto simp: splitSign_def)

lemma startsWith_second: "startsWith s [a, b] \<Longrightarrow> b \<in> set s"
  by (auto elim!: startsWithE)

text \<open>Printing and reading back is the identity below \<open>2 ^ 53\<close>.\<close>

lemma stringToNumber_showNat:
  assumes "n < 2 ^ 53"
  shows "stringToNumber (showNat n) = Fin (of_nat n)"
proof -
  let ?s = "showNat n"
  have dig: "\<And>c. c \<in> set ?s \<Longrightarrow> isRadixDigit 10 c" using showNat_digits by simp
  have dg: "\<And>c. c \<in> set ?s \<Longrightarrow> isDigit c" using showNat_digits by simp
  have tr: "trim ?s = ?s" using dg isDigit_not_space by (intro trim_no_space) auto
  have pre: "\<not> startsWith ?s [CHR ''0'', c]" if "\<not> isDigit c" for c
    using startsWith_second dg that by blast
  have nd: "\<not> isDigit CHR ''x''" "\<not> isDigit CHR ''X''" "\<not> isDigit CHR ''o''" "\<not> isDigit CHR ''O''"
    "\<not> isDigit CHR ''b''" "\<not> isDigit CHR ''B''" "\<not> isDigit CHR ''I''"
    by (simp_all add: isDigit_def code_def)
  have inf: "?s \<noteq> ''Infinity''" using dg nd(7) by (metis list.set_intros(1))
  have tw: "takeWhile isDigit ?s = ?s" "dropWhile isDigit ?s = []"
    using dg by (simp_all add: takeWhile_all dropWhile_all)
  have "unsignedDecimal ?s = Some (of_nat n)"
    by (simp add: unsignedDecimal_def tw exponentPart_def radixValue_showRadix)
  moreover have "roundDouble (of_nat n) = Fin (of_nat n)"
    using roundDouble_int_small [of "int n"] assms by simp
  ultimately have "decimalLiteral ?s = Fin (of_nat n)"
    using inf splitSign_digits [of ?s 10] dig by (simp add: decimalLiteral_def)
  with tr pre nd show ?thesis by (simp add: stringToNumber_def Let_def)
qed

lemma parseInt_showRadix:
  assumes n: "n < 2 ^ 53" and r: "r = 10 \<or> r = 16"
  shows "parseInt r (showRadix r n) = Fin (of_nat n)"
proof -
  let ?s = "showRadix r n"
  have dig: "\<And>c. c \<in> set ?s \<Longrightarrow> isRadixDigit r c" using r showRadix_digits [of r _ n] by auto
  have r16: "r \<le> 16" using r by auto
  have tr: "trimStart ?s = ?s" using dig radixDigit_not(1) [OF _ r16] by (intro trim_no_space) auto
  have pre: "\<not> startsWith ?s ''0x''" "\<not> startsWith ?s ''0X''"
    using startsWith_second dig radixDigit_not(2,3) [OF _ r16] by blast+
  have tw: "takeWhile (isRadixDigit r) ?s = ?s" using dig by (simp add: takeWhile_all)
  have "roundDouble (of_nat n) = Fin (of_nat n)"
    using roundDouble_int_small [of "int n"] n by simp
  then show ?thesis
    using tr pre splitSign_digits [OF dig r16] r
    by (auto simp: parseInt_def tw radixValue_showRadix)
qed

section \<open>Primitive values\<close>

datatype jsprim = Undefined | Null | Bool bool | Num jsnum | Str string

fun truthy :: "jsprim \<Rightarrow> bool" where
  "truthy Undefined = False"
| "truthy Null = False"
| "truthy (Bool b) = b"
| "truthy (Num n) = (n \<noteq> NaN \<and> n \<noteq> Fin 0)"
| "truthy (Str s) = (s \<noteq> [])"

text \<open>\<open>Number(v)\<close> and the operator \<open>??\<close>.\<close>

fun toNumber :: "jsprim \<Rightarrow> jsnum" where
  "toNumber Undefined = NaN"
| "toNumber Null = Fin 0"
| "toNumber (Bool b) = Fin (if b then 1 else 0)"
| "toNumber (Num n) = n"
| "toNumber (Str s) = stringToNumber s"

fun nullish :: "jsprim \<Rightarrow> bool" where
  "nullish Undefined = True"
| "nullish Null = True"
| "nullish _ = False"

definition coalesce :: "jsprim \<Rightarrow> jsprim \<Rightarrow> jsprim" where
  "coalesce a b = (if nullish a then b else a)"

end
