(* ===== verification/Regex.thy ===== *)
theory Regex
  imports JsString
begin

text \<open>
  Regular expressions as the sources use them: a syntax for the constructs that occur in the
  regular-expression literals under \<open>src/\<close> and a backtracking matcher that returns the matches
  in the order the language tries them, so that the first one is what \<open>exec\<close> returns. A
  position is the text before it (reversed), the text after it and the captures so far.
\<close>

datatype re =
    REps
  | RCls "char \<Rightarrow> bool"
  | RSeq re re
  | RAlt re re
  | RStar re
  | RCap nat re
  | REos
  | RBos
  | RWordB
  | RNotAhead re

type_synonym rpos = "string \<times> string \<times> (nat \<times> string) list"

fun starRun :: "(rpos \<Rightarrow> rpos list) \<Rightarrow> nat \<Rightarrow> rpos \<Rightarrow> rpos list" where
  "starRun f 0 x = [x]"
| "starRun f (Suc n) x =
     concat (map (\<lambda>y. if length (fst (snd y)) < length (fst (snd x)) then starRun f n y else []) (f x))
     @ [x]"

definition wordAt :: "string \<Rightarrow> bool" where
  "wordAt s = (case s of [] \<Rightarrow> False | c # _ \<Rightarrow> isWordChar c)"

primrec reRun :: "re \<Rightarrow> rpos \<Rightarrow> rpos list" where
  "reRun REps = (\<lambda>x. [x])"
| "reRun (RCls P) = (\<lambda>(p, s, c). case s of [] \<Rightarrow> [] | a # t \<Rightarrow> if P a then [(a # p, t, c)] else [])"
| "reRun (RSeq a b) = (\<lambda>x. concat (map (reRun b) (reRun a x)))"
| "reRun (RAlt a b) = (\<lambda>x. reRun a x @ reRun b x)"
| "reRun (RStar a) = (\<lambda>x. starRun (reRun a) (length (fst (snd x))) x)"
| "reRun (RCap n a) = (\<lambda>(p, s, c).
     map (\<lambda>(p', s', c'). (p', s', (n, take (length s - length s') s) # c')) (reRun a (p, s, c)))"
| "reRun REos = (\<lambda>(p, s, c). if s = [] then [(p, s, c)] else [])"
| "reRun RBos = (\<lambda>(p, s, c). if p = [] then [(p, s, c)] else [])"
| "reRun RWordB = (\<lambda>(p, s, c). if wordAt p \<noteq> wordAt s then [(p, s, c)] else [])"
| "reRun (RNotAhead a) = (\<lambda>x. if reRun a x = [] then [x] else [])"

text \<open>\<open>exec\<close>: the leftmost start with a match, and the first match there.\<close>

fun reSearch :: "re \<Rightarrow> string \<Rightarrow> string \<Rightarrow> rpos option" where
  "reSearch r p [] = (case reRun r (p, [], []) of [] \<Rightarrow> None | y # _ \<Rightarrow> Some y)"
| "reSearch r p (c # s) =
     (case reRun r (p, c # s, []) of [] \<Rightarrow> reSearch r (c # p) s | y # _ \<Rightarrow> Some y)"

definition reTest :: "re \<Rightarrow> string \<Rightarrow> bool" where
  "reTest r s \<longleftrightarrow> reSearch r [] s \<noteq> None"

text \<open>\<open>r.exec(s)?.[n]\<close>: \<open>None\<close> for no match or a group that did not take part.\<close>

definition reGroup :: "re \<Rightarrow> nat \<Rightarrow> string \<Rightarrow> string option" where
  "reGroup r n s = (case reSearch r [] s of None \<Rightarrow> None | Some (_, _, c) \<Rightarrow> map_of c n)"

section \<open>Derived forms\<close>

definition rChr :: "bool \<Rightarrow> char \<Rightarrow> re" where
  "rChr ci d = RCls (\<lambda>c. c = d \<or> ci \<and> lowerChar c = lowerChar d)"

definition rLit :: "bool \<Rightarrow> string \<Rightarrow> re" where
  "rLit ci w = foldr (\<lambda>d r. RSeq (rChr ci d) r) w REps"

definition rPlus :: "re \<Rightarrow> re" where
  "rPlus r = RSeq r (RStar r)"

definition rOpt :: "re \<Rightarrow> re" where
  "rOpt r = RAlt r REps"

fun rAlts :: "re list \<Rightarrow> re" where
  "rAlts [] = RCls (\<lambda>_. False)"
| "rAlts [r] = r"
| "rAlts (r # q # rs) = RAlt r (rAlts (q # rs))"

fun rSeqs :: "re list \<Rightarrow> re" where
  "rSeqs [] = REps"
| "rSeqs [r] = r"
| "rSeqs (r # q # rs) = RSeq r (rSeqs (q # rs))"

fun rTimes :: "nat \<Rightarrow> re \<Rightarrow> re" where
  "rTimes 0 r = REps"
| "rTimes (Suc n) r = RSeq r (rTimes n r)"

text \<open>The dot: every code unit but the line terminators.\<close>

definition notNewline :: "char \<Rightarrow> bool" where
  "notNewline c \<longleftrightarrow> code c \<noteq> 10 \<and> code c \<noteq> 13"

definition rDot :: re where
  "rDot = RCls notNewline"

section \<open>Facts\<close>

text \<open>
  The matches of an expression as a relation between positions; captures are forgotten by
  \<open>reEnds\<close>, which says which remainders a match can leave.
\<close>

definition reEnds :: "re \<Rightarrow> string \<Rightarrow> string \<Rightarrow> (string \<times> string) set" where
  "reEnds r p s = {(p', s'). \<exists>c c'. (p', s', c') \<in> set (reRun r (p, s, c))}"

lemma reSearch_None:
  "reSearch r p s = None \<longleftrightarrow> (\<forall>u v. s = u @ v \<longrightarrow> reRun r (rev u @ p, v, []) = [])"
proof (induction s arbitrary: p)
  case Nil
  then show ?case by (auto split: list.splits)
next
  case (Cons c s)
  have "(\<forall>u v. c # s = u @ v \<longrightarrow> reRun r (rev u @ p, v, []) = []) \<longleftrightarrow>
        reRun r (p, c # s, []) = [] \<and> (\<forall>u v. s = u @ v \<longrightarrow> reRun r (rev u @ c # p, v, []) = [])"
    (is "?L = ?R")
  proof
    assume L: ?L
    have "reRun r (p, c # s, []) = []" using L [rule_format, of "[]" "c # s"] by simp
    moreover have "reRun r (rev u @ c # p, v, []) = []" if "s = u @ v" for u v
      using L [rule_format, of "c # u" v] that by simp
    ultimately show ?R by blast
  next
    assume R: ?R
    show ?L
    proof (intro allI impI)
      fix u v assume "c # s = u @ v"
      then show "reRun r (rev u @ p, v, []) = []" using R by (cases u) auto
    qed
  qed
  with Cons.IH show ?case by (auto split: list.splits)
qed

lemma reTest_iff: "reTest r s \<longleftrightarrow> (\<exists>u v. s = u @ v \<and> reRun r (rev u, v, []) \<noteq> [])"
  using reSearch_None [of r "[]" s] by (auto simp: reTest_def)

lemma reRun_seq: "set (reRun (RSeq a b) x) = (\<Union>y\<in>set (reRun a x). set (reRun b y))"
  by simp

lemma reRun_rChr:
  "reRun (rChr ci d) (p, s, c) =
     (case s of [] \<Rightarrow> [] | a # t \<Rightarrow> if a = d \<or> ci \<and> lowerChar a = lowerChar d then [(a # p, t, c)] else [])"
  by (simp add: rChr_def)

text \<open>A literal consumes exactly itself (up to case under the flag \<open>i\<close>).\<close>

definition litEq :: "bool \<Rightarrow> string \<Rightarrow> string \<Rightarrow> bool" where
  "litEq ci u w \<longleftrightarrow> u = w \<or> ci \<and> toLower u = toLower w"

lemma reRun_rLit:
  "reRun (rLit ci w) (p, s, c) =
     (if litEq ci (take (length w) s) w then [(rev (take (length w) s) @ p, drop (length w) s, c)] else [])"
proof (induction w arbitrary: p s)
  case Nil
  then show ?case by (simp add: rLit_def litEq_def toLower_def)
next
  case (Cons d w)
  show ?case
  proof (cases s)
    case Nil
    then show ?thesis by (simp add: rLit_def reRun_rChr litEq_def toLower_def)
  next
    case (Cons a t)
    have "rLit ci (d # w) = RSeq (rChr ci d) (rLit ci w)" by (simp add: rLit_def)
    then show ?thesis using Cons.IH [of "a # p" t]
      by (auto simp: Cons reRun_rChr litEq_def toLower_def)
  qed
qed

lemma starRun_cls:
  "length s \<le> n \<Longrightarrow> set (starRun (reRun (RCls P)) n (p, s, c)) =
     {(rev u @ p, v, c) | u v. s = u @ v \<and> (\<forall>x\<in>set u. P x)}"
proof (induction n arbitrary: p s)
  case 0
  then show ?case by auto
next
  case (Suc n)
  show ?case
  proof (cases s)
    case Nil
    then show ?thesis by auto
  next
    case (Cons a t)
    show ?thesis
    proof (cases "P a")
      case True
      have "set (starRun (reRun (RCls P)) (Suc n) (p, s, c)) =
          insert (p, s, c) {(rev u @ a # p, v, c) | u v. t = u @ v \<and> (\<forall>x\<in>set u. P x)}"
        using Suc Cons True by auto
      also have "\<dots> = {(rev u @ p, v, c) | u v. s = u @ v \<and> (\<forall>x\<in>set u. P x)}" (is "?A = ?B")
      proof
        show "?A \<subseteq> ?B"
        proof
          fix z assume "z \<in> ?A"
          then consider "z = (p, s, c)" | u v where "z = (rev u @ a # p, v, c)" "t = u @ v" "\<forall>x\<in>set u. P x"
            by auto
          then show "z \<in> ?B"
          proof cases
            case 1
            then show ?thesis by (auto intro: exI [of _ "[]"])
          next
            case 2
            then show ?thesis using Cons True by (auto intro!: exI [of _ "a # u"])
          qed
        qed
        show "?B \<subseteq> ?A" using Cons by (auto simp: Cons_eq_append_conv)
      qed
      finally show ?thesis .
    next
      case False
      with Cons show ?thesis by (auto simp: Cons_eq_append_conv)
    qed
  qed
qed

lemma reRun_star_cls:
  "set (reRun (RStar (RCls P)) (p, s, c)) = {(rev u @ p, v, c) | u v. s = u @ v \<and> (\<forall>x\<in>set u. P x)}"
  using starRun_cls [of s "length s"] by simp

lemma reSearch_Some:
  "reSearch r p s = Some y \<Longrightarrow> \<exists>u v. s = u @ v \<and> y \<in> set (reRun r (rev u @ p, v, []))"
proof (induction s arbitrary: p)
  case Nil
  then show ?case by (auto split: list.splits)
next
  case (Cons c s)
  show ?case
  proof (cases "reRun r (p, c # s, [])")
    case Nil
    with Cons.prems have "reSearch r (c # p) s = Some y" by simp
    from Cons.IH [OF this] obtain u v where "s = u @ v" "y \<in> set (reRun r (rev u @ c # p, v, []))" by blast
    then show ?thesis by (intro exI [of _ "c # u"] exI [of _ v]) simp
  next
    case (Cons z zs)
    with Cons.prems have "y \<in> set (reRun r (p, c # s, []))" by simp
    then show ?thesis by (intro exI [of _ "[]"] exI [of _ "c # s"]) simp
  qed
qed

text \<open>What a captured repetition of a class holds.\<close>

lemma reRun_rPlus_cls:
  assumes "(p', v, c') \<in> set (reRun (rPlus (RCls P)) (p, s, c))"
  shows "\<exists>u. s = u @ v \<and> p' = rev u @ p \<and> c' = c \<and> u \<noteq> [] \<and> (\<forall>x\<in>set u. P x)"
proof -
  obtain a t where s: "s = a # t" "P a" "(p', v, c') \<in> set (reRun (RStar (RCls P)) (a # p, t, c))"
    using assms by (auto simp: rPlus_def simp del: reRun.simps(5) split: list.splits if_splits)
  then obtain u where "t = u @ v" "p' = rev u @ a # p" "c' = c" "\<forall>x\<in>set u. P x"
    unfolding reRun_star_cls by blast
  with s(1,2) show ?thesis by (intro exI [of _ "a # u"]) auto
qed

lemma reRun_rTimes_cls:
  "(p', v, c') \<in> set (reRun (rTimes k (RCls P)) (p, s, c)) \<Longrightarrow>
     \<exists>u. s = u @ v \<and> p' = rev u @ p \<and> c' = c \<and> length u = k \<and> (\<forall>x\<in>set u. P x)"
proof (induction k arbitrary: p s)
  case (Suc k)
  then obtain a t where s: "s = a # t" "P a" "(p', v, c') \<in> set (reRun (rTimes k (RCls P)) (a # p, t, c))"
    by (auto split: list.splits if_splits)
  from Suc.IH [OF s(3)] obtain u where "t = u @ v" "p' = rev u @ a # p" "c' = c" "length u = k"
    "\<forall>x\<in>set u. P x" by blast
  with s(1,2) show ?case by (intro exI [of _ "a # u"]) auto
qed simp

text \<open>An expression whose last part is the capture \<open>n\<close> (the only one) leaves its text on top.\<close>

lemma reGroup_cap:
  assumes "reGroup (RSeq a (RCap n r)) n s = Some w"
  shows "\<exists>p t c p' v c'. (p', v, c') \<in> set (reRun r (p, t, c)) \<and> w = take (length t - length v) t"
proof -
  obtain y where y: "reSearch (RSeq a (RCap n r)) [] s = Some y" "map_of (snd (snd y)) n = Some w"
    using assms by (auto simp: reGroup_def split: option.splits)
  from reSearch_Some [OF y(1)] obtain u v where "y \<in> set (reRun (RSeq a (RCap n r)) (rev u @ [], v, []))" by blast
  then obtain p t c p' v' c' where
      "(p', v', c') \<in> set (reRun r (p, t, c))" "y = (p', v', (n, take (length t - length v') t) # c')"
    by (auto simp: case_prod_unfold)
  with y(2) show ?thesis by (intro exI) auto
qed

lemma reGroup_plus:
  assumes "reGroup (RSeq a (RCap n (rPlus (RCls P)))) n s = Some w"
  shows "w \<noteq> [] \<and> (\<forall>x\<in>set w. P x)"
  using reGroup_cap [OF assms] by (auto dest!: reRun_rPlus_cls)

lemma reGroup_times:
  assumes "reGroup (RSeq a (RCap n (rTimes k (RCls P)))) n s = Some w"
  shows "length w = k \<and> (\<forall>x\<in>set w. P x)"
  using reGroup_cap [OF assms] by (auto dest!: reRun_rTimes_cls)

text \<open>The same with one more class after the capture.\<close>

lemma reGroup_plus_then:
  assumes "reGroup (RSeq a (RSeq (RCap n (rPlus (RCls P))) (RCls Q))) n s = Some w"
  shows "w \<noteq> [] \<and> (\<forall>x\<in>set w. P x)"
proof -
  let ?r = "RSeq a (RSeq (RCap n (rPlus (RCls P))) (RCls Q))"
  obtain y where y: "reSearch ?r [] s = Some y" "map_of (snd (snd y)) n = Some w"
    using assms by (auto simp: reGroup_def split: option.splits)
  from reSearch_Some [OF y(1)] obtain u v where "y \<in> set (reRun ?r (rev u @ [], v, []))" by blast
  then obtain p t c p' v' c' where
      m: "(p', v', c') \<in> set (reRun (rPlus (RCls P)) (p, t, c))" and
      "snd (snd y) = (n, take (length t - length v') t) # c'"
    by (auto simp: case_prod_unfold split: list.splits if_splits)
  with y(2) have "w = take (length t - length v') t" by simp
  with reRun_rPlus_cls [OF m] show ?thesis by auto
qed

text \<open>Building a match step by step.\<close>

lemma reRun_seqI: "y \<in> set (reRun a x) \<Longrightarrow> z \<in> set (reRun b y) \<Longrightarrow> z \<in> set (reRun (RSeq a b) x)"
  by auto

lemma reRun_litI:
  assumes "toLower w' = toLower w"
  shows "(rev w' @ p, t, c) \<in> set (reRun (rLit True w) (p, w' @ t, c))"
proof -
  have "length w' = length w" using assms by (metis length_toLower)
  then show ?thesis using assms by (simp add: reRun_rLit litEq_def)
qed

lemma reRun_starI: "\<forall>x\<in>set u. P x \<Longrightarrow> (rev u @ p, v, c) \<in> set (reRun (RStar (RCls P)) (p, u @ v, c))"
  by (simp add: reRun_star_cls del: reRun.simps(5))

lemma reTestI: "y \<in> set (reRun r (rev u, v, [])) \<Longrightarrow> reTest r (u @ v)"
  unfolding reTest_iff by (intro exI [of _ u] exI [of _ v]) auto

end
