(* ===== verification/Errors.thy ===== *)
theory Errors
  imports JsNumber Regex
begin

text \<open>
  \<open>errors.js\<close>: the error vocabulary and \<open>classifyError\<close>. Thrown objects live in a heap
  (a list of error objects; a reference is an index), because the code follows \<open>cause\<close> chains
  that may be cyclic. The call stack is a parameter (\<open>fuel\<close>): a call with none left throws the
  engine's \<open>RangeError\<close>, which the \<open>try\<close> around the recursive call catches.
\<close>

datatype ctor = TypeErrorC | ReferenceErrorC | SyntaxErrorC | RangeErrorC | DownloaderErrorC | OtherC

datatype tval = TPrim jsprim | TRef nat

text \<open>Absent \<open>name\<close> and \<open>message\<close> properties are the empty string, which \<open>||\<close> treats alike.\<close>

record errobj =
  ector :: ctor
  ename :: string
  emessage :: string
  ecode :: jsprim
  ecause :: tval

type_synonym heap = "errobj list"

datatype thrown = Thrown tval | StackOverflow

definition DRM_DETECTED :: string where "DRM_DETECTED = ''drm_detected''"
definition ANTI_BOT_BLOCK :: string where "ANTI_BOT_BLOCK = ''anti_bot_block''"
definition NETWORK_ERROR :: string where "NETWORK_ERROR = ''network_error''"
definition TIMEOUT :: string where "TIMEOUT = ''timeout''"
definition NO_MEDIA_FOUND :: string where "NO_MEDIA_FOUND = ''no_media_found''"
definition STORAGE_ERROR :: string where "STORAGE_ERROR = ''storage_error''"

definition ERROR_CODES :: "string list" where
  "ERROR_CODES =
     [DRM_DETECTED, ANTI_BOT_BLOCK, NETWORK_ERROR, TIMEOUT, NO_MEDIA_FOUND, STORAGE_ERROR]"

lemmas error_code_defs = DRM_DETECTED_def ANTI_BOT_BLOCK_def NETWORK_ERROR_def TIMEOUT_def
  NO_MEDIA_FOUND_def STORAGE_ERROR_def

definition NETWORK_ERRNOS :: "string list" where
  "NETWORK_ERRNOS = [''ENOTFOUND'', ''ECONNREFUSED'', ''ECONNRESET'', ''ECONNABORTED'', ''EPIPE'',
     ''EHOSTUNREACH'', ''ENETUNREACH'', ''EAI_AGAIN'', ''ERR_NETWORK'', ''ERR_HTTP2_STREAM_ERROR'']"

definition TIMEOUT_ERRNOS :: "string list" where
  "TIMEOUT_ERRNOS = [''ETIMEDOUT'', ''ERR_SOCKET_CONNECTION_TIMEOUT'']"

definition BUG_CTORS :: "ctor list" where
  "BUG_CTORS = [TypeErrorC, ReferenceErrorC, SyntaxErrorC, RangeErrorC]"

text \<open>\<open>/network|fetch|socket|connect|timeout|abort|dns|resolve|econn|getaddrinfo/i\<close>\<close>

definition NETWORK_HINT_RE :: re where
  "NETWORK_HINT_RE = rAlts (map (rLit True)
     [''network'', ''fetch'', ''socket'', ''connect'', ''timeout'', ''abort'', ''dns'',
      ''resolve'', ''econn'', ''getaddrinfo''])"

fun truthyT :: "tval \<Rightarrow> bool" where
  "truthyT (TPrim p) = truthy p"
| "truthyT (TRef a) = True"

text \<open>What the loop of \<open>causeIsNetwork\<close> tests on one object.\<close>

definition networkEvidence :: "errobj \<Rightarrow> bool" where
  "networkEvidence obj \<longleftrightarrow>
     (case ecode obj of Str c \<Rightarrow> c \<in> set NETWORK_ERRNOS \<or> c \<in> set TIMEOUT_ERRNOS | _ \<Rightarrow> False)
   \<or> (ector obj = DownloaderErrorC \<and> (ecode obj = Str NETWORK_ERROR \<or> ecode obj = Str TIMEOUT))
   \<or> ename obj = ''AbortError''
   \<or> reTest NETWORK_HINT_RE (ename obj @ '' '' @ emessage obj)"

text \<open>
  The \<open>while\<close> loop: \<open>cur\<close> is the third argument. A primitive cause has neither \<open>code\<close>,
  \<open>name\<close>, \<open>message\<close> nor \<open>cause\<close>, so one iteration tests the hint \<open>'' ''\<close> and ends.
\<close>

function causeIsNetwork :: "heap \<Rightarrow> nat list \<Rightarrow> tval \<Rightarrow> bool" where
  "causeIsNetwork h seen (TPrim p) = (truthy p \<and> reTest NETWORK_HINT_RE '' '')"
| "causeIsNetwork h seen (TRef a) =
     (if length h \<le> a \<or> a \<in> set seen then False
      else if networkEvidence (h ! a) then True
      else causeIsNetwork h (a # seen) (ecause (h ! a)))"
  by pat_completeness auto
termination
proof (relation "measure (\<lambda>(h, seen, v). card ({..<length h} - set seen))", goal_cases)
  case 1
  then show ?case by simp
next
  case (2 h seen a)
  let ?A = "{..<length h} - set seen"
  from 2 have "a \<in> ?A" by simp
  then have "card (?A - {a}) < card ?A" by (intro card_Diff1_less) auto
  moreover have "{..<length h} - set (a # seen) = ?A - {a}" by auto
  ultimately show ?case by simp
qed

definition isBug :: "heap \<Rightarrow> tval \<Rightarrow> bool" where
  "isBug h v = (case v of TPrim p \<Rightarrow> False
     | TRef a \<Rightarrow> if length h \<le> a then False
         else if ector (h ! a) \<notin> set BUG_CTORS then False
         else \<not> causeIsNetwork h [] (ecause (h ! a)))"

fun errnoCode :: "jsprim \<Rightarrow> string option" where
  "errnoCode (Str c) =
     (if c \<in> set TIMEOUT_ERRNOS then Some TIMEOUT
      else if c \<in> set NETWORK_ERRNOS then Some NETWORK_ERROR else None)"
| "errnoCode _ = None"

text \<open>
  The body of \<open>classifyError\<close> for an object; \<open>sub\<close> is the outcome of the recursive call on the
  cause, used only where the code makes that call.
\<close>

definition classifyObj :: "heap \<Rightarrow> nat \<Rightarrow> thrown + jsprim \<Rightarrow> thrown + jsprim" where
  "classifyObj h a sub =
     (let obj = h ! a;
          dflt = Str (if ename obj = ''AbortError'' then TIMEOUT else NETWORK_ERROR)
      in if ector obj = DownloaderErrorC then Inr (ecode obj)
         else if isBug h (TRef a) then Inl (Thrown (TRef a))
         else (case errnoCode (ecode obj) of Some c \<Rightarrow> Inr (Str c)
           | None \<Rightarrow>
               if ector obj = TypeErrorC \<and> truthyT (ecause obj)
               then (case sub of Inr c \<Rightarrow> Inr c | Inl _ \<Rightarrow> Inr dflt)
               else Inr dflt))"

text \<open>
  A primitive is never an instance of an error class and has no \<open>code\<close>, \<open>cause\<close> or \<open>name\<close>, so
  the falsy and the truthy ones both end in \<open>network_error\<close>.
\<close>

fun classifyError :: "nat \<Rightarrow> heap \<Rightarrow> tval \<Rightarrow> thrown + jsprim" where
  "classifyError 0 h v = Inl StackOverflow"
| "classifyError (Suc fuel) h (TPrim p) = Inr (Str NETWORK_ERROR)"
| "classifyError (Suc fuel) h (TRef a) =
     (if length h \<le> a then Inr (Str NETWORK_ERROR)
      else classifyObj h a (classifyError fuel h (ecause (h ! a))))"

text \<open>\<open>server.js\<close>, \<open>safeClassify\<close>: a classification that throws counts as \<open>network_error\<close>.\<close>

definition safeClassify :: "nat \<Rightarrow> heap \<Rightarrow> tval \<Rightarrow> jsprim" where
  "safeClassify fuel h v =
     (case classifyError fuel h v of Inr c \<Rightarrow> c | Inl _ \<Rightarrow> Str NETWORK_ERROR)"

section \<open>The cause walk decides reachability of network evidence\<close>

inductive onChain :: "heap \<Rightarrow> tval \<Rightarrow> nat \<Rightarrow> bool" for h where
  here: "a < length h \<Longrightarrow> onChain h (TRef a) a"
| there: "a < length h \<Longrightarrow> onChain h (ecause (h ! a)) b \<Longrightarrow> onChain h (TRef a) b"

inductive_cases onChain_primE [elim!]: "onChain h (TPrim p) b"
inductive_cases onChain_refE: "onChain h (TRef a) b"

text \<open>A set of objects closed under \<open>cause\<close> contains the whole chain of its members.\<close>

lemma onChain_closed:
  "onChain h v b \<Longrightarrow> v = TRef a \<Longrightarrow> a \<in> S \<Longrightarrow>
   (\<And>x y. x \<in> S \<Longrightarrow> ecause (h ! x) = TRef y \<Longrightarrow> y \<in> S) \<Longrightarrow> b \<in> S"
proof (induction arbitrary: a rule: onChain.induct)
  case (here c)
  then show ?case by simp
next
  case (there c b)
  then show ?case by (cases "ecause (h ! c)") auto
qed

lemma hint_blank [simp]: "\<not> reTest NETWORK_HINT_RE '' ''"
  by code_simp

lemma causeIsNetwork_iff_gen:
  assumes "\<And>x. x \<in> set seen \<Longrightarrow> x < length h \<Longrightarrow> \<not> networkEvidence (h ! x)"
    and "\<And>x y. x \<in> set seen \<Longrightarrow> ecause (h ! x) = TRef y \<Longrightarrow> y \<in> set seen \<or> v = TRef y"
  shows "causeIsNetwork h seen v \<longleftrightarrow> (\<exists>b. onChain h v b \<and> b < length h \<and> networkEvidence (h ! b))"
  using assms
proof (induction h seen v rule: causeIsNetwork.induct)
  case (1 h seen p)
  then show ?case by auto
next
  case (2 h seen a)
  consider (out) "length h \<le> a" | (seen) "a < length h" "a \<in> set seen"
    | (ev) "a < length h" "a \<notin> set seen" "networkEvidence (h ! a)"
    | (walk) "a < length h" "a \<notin> set seen" "\<not> networkEvidence (h ! a)" by linarith
  then show ?case
  proof cases
    case out
    then show ?thesis by (auto elim: onChain_refE)
  next
    case seen
    have "b \<in> set seen" if "onChain h (TRef a) b" for b
      using onChain_closed [OF that refl, of "set seen"] seen(2) "2.prems"(2) by blast
    with seen "2.prems"(1) show ?thesis by auto
  next
    case ev
    then show ?thesis by (auto intro: onChain.here)
  next
    case walk
    have "causeIsNetwork h (a # seen) (ecause (h ! a)) \<longleftrightarrow>
        (\<exists>b. onChain h (ecause (h ! a)) b \<and> b < length h \<and> networkEvidence (h ! b))"
      using walk "2.prems" by (intro "2.IH") auto
    with walk show ?thesis
      by (auto intro: onChain.there elim: onChain_refE)
  qed
qed

lemma causeIsNetwork_iff:
  "causeIsNetwork h [] v \<longleftrightarrow> (\<exists>b. onChain h v b \<and> b < length h \<and> networkEvidence (h ! b))"
  by (rule causeIsNetwork_iff_gen) auto

section \<open>Classification\<close>

lemma isBug_not_downloader: "isBug h (TRef a) \<Longrightarrow> ector (h ! a) \<noteq> DownloaderErrorC"
  by (auto simp: isBug_def BUG_CTORS_def split: if_splits)

lemma classifyObj_Inl:
  "classifyObj h a sub = Inl e \<longleftrightarrow> e = Thrown (TRef a) \<and> isBug h (TRef a)"
  using isBug_not_downloader [of h a]
  by (auto simp: classifyObj_def Let_def split: option.splits sum.splits if_splits)

lemma isBug_inRange: "isBug h (TRef a) \<Longrightarrow> a < length h"
  by (auto simp: isBug_def split: if_splits)

lemma classifyError_Inl:
  "classifyError (Suc fuel) h v = Inl e \<longleftrightarrow> e = Thrown v \<and> isBug h v"
  by (cases v) (auto simp: classifyObj_Inl isBug_def)

definition wellCoded :: "heap \<Rightarrow> bool" where
  "wellCoded h \<longleftrightarrow> (\<forall>obj\<in>set h. ector obj = DownloaderErrorC \<longrightarrow> ecode obj \<in> Str ` set ERROR_CODES)"

lemma codes_in_vocabulary [simp]:
  "NETWORK_ERROR \<in> set ERROR_CODES" "TIMEOUT \<in> set ERROR_CODES" "DRM_DETECTED \<in> set ERROR_CODES"
  "ANTI_BOT_BLOCK \<in> set ERROR_CODES" "NO_MEDIA_FOUND \<in> set ERROR_CODES" "STORAGE_ERROR \<in> set ERROR_CODES"
  by (simp_all add: ERROR_CODES_def)

lemma errnoCode_cases: "errnoCode v = Some c \<Longrightarrow> c = TIMEOUT \<or> c = NETWORK_ERROR"
  by (cases v) (auto split: if_splits)

lemma classifyObj_Inr_cases:
  assumes "classifyObj h a sub = Inr c"
  shows "c = Str TIMEOUT \<or> c = Str NETWORK_ERROR \<or> sub = Inr c \<or>
     ector (h ! a) = DownloaderErrorC \<and> c = ecode (h ! a)"
  using assms errnoCode_cases [of "ecode (h ! a)"]
  by (auto simp: classifyObj_def Let_def split: if_splits option.splits sum.splits)

lemma classifyError_vocabulary:
  "wellCoded h \<Longrightarrow> classifyError fuel h v = Inr c \<Longrightarrow> c \<in> Str ` set ERROR_CODES"
proof (induction fuel h v arbitrary: c rule: classifyError.induct)
  case (3 fuel h a)
  show ?case
  proof (cases "length h \<le> a")
    case False
    with "3.prems" have "classifyObj h a (classifyError fuel h (ecause (h ! a))) = Inr c" by simp
    with classifyObj_Inr_cases [OF this] False "3.IH" "3.prems"(1) show ?thesis
      by (auto simp: wellCoded_def)
  qed (use "3.prems" in auto)
qed auto

text \<open>More stack than the cause chain is long never changes the answer.\<close>

fun chainEnds :: "heap \<Rightarrow> nat \<Rightarrow> tval \<Rightarrow> bool" where
  "chainEnds h n (TPrim p) = True"
| "chainEnds h 0 (TRef a) = (length h \<le> a)"
| "chainEnds h (Suc n) (TRef a) = (length h \<le> a \<or> chainEnds h n (ecause (h ! a)))"

lemma classifyError_fuel:
  "chainEnds h n v \<Longrightarrow> classifyError (Suc (n + k)) h v = classifyError (Suc n) h v"
proof (induction h n v rule: chainEnds.induct)
  case (3 h n a)
  show ?case
  proof (cases "length h \<le> a")
    case False
    with 3 have "classifyError (Suc (n + k)) h (ecause (h ! a)) = classifyError (Suc n) h (ecause (h ! a))"
      by simp
    with False show ?thesis by (simp only: add_Suc classifyError.simps if_False)
  qed simp
qed simp_all

section \<open>Thrown values that carry their own causes\<close>

text \<open>
  The components pass errors around as one value: the error object, the objects its \<open>cause\<close>
  refers to, and the HTTP \<open>status\<close> property \<open>fetchResOne\<close> adds.
\<close>

record exn =
  xObj :: errobj
  xHeap :: heap
  xStatus :: "nat option"

definition noCause :: tval where "noCause = TPrim Undefined"

definition mkExn :: "ctor \<Rightarrow> string \<Rightarrow> string \<Rightarrow> jsprim \<Rightarrow> exn" where
  "mkExn k name msg c =
     \<lparr>xObj = \<lparr>ector = k, ename = name, emessage = msg, ecode = c, ecause = noCause\<rparr>,
      xHeap = [], xStatus = None\<rparr>"

text \<open>\<open>new DownloaderError(code, message)\<close>: the message defaults to the code.\<close>

definition dErr :: "string \<Rightarrow> string \<Rightarrow> exn" where
  "dErr c msg = mkExn DownloaderErrorC ''DownloaderError'' (if msg = [] then c else msg) (Str c)"

definition plainErr :: "string \<Rightarrow> exn" where
  "plainErr msg = mkExn OtherC ''Error'' msg Undefined"

definition abortErr :: exn where
  "abortErr = mkExn OtherC ''AbortError'' ''This operation was aborted'' (Num (Fin 20))"

definition isDownloaderError :: "exn \<Rightarrow> bool" where
  "isDownloaderError e \<longleftrightarrow> ector (xObj e) = DownloaderErrorC"

definition exnCode :: "exn \<Rightarrow> jsprim" where
  "exnCode e = ecode (xObj e)"

definition exnMessage :: "exn \<Rightarrow> string" where
  "exnMessage e = emessage (xObj e)"

definition classifyExn :: "nat \<Rightarrow> exn \<Rightarrow> thrown + jsprim" where
  "classifyExn fuel e = classifyError fuel (xHeap e @ [xObj e]) (TRef (length (xHeap e)))"

lemma dErr_simps [simp]:
  "isDownloaderError (dErr c m)" "exnCode (dErr c m) = Str c" "xStatus (dErr c m) = None"
  "\<not> isDownloaderError (plainErr m)" "xStatus (plainErr m) = None" "exnMessage (plainErr m) = m"
  "\<not> isDownloaderError abortErr" "xStatus abortErr = None"
  by (simp_all add: dErr_def plainErr_def abortErr_def mkExn_def isDownloaderError_def exnCode_def exnMessage_def)

lemma classifyExn_downloader: "isDownloaderError e \<Longrightarrow> classifyExn (Suc fuel) e = Inr (exnCode e)"
  by (simp add: classifyExn_def classifyObj_def isDownloaderError_def exnCode_def nth_append)

lemma classifyExn_abort: "classifyExn (Suc fuel) abortErr = Inr (Str TIMEOUT)"
  by (simp add: classifyExn_def classifyObj_def abortErr_def mkExn_def isBug_def BUG_CTORS_def)

section \<open>Properties\<close>

text \<open>C31: \<open>classifyError\<close> rethrows exactly the genuine bugs: an instance of \<open>TypeError\<close>,
  \<open>ReferenceError\<close>, \<open>SyntaxError\<close> or \<open>RangeError\<close> with no object showing network evidence
  anywhere on its chain of causes, cyclic chains included.\<close>

theorem classifyError_throws_iff_bug:
  "(\<exists>e. classifyError (Suc fuel) h v = Inl e) \<longleftrightarrow>
   (\<exists>a. v = TRef a \<and> a < length h \<and> ector (h ! a) \<in> set BUG_CTORS \<and>
        (\<nexists>b. onChain h (ecause (h ! a)) b \<and> b < length h \<and> networkEvidence (h ! b)))"
proof -
  have "(\<exists>e. classifyError (Suc fuel) h v = Inl e) \<longleftrightarrow> isBug h v"
    by (simp add: classifyError_Inl del: classifyError.simps)
  then show ?thesis by (auto simp: isBug_def causeIsNetwork_iff split: tval.splits if_splits)
qed

text \<open>whatever was thrown, \<open>safeClassify\<close> answers with one of the public error codes, when
  every \<open>DownloaderError\<close> was built with one.\<close>

theorem safeClassify_vocabulary:
  "wellCoded h \<Longrightarrow> safeClassify fuel h v \<in> Str ` set ERROR_CODES"
  using classifyError_vocabulary [of h fuel v] by (auto simp: safeClassify_def split: sum.splits)

definition sampleHeap :: heap where
  "sampleHeap =
     [\<lparr>ector = TypeErrorC, ename = ''TypeError'', emessage = ''fetch failed'', ecode = Undefined, ecause = TRef 1\<rparr>,
      \<lparr>ector = DownloaderErrorC, ename = ''DownloaderError'', emessage = ''timeout'', ecode = Str TIMEOUT, ecause = noCause\<rparr>]"

theorem safeClassify_vocabulary_witness:
  "wellCoded sampleHeap \<and> safeClassify 5 sampleHeap (TRef 0) \<in> Str ` set ERROR_CODES"
proof -
  have "wellCoded sampleHeap" by (simp add: wellCoded_def sampleHeap_def)
  with safeClassify_vocabulary [of sampleHeap 5 "TRef 0"] show ?thesis by blast
qed

text \<open>The answer does not depend on how deep the stack is, once it is deeper than the chain
  of causes is long.\<close>

theorem classifyError_stack_independent:
  assumes "chainEnds h n v" "n < fuel" "n < fuel'"
  shows "classifyError fuel h v = classifyError fuel' h v"
proof -
  have "fuel = Suc (n + (fuel - Suc n))" "fuel' = Suc (n + (fuel' - Suc n))" using assms by simp_all
  then show ?thesis using classifyError_fuel [OF assms(1)] by metis
qed

theorem classifyError_stack_independent_witness:
  "chainEnds sampleHeap 2 (TRef 0) \<and> classifyError 3 sampleHeap (TRef 0) = classifyError 9 sampleHeap (TRef 0)"
proof -
  have "chainEnds sampleHeap 2 (TRef 0)"
    by (simp add: sampleHeap_def noCause_def eval_nat_numeral)
  with classifyError_stack_independent [of sampleHeap 2 "TRef 0" 3 9] show ?thesis by simp
qed

text \<open>A \<open>TypeError\<close> whose \<open>cause\<close> is itself and whose text speaks of the network is classified
  as \<open>network_error\<close> on every stack: the unguarded recursion ends in the stack overflow that the
  innermost \<open>try\<close> catches.\<close>

theorem classifyError_cyclic_cause:
  "classifyError (Suc fuel)
     [\<lparr>ector = TypeErrorC, ename = ''TypeError'', emessage = ''fetch failed'', ecode = Undefined,
       ecause = TRef 0\<rparr>] (TRef 0) = Inr (Str NETWORK_ERROR)"
proof -
  have ev: "reTest NETWORK_HINT_RE ''TypeError fetch failed''" by code_simp
  show ?thesis
  proof (induction fuel)
    case 0
    show ?case using ev by (simp add: classifyObj_def isBug_def BUG_CTORS_def Let_def networkEvidence_def)
  next
    case (Suc fuel)
    then show ?case using ev
      by (subst classifyError.simps)
        (simp add: classifyObj_def isBug_def BUG_CTORS_def Let_def networkEvidence_def del: classifyError.simps)
  qed
qed

end
