(* ===== verification/Concurrency.thy ===== *)
theory Concurrency
  imports JsNumber
begin

text \<open>
  \<open>concurrency.js\<close>: the semaphore that caps in-flight downloads, and the interface the request
  handler uses it through. Every \<open>release\<close> closure has its own \<open>released\<close> flag; the closures
  are numbered in the order \<open>acquire\<close> made them and \<open>tickets\<close> holds their flags.
\<close>

datatype semError = ConcurrencyLimitError

record semaphore =
  semMax :: nat
  semActive :: nat
  tickets :: "bool list"

text \<open>\<open>None\<close> is the \<open>TypeError\<close> for a \<open>max\<close> that is not a positive integer.\<close>

definition createSemaphore :: "jsprim \<Rightarrow> semaphore option" where
  "createSemaphore m = (case m of
     Num n \<Rightarrow> (case n of
       Fin x \<Rightarrow> if \<not> isInteger (Fin x) \<or> x \<le> 0 then None
                else Some \<lparr>semMax = nat \<lfloor>x\<rfloor>, semActive = 0, tickets = []\<rparr>
     | _ \<Rightarrow> None)
   | _ \<Rightarrow> None)"

definition acquire :: "semaphore \<Rightarrow> semError + (nat \<times> semaphore)" where
  "acquire s =
     (if semMax s \<le> semActive s then Inl ConcurrencyLimitError
      else Inr (length (tickets s),
                s\<lparr>semActive := semActive s + 1, tickets := tickets s @ [False]\<rparr>))"

text \<open>On naturals \<open>active - 1\<close> stops at \<open>0\<close>, as \<open>Math.max(0, active - 1)\<close> does.\<close>

definition release :: "nat \<Rightarrow> semaphore \<Rightarrow> semaphore" where
  "release t s =
     (if length (tickets s) \<le> t \<or> tickets s ! t then s
      else s\<lparr>tickets := (tickets s)[t := True], semActive := semActive s - 1\<rparr>)"

definition heldTickets :: "semaphore \<Rightarrow> nat set" where
  "heldTickets s = {t. t < length (tickets s) \<and> \<not> tickets s ! t}"

definition semInv :: "semaphore \<Rightarrow> bool" where
  "semInv s \<longleftrightarrow> semActive s = card (heldTickets s) \<and> semActive s \<le> semMax s"

section \<open>The interface: a bounded set of held tickets\<close>

locale limiter =
  fixes acq :: "'s \<Rightarrow> 'e + ('t \<times> 's)"
    and rel :: "'t \<Rightarrow> 's \<Rightarrow> 's"
    and held :: "'s \<Rightarrow> 't set"
    and capacity :: "'s \<Rightarrow> nat"
    and inv :: "'s \<Rightarrow> bool"
  assumes held_bound: "inv s \<Longrightarrow> finite (held s) \<and> card (held s) \<le> capacity s"
    and acq_full: "inv s \<Longrightarrow> (\<exists>e. acq s = Inl e) \<longleftrightarrow> capacity s \<le> card (held s)"
    and acq_ok: "inv s \<Longrightarrow> acq s = Inr (t, s') \<Longrightarrow>
      t \<notin> held s \<and> held s' = insert t (held s) \<and> capacity s' = capacity s \<and> inv s'"
    and rel_ok: "inv s \<Longrightarrow> held (rel t s) = held s - {t} \<and> capacity (rel t s) = capacity s \<and> inv (rel t s)"
begin

lemma acq_free: "inv s \<Longrightarrow> card (held s) < capacity s \<Longrightarrow> \<exists>t s'. acq s = Inr (t, s')"
  using acq_full [of s] by (cases "acq s") auto

lemma rel_idem: "inv s \<Longrightarrow> held (rel t (rel t s)) = held (rel t s)"
  using rel_ok [of s t] rel_ok [of "rel t s" t] by auto

lemma acq_rel: "inv s \<Longrightarrow> acq s = Inr (t, s') \<Longrightarrow> held (rel t s') = held s"
  using acq_ok [of s t s'] rel_ok [of s' t] by auto

text \<open>Any sequence of releases only shrinks the held set.\<close>

lemma rel_many:
  "inv s \<Longrightarrow> inv (fold rel ts s) \<and> held (fold rel ts s) = held s - set ts
     \<and> capacity (fold rel ts s) = capacity s"
proof (induction ts arbitrary: s)
  case (Cons t ts)
  have "inv (rel t s)" using rel_ok [OF Cons.prems] by simp
  from Cons.IH [OF this] rel_ok [OF Cons.prems, of t] show ?case by auto
qed simp

text \<open>After releasing everything a full limiter admits a request again.\<close>

lemma rel_all_admits:
  assumes "inv s" "0 < capacity s" "held s \<subseteq> set ts"
  shows "\<exists>t s'. acq (fold rel ts s) = Inr (t, s')"
proof -
  have "held s - set ts = {}" using assms(3) by blast
  with rel_many [OF assms(1), of ts] assms(2)
  have "inv (fold rel ts s)" "card (held (fold rel ts s)) < capacity (fold rel ts s)" by simp_all
  then show ?thesis by (rule acq_free)
qed

end

lemma finite_held [simp]: "finite (heldTickets s)"
  by (simp add: heldTickets_def)

lemma held_acquire: "heldTickets (s\<lparr>semActive := n, tickets := tickets s @ [False]\<rparr>) =
    insert (length (tickets s)) (heldTickets s)"
  by (auto simp: heldTickets_def nth_append)

lemma held_release: "heldTickets (release t s) = heldTickets s - {t}"
  by (auto simp: heldTickets_def release_def nth_list_update)

lemma release_max [simp]: "semMax (release t s) = semMax s"
  by (simp add: release_def)

lemma semInv_release: "semInv s \<Longrightarrow> semInv (release t s)"
proof (cases "t \<in> heldTickets s")
  case True
  assume inv: "semInv s"
  have "semActive (release t s) = semActive s - 1"
    using True by (simp add: release_def heldTickets_def)
  with inv True show ?thesis by (auto simp: semInv_def held_release)
next
  case False
  assume inv: "semInv s"
  have "release t s = s" using False by (auto simp: release_def heldTickets_def)
  with inv show ?thesis by simp
qed

lemma semInv_acquire:
  "semInv s \<Longrightarrow> acquire s = Inr (t, s') \<Longrightarrow>
   t \<notin> heldTickets s \<and> heldTickets s' = insert t (heldTickets s) \<and> semMax s' = semMax s \<and> semInv s'"
proof -
  assume inv: "semInv s" and a: "acquire s = Inr (t, s')"
  have t: "t = length (tickets s)" and lt: "semActive s < semMax s"
    and s': "s' = s\<lparr>semActive := semActive s + 1, tickets := tickets s @ [False]\<rparr>"
    using a by (auto simp: acquire_def split: if_splits)
  have "t \<notin> heldTickets s" by (simp add: t heldTickets_def)
  with inv lt show ?thesis by (simp add: s' t held_acquire semInv_def)
qed

interpretation sem: limiter acquire release heldTickets semMax semInv
proof (unfold_locales, goal_cases)
  case (1 s)
  then show ?case by (simp add: semInv_def)
next
  case (2 s)
  then show ?case by (auto simp: acquire_def semInv_def)
next
  case (3 s t s')
  then show ?case by (rule semInv_acquire)
next
  case (4 s t)
  then show ?case by (simp add: held_release semInv_release)
qed

lemma createSemaphore_inv: "createSemaphore m = Some s \<Longrightarrow> semInv s \<and> 0 < semMax s \<and> semActive s = 0"
  by (auto simp: createSemaphore_def semInv_def heldTickets_def isInteger_def
      split: jsprim.splits jsnum.splits if_splits)

section \<open>Runs\<close>

datatype semOp = Acquire | Release nat

fun semStep :: "semaphore \<Rightarrow> semOp \<Rightarrow> semaphore" where
  "semStep s Acquire = (case acquire s of Inl _ \<Rightarrow> s | Inr (_, s') \<Rightarrow> s')"
| "semStep s (Release t) = release t s"

definition semRun :: "semaphore \<Rightarrow> semOp list \<Rightarrow> semaphore" where
  "semRun s ops = foldl semStep s ops"

lemma semStep_inv: "semInv s \<Longrightarrow> semInv (semStep s op) \<and> semMax (semStep s op) = semMax s"
  by (cases op) (auto simp: semInv_release split: sum.splits dest: semInv_acquire)

lemma semRun_inv: "semInv s \<Longrightarrow> semInv (semRun s ops) \<and> semMax (semRun s ops) = semMax s"
proof (induction ops rule: rev_induct)
  case (snoc op ops)
  then show ?case using semStep_inv [of "semRun s ops" op] by (simp add: semRun_def)
qed (simp add: semRun_def)

section \<open>Properties\<close>

text \<open>In every run of acquires and releases, releases repeated or of unknown tickets included,
  the active count equals the number of tickets held and never passes the maximum.\<close>

theorem semaphore_bounded:
  assumes "createSemaphore m = Some s"
  shows "semActive (semRun s ops) = card (heldTickets (semRun s ops))
    \<and> semActive (semRun s ops) \<le> semMax s"
proof -
  have "semInv (semRun s ops) \<and> semMax (semRun s ops) = semMax s"
    using createSemaphore_inv [OF assms] by (intro semRun_inv) simp
  then show ?thesis by (auto simp: semInv_def)
qed

theorem semaphore_bounded_witness:
  "let s = \<lparr>semMax = 2, semActive = 0, tickets = []\<rparr>;
       s' = semRun s [Acquire, Acquire, Acquire, Release 0, Release 0, Release 7]
   in createSemaphore (Num (Fin 2)) = Some s \<and> semActive s' = 1 \<and> semActive s' = card (heldTickets s')"
proof -
  have c: "createSemaphore (Num (Fin 2)) = Some \<lparr>semMax = 2, semActive = 0, tickets = []\<rparr>"
    by (simp add: createSemaphore_def isInteger_def)
  have "semActive (semRun \<lparr>semMax = 2, semActive = 0, tickets = []\<rparr>
      [Acquire, Acquire, Acquire, Release 0, Release 0, Release 7]) = 1"
    by (simp add: semRun_def acquire_def release_def)
  with c semaphore_bounded [OF c, of "[Acquire, Acquire, Acquire, Release 0, Release 0, Release 7]"]
  show ?thesis by (simp add: Let_def)
qed

text \<open>No slot leaks: after any run, releasing every ticket (each any number of times) makes
  room for a new request.\<close>

theorem semaphore_recovers:
  assumes "createSemaphore m = Some s" "heldTickets (semRun s ops) \<subseteq> set ts"
  shows "\<exists>t s'. acquire (fold release ts (semRun s ops)) = Inr (t, s')"
proof -
  have "semInv (semRun s ops) \<and> semMax (semRun s ops) = semMax s"
    using createSemaphore_inv [OF assms(1)] by (intro semRun_inv) simp
  then show ?thesis
    using createSemaphore_inv [OF assms(1)] assms(2) by (intro sem.rel_all_admits) simp_all
qed

theorem semaphore_recovers_witness:
  "\<exists>t s'. acquire (fold release [0, 0] (semRun \<lparr>semMax = 1, semActive = 0, tickets = []\<rparr> [Acquire, Acquire])) = Inr (t, s')"
proof (rule semaphore_recovers [of "Num (Fin 1)"])
  show "createSemaphore (Num (Fin 1)) = Some \<lparr>semMax = 1, semActive = 0, tickets = []\<rparr>"
    by (simp add: createSemaphore_def isInteger_def)
  show "heldTickets (semRun \<lparr>semMax = 1, semActive = 0, tickets = []\<rparr> [Acquire, Acquire]) \<subseteq> set [0, 0]"
    by (auto simp: semRun_def acquire_def heldTickets_def)
qed

end
