(* ===== verification/Metrics.thy ===== *)
theory Metrics
  imports JsNumber
begin

text \<open>
  \<open>metrics.js\<close>. The counter and the histogram belong to the third-party \<open>prom-client\<close>: the model
  takes the two calls \<open>labels(..).inc()\<close> and \<open>labels(..).observe(x)\<close> as arguments (\<open>None\<close> is a
  call that throws) and keeps what \<open>recordDownload\<close> itself does: the label values, the order of
  the two calls and the swallowed exceptions.
\<close>

record metricLabels =
  mStatus :: string
  mTier :: string
  mError :: string

text \<open>\<open>tier == null ? 'none' : String(tier)\<close>; the tiers are the numbers 1 and 2.\<close>

definition tierLabel :: "nat option \<Rightarrow> string" where
  "tierLabel t = (case t of None \<Rightarrow> ''none'' | Some n \<Rightarrow> showNat n)"

definition errorLabel :: "string option \<Rightarrow> string" where
  "errorLabel e = (case e of None \<Rightarrow> ''none'' | Some c \<Rightarrow> c)"

definition recordDownload ::
  "('m \<Rightarrow> metricLabels \<Rightarrow> 'm option) \<Rightarrow> ('m \<Rightarrow> string \<Rightarrow> rat \<Rightarrow> 'm option) \<Rightarrow>
   string \<Rightarrow> nat option \<Rightarrow> string option \<Rightarrow> rat \<Rightarrow> rat \<Rightarrow> 'm \<Rightarrow> 'm" where
  "recordDownload inc obs status tier error startMs nowMs m =
     (case inc m \<lparr>mStatus = status, mTier = tierLabel tier, mError = errorLabel error\<rparr> of
        None \<Rightarrow> m
      | Some m1 \<Rightarrow>
          (case obs m1 status ((nowMs - startMs) / 1000) of None \<Rightarrow> m1 | Some m2 \<Rightarrow> m2))"

end
