(* ===== verification/Validate.thy ===== *)
theory Validate
  imports JsNumber
begin

unbundle bit_operations_syntax

text \<open>
  \<open>validate.js\<close> but for the output directory (theory \<open>Paths\<close>): the private-address test, the
  URL guard against request forgery, timeouts and file extensions. The URL parser
  (\<open>new URL\<close>) and the name resolver are arguments.
\<close>

section \<open>Private addresses\<close>

definition VIDEO_EXTS :: "string list" where
  "VIDEO_EXTS = [''mp4'', ''webm'', ''ts'', ''m4v'', ''m4s'']"

text \<open>\<open>(g >> 8) & 0xff\<close> and \<open>g & 0xff\<close> on the 32-bit conversion of \<open>g\<close>.\<close>

definition highByte :: "jsnum \<Rightarrow> nat" where
  "highByte g = unat (signed_drop_bit 8 (toInt32 g) AND 255)"

definition lowByte :: "jsnum \<Rightarrow> nat" where
  "lowByte g = unat (toInt32 g AND 255)"

definition mappedPrefix :: string where
  "mappedPrefix = ''::ffff:''"

definition dotted :: "nat \<Rightarrow> nat \<Rightarrow> nat \<Rightarrow> nat \<Rightarrow> string" where
  "dotted a b c d = showNat a @ ''.'' @ showNat b @ ''.'' @ showNat c @ ''.'' @ showNat d"

definition ipv4FromMapped :: "string \<Rightarrow> string option" where
  "ipv4FromMapped h =
     (if \<not> startsWith h mappedPrefix then None
      else let rest = drop (length mappedPrefix) h in
        if strIncludes rest ''.'' then Some rest
        else let groups = splitOn CHR '':'' rest in
          if length groups = 2 then
            (let g1 = parseInt 16 (groups ! 0); g2 = parseInt 16 (groups ! 1) in
             if g1 = NaN \<or> g2 = NaN then None
             else Some (dotted (highByte g1) (lowByte g1) (highByte g2) (lowByte g2)))
          else None)"

text \<open>The decisions of \<open>isPrivateIp\<close> on the first two parts of a four-part name.\<close>

definition privateOctets :: "jsnum \<Rightarrow> jsnum \<Rightarrow> bool" where
  "privateOctets a b \<longleftrightarrow>
     (let is = (\<lambda>x k. numEq x (ofInt k)) in
      if a = NaN \<or> b = NaN then False
      else if is a 127 \<or> is a 10 \<or> is a 0 then True
      else if is a 192 \<and> is b 168 then True
      else if is a 169 \<and> is b 254 then True
      else if is a 172 \<and> ofInt 16 \<le> b \<and> b \<le> ofInt 31 then True
      else if is a 100 \<and> ofInt 64 \<le> b \<and> b \<le> ofInt 127 then True
      else if is a 192 \<and> is b 0 then True
      else if is a 198 \<and> (is b 18 \<or> is b 19) then True
      else if ofInt 224 \<le> a then True
      else False)"

definition privateV4 :: "string \<Rightarrow> bool" where
  "privateV4 value = (let parts = splitOn CHR ''.'' value in
     if length parts \<noteq> 4 then False
     else privateOctets (stringToNumber (parts ! 0)) (stringToNumber (parts ! 1)))"

definition unbracket :: "string \<Rightarrow> string" where
  "unbracket v = (if startsWith v ''['' \<and> endsWith v '']'' then take (length v - 2) (drop 1 v) else v)"

definition colons :: "string \<Rightarrow> nat" where
  "colons s = length (filter (\<lambda>c. c = CHR '':'') s)"

lemma colons_append [simp]: "colons (s @ t) = colons s + colons t"
  by (simp add: colons_def)

lemma colons_take_drop: "colons (take n (drop m s)) \<le> colons s"
proof -
  have "colons (take n (drop m s)) \<le> colons (drop m s)"
    by (metis append_take_drop_id colons_append le_add1)
  also have "\<dots> \<le> colons s" by (metis append_take_drop_id colons_append le_add2)
  finally show ?thesis .
qed

lemma lowerChar_colon: "lowerChar c = CHR '':'' \<longleftrightarrow> c = CHR '':''"
proof
  assume l: "lowerChar c = CHR '':''"
  have "code (lowerChar c) = 58" by (simp add: l code_def)
  then have "code c = code CHR '':''"
    by (auto simp: lowerChar_def Let_def code_def [of "CHR '':''"] split: if_splits)
  then show "c = CHR '':''" by simp
next
  assume "c = CHR '':''"
  then show "lowerChar c = CHR '':''" by (simp add: lowerChar_def Let_def code_def)
qed

lemma colons_toLower [simp]: "colons (toLower s) = colons s"
  by (induction s) (auto simp: colons_def toLower_def lowerChar_colon)

lemma colons_showRadix: "r = 10 \<Longrightarrow> colons (showRadix r n) = 0"
  using showNat_digits [of n] radixDigit_not(7) [of 10]
  by (auto simp: colons_def filter_empty_conv)

lemma colons_dotted [simp]: "colons (dotted a b c d) = 0"
proof -
  have "colons ''.'' = 0" by (simp add: colons_def)
  then show ?thesis by (simp add: dotted_def colons_showRadix del: append.simps)
qed

lemma colons_ipv4FromMapped: "ipv4FromMapped h = Some w \<Longrightarrow> colons w < colons h"
proof -
  assume m: "ipv4FromMapped h = Some w"
  then have sw: "startsWith h mappedPrefix" by (auto simp: ipv4FromMapped_def split: if_splits)
  then obtain rest where h: "h = mappedPrefix @ rest" by (rule startsWithE)
  have p: "colons mappedPrefix = 3" by (simp add: colons_def mappedPrefix_def)
  have "w = rest \<or> (\<exists>a b c d. w = dotted a b c d)"
    using m by (auto simp: ipv4FromMapped_def h Let_def split: if_splits)
  then show ?thesis
  proof
    assume "w = rest"
    then show ?thesis by (simp add: h p)
  next
    assume "\<exists>a b c d. w = dotted a b c d"
    then have "colons w = 0" by (auto simp del: colons_append)
    then show ?thesis by (simp add: h p)
  qed
qed

text \<open>
  \<open>isPrivateIp\<close> on a string: the recursive call is on an embedded IPv4 text, which holds fewer
  colons.
\<close>

function isPrivateIpStr :: "string \<Rightarrow> bool" where
  "isPrivateIpStr value =
     (if value = [] then False
      else let v = unbracket value in
        if strIncludes v '':'' then
          (let h = toLower v in
           if h = ''::1'' \<or> h = ''::'' then True
           else if startsWith h ''fe80:'' then True
           else if startsWith h ''fc'' \<or> startsWith h ''fd'' then True
           else case ipv4FromMapped h of
               Some ipv4 \<Rightarrow> if ipv4 \<noteq> [] then isPrivateIpStr ipv4 else False
             | None \<Rightarrow> False)
        else privateV4 value)"
  by pat_completeness auto
termination
proof (relation "measure colons", goal_cases)
  case 1
  then show ?case by simp
next
  case (2 raw v h ipv4)
  then have "colons ipv4 < colons (unbracket raw)"
    using colons_ipv4FromMapped [of "toLower (unbracket raw)" ipv4] by simp
  also have "\<dots> \<le> colons raw" by (simp add: unbracket_def colons_take_drop)
  finally show ?case by simp
qed

declare isPrivateIpStr.simps [simp del]

definition isPrivateIp :: "jsprim \<Rightarrow> bool" where
  "isPrivateIp value = (case value of Str s \<Rightarrow> isPrivateIpStr s | _ \<Rightarrow> False)"

section \<open>The URL guard\<close>

record url =
  protocol :: string
  hostname :: string
  pathname :: string
  href :: string

type_synonym urlParser = "string \<Rightarrow> url option"

datatype dnsEntry = EStr string | EAddr string
datatype dnsAnswer = DnsList "dnsEntry list" | DnsOne dnsEntry

type_synonym resolver = "string \<Rightarrow> dnsAnswer option"

fun entryAddr :: "dnsEntry \<Rightarrow> string" where
  "entryAddr (EStr s) = s"
| "entryAddr (EAddr s) = s"

fun answerList :: "dnsAnswer \<Rightarrow> dnsEntry list" where
  "answerList (DnsList es) = es"
| "answerList (DnsOne e) = [e]"

text \<open>The loop over the resolved addresses: the first private one is reported.\<close>

fun checkAddrs :: "dnsEntry list \<Rightarrow> string + unit" where
  "checkAddrs [] = Inr ()"
| "checkAddrs (e # es) =
     (if isPrivateIpStr (entryAddr e)
      then Inl (''host resolves to private/link-local address: '' @ entryAddr e)
      else checkAddrs es)"

definition validateUrl :: "urlParser \<Rightarrow> resolver \<Rightarrow> jsprim \<Rightarrow> string + url" where
  "validateUrl parse lookup raw = (case raw of
     Str s \<Rightarrow>
       if s = [] then Inl ''url must be a non-empty string''
       else (case parse s of
         None \<Rightarrow> Inl ''url is not a valid URL''
       | Some u \<Rightarrow>
           if protocol u \<noteq> ''http:'' \<and> protocol u \<noteq> ''https:''
           then Inl (''url scheme not allowed: '' @ protocol u)
           else if isPrivateIpStr (hostname u)
           then Inl (''private/link-local host blocked: '' @ hostname u)
           else (case lookup (hostname u) of
             None \<Rightarrow> Inl (''host could not be resolved: '' @ hostname u)
           | Some ans \<Rightarrow> bindR (checkAddrs (answerList ans)) (\<lambda>_. Inr u)))
   | _ \<Rightarrow> Inl ''url must be a non-empty string'')"

section \<open>Timeouts\<close>

definition parseTimeout :: "jsprim \<Rightarrow> jsnum \<Rightarrow> jsnum" where
  "parseTimeout value defaultMs = (let n = toNumber value in
     if \<not> (isInteger n \<and> Fin 0 < n) then defaultMs else n)"

section \<open>Extensions\<close>

definition CONTENT_TYPE_EXT :: "(string \<times> string) list" where
  "CONTENT_TYPE_EXT =
     [(''video/mp4'', ''mp4''), (''video/webm'', ''webm''), (''video/mp2t'', ''ts''),
      (''video/x-m4v'', ''m4v''), (''video/x-mpegurl'', ''m3u8''),
      (''application/vnd.apple.mpegurl'', ''m3u8''), (''application/x-mpegurl'', ''m3u8''),
      (''application/dash+xml'', ''mpd'')]"

text \<open>
  \<open>CONTENT_TYPE_EXT[ct]\<close> also finds the properties every object inherits; such a value is not a
  string and is kept apart (\<open>ExtInherited\<close> with the property's name).
\<close>

definition objectPrototypeKeys :: "string list" where
  "objectPrototypeKeys =
     [''constructor'', ''__defineGetter__'', ''__defineSetter__'', ''hasOwnProperty'',
      ''__lookupGetter__'', ''__lookupSetter__'', ''isPrototypeOf'', ''propertyIsEnumerable'',
      ''toString'', ''valueOf'', ''__proto__'', ''toLocaleString'']"

datatype extval = ExtString string | ExtInherited string

definition contentTypeLookup :: "string \<Rightarrow> extval option" where
  "contentTypeLookup ct = (case map_of CONTENT_TYPE_EXT ct of
     Some e \<Rightarrow> Some (ExtString e)
   | None \<Rightarrow> if ct \<in> set objectPrototypeKeys then Some (ExtInherited ct) else None)"

definition lastPart :: "string \<Rightarrow> string" where
  "lastPart s = last (splitOn CHR ''.'' s)"

definition extOfPath :: "string \<Rightarrow> string option" where
  "extOfPath p = (let ext = lastPart p in
     if ext \<noteq> [] \<and> ext \<noteq> p \<and> toLower ext \<in> set VIDEO_EXTS then Some (toLower ext) else None)"

definition mediaType :: "string \<Rightarrow> string" where
  "mediaType ct = trim (hd (splitOn CHR '';'' (toLower ct)))"

definition pickExtension :: "urlParser \<Rightarrow> jsprim \<Rightarrow> jsprim \<Rightarrow> extval" where
  "pickExtension parse urlOrPath contentType =
     (let byUrl = (case urlOrPath of
            Str s \<Rightarrow> (case parse s of
                Some u \<Rightarrow> extOfPath (pathname u)
              | None \<Rightarrow> extOfPath s)
          | _ \<Rightarrow> None);
          fallback = ExtString (case byUrl of Some e \<Rightarrow> e | None \<Rightarrow> ''mp4'')
      in case contentType of
          Str c \<Rightarrow> (case contentTypeLookup (mediaType c) of
              Some mapped \<Rightarrow>
                if mapped = ExtString ''m3u8'' \<or> mapped = ExtString ''mpd'' then ExtString ''mp4''
                else mapped
            | None \<Rightarrow> fallback)
        | _ \<Rightarrow> fallback)"

definition safeExt :: "extval \<Rightarrow> string" where
  "safeExt e = (case e of
     ExtString s \<Rightarrow> if toLower s \<in> set VIDEO_EXTS then toLower s else ''mp4''
   | ExtInherited _ \<Rightarrow> ''mp4'')"

section \<open>Facts: addresses\<close>

lemma strIncludes_single: "strIncludes s [c] \<longleftrightarrow> c \<in> set s"
  by (auto simp: strIncludes_iff in_set_conv_decomp)

lemma dot_notin_showNat [simp]: "CHR ''.'' \<notin> set (showNat n)" "CHR '':'' \<notin> set (showNat n)"
  using showNat_digits [of n] radixDigit_not(6,7) [of 10] by auto

lemma dot_notin_showHex [simp]: "CHR ''.'' \<notin> set (showHex n)" "CHR '':'' \<notin> set (showHex n)"
  using showRadix_digits [of 16 _ n] radixDigit_not(6,7) [of 16] by auto

lemma splitOn_dotted:
  "splitOn CHR ''.'' (dotted a b c d) = [showNat a, showNat b, showNat c, showNat d]"
  by (simp add: dotted_def splitOn_append splitOn_no_sep)

lemma privateOctets_nat:
  "privateOctets (Fin (of_nat a)) (Fin (of_nat b)) \<longleftrightarrow>
     a = 127 \<or> a = 10 \<or> a = 0 \<or> (a = 192 \<and> b = 168) \<or> (a = 169 \<and> b = 254)
     \<or> (a = 172 \<and> 16 \<le> b \<and> b \<le> 31) \<or> (a = 100 \<and> 64 \<le> b \<and> b \<le> 127)
     \<or> (a = 192 \<and> b = 0) \<or> (a = 198 \<and> (b = 18 \<or> b = 19)) \<or> 224 \<le> a"
proof -
  have eq: "(of_nat x :: rat) = numeral k \<longleftrightarrow> x = numeral k" for x k
    by (metis of_nat_eq_iff of_nat_numeral)
  have le: "numeral k \<le> (of_nat x :: rat) \<longleftrightarrow> numeral k \<le> x"
    "(of_nat x :: rat) \<le> numeral k \<longleftrightarrow> x \<le> numeral k" for x k
    by (metis of_nat_le_iff of_nat_numeral)+
  show ?thesis
    by (simp add: privateOctets_def Let_def numEq_def ofInt_def eq le)
qed

lemma stringToNumber_octet: "a < 256 \<Longrightarrow> stringToNumber (showNat a) = Fin (of_nat a)"
  by (rule stringToNumber_showNat) simp

lemma privateV4_dotted:
  "a < 256 \<Longrightarrow> b < 256 \<Longrightarrow>
   privateV4 (dotted a b c d) \<longleftrightarrow> privateOctets (Fin (of_nat a)) (Fin (of_nat b))"
  by (simp add: privateV4_def splitOn_dotted stringToNumber_octet)

lemma unbracket_id: "\<not> startsWith s ''['' \<Longrightarrow> unbracket s = s"
  by (simp add: unbracket_def)

lemma not_startsWith_hd: "s \<noteq> [] \<Longrightarrow> hd s \<noteq> c \<Longrightarrow> \<not> startsWith s (c # r)"
  by (cases s) auto

lemma hd_showNat: "isDigit (hd (showNat n))"
  using showNat_digits [of n] by (metis hd_in_set showRadix_neq_Nil)

lemma dotted_neq_Nil [simp]: "dotted a b c d \<noteq> []"
  by (simp add: dotted_def)

lemma colon_notin_dotted: "CHR '':'' \<notin> set (dotted a b c d)"
  by (simp add: dotted_def)

lemma isPrivateIpStr_dotted: "isPrivateIpStr (dotted a b c d) = privateV4 (dotted a b c d)"
proof -
  have "hd (dotted a b c d) = hd (showNat a)" by (simp add: dotted_def)
  moreover have "hd (showNat a) \<noteq> CHR ''[''"
    using hd_showNat [of a] radixDigit_not(11) [of 10] by auto
  ultimately have "unbracket (dotted a b c d) = dotted a b c d"
    by (intro unbracket_id not_startsWith_hd) simp_all
  then show ?thesis
    by (subst isPrivateIpStr.simps) (simp add: strIncludes_single colon_notin_dotted)
qed

subsection \<open>The blocked networks\<close>

definition ip4 :: "nat \<Rightarrow> nat \<Rightarrow> nat \<Rightarrow> nat \<Rightarrow> 32 word" where
  "ip4 a b c d = of_nat (a * 16777216 + b * 65536 + c * 256 + d)"

definition inBlock :: "32 word \<Rightarrow> 32 word \<times> nat \<Rightarrow> bool" where
  "inBlock w blk = (case blk of (net, len) \<Rightarrow> drop_bit (32 - len) w = drop_bit (32 - len) net)"

definition blockedNets :: "(32 word \<times> nat) list" where
  "blockedNets =
     [(ip4 127 0 0 0, 8), (ip4 10 0 0 0, 8), (ip4 0 0 0 0, 8), (ip4 192 168 0 0, 16),
      (ip4 169 254 0 0, 16), (ip4 172 16 0 0, 12), (ip4 100 64 0 0, 10), (ip4 192 0 0 0, 16),
      (ip4 198 18 0 0, 15), (ip4 224 0 0 0, 3)]"

definition blockedAddr :: "32 word \<Rightarrow> bool" where
  "blockedAddr w \<longleftrightarrow> (\<exists>blk\<in>set blockedNets. inBlock w blk)"

lemma drop_bit_eq_iff:
  assumes "m < 2 ^ 32" "n < 2 ^ 32"
  shows "drop_bit k (of_nat m :: 32 word) = drop_bit k (of_nat n) \<longleftrightarrow> m div 2 ^ k = n div 2 ^ k"
proof -
  have "unat (drop_bit k (of_nat x :: 32 word)) = x div 2 ^ k" if "x < 2 ^ 32" for x
  proof -
    have "unat (drop_bit k (of_nat x :: 32 word)) = drop_bit k (unat (of_nat x :: 32 word))"
      by (rule unat_drop_bit_eq)
    also have "unat (of_nat x :: 32 word) = x" using that by (simp add: unat_of_nat take_bit_eq_mod)
    finally show ?thesis by (simp only: drop_bit_eq_div)
  qed
  then show ?thesis using assms by (metis word_unat_eq_iff)
qed

lemma ip4_bound: "a < 256 \<Longrightarrow> b < 256 \<Longrightarrow> c < 256 \<Longrightarrow> d < 256 \<Longrightarrow>
    a * 16777216 + b * 65536 + c * 256 + d < (2::nat) ^ 32"
  by simp

lemma ip4_div:
  fixes a b c d :: nat
  assumes "a < 256" "b < 256" "c < 256" "d < 256"
  shows "(a * 16777216 + b * 65536 + c * 256 + d) div 65536 = a * 256 + b"
  using assms by simp

lemma inBlock_ip4:
  assumes "a < 256" "b < 256" "c < 256" "d < 256" "a' < 256" "b' < 256" "k \<le> 16"
  shows "inBlock (ip4 a b c d) (ip4 a' b' 0 0, 16 - k) \<longleftrightarrow> (a * 256 + b) div 2 ^ k = (a' * 256 + b') div 2 ^ k"
proof -
  let ?n = "a * 16777216 + b * 65536 + c * 256 + d" and ?m = "a' * 16777216 + b' * 65536 + 0 * 256 + 0"
  have k: "32 - (16 - k) = 16 + k" using assms(7) by simp
  have "inBlock (ip4 a b c d) (ip4 a' b' 0 0, 16 - k) \<longleftrightarrow> ?n div 2 ^ (16 + k) = ?m div 2 ^ (16 + k)"
    unfolding inBlock_def ip4_def prod.case k
    using assms by (intro drop_bit_eq_iff ip4_bound) simp_all
  also have "\<dots> \<longleftrightarrow> ?n div 65536 div 2 ^ k = ?m div 65536 div 2 ^ k"
    by (simp only: power_add div_mult2_eq) simp
  also have "\<dots> \<longleftrightarrow> (a * 256 + b) div 2 ^ k = (a' * 256 + b') div 2 ^ k"
    using ip4_div [OF assms(1-4)] ip4_div [of a' b' 0 0] assms by (simp add: mult.commute)
  finally show ?thesis .
qed

lemma div_nat_iff: "0 < k \<Longrightarrow> x div k = n \<longleftrightarrow> k * n \<le> x \<and> x < k * n + k" for k x n :: nat
proof -
  assume k: "0 < k"
  have "x div k = n \<longleftrightarrow> n \<le> x div k \<and> x div k < n + 1" by auto
  also have "\<dots> \<longleftrightarrow> n * k \<le> x \<and> x < (n + 1) * k"
    using k by (simp only: less_eq_div_iff_mult_less_eq div_less_iff_less_mult)
  finally show ?thesis by (simp add: algebra_simps)
qed

lemma octet_pair:
  fixes a b k lo hi :: nat
  assumes "b < 256" "hi \<le> 256"
  shows "k * 256 + lo \<le> a * 256 + b \<and> a * 256 + b < k * 256 + hi \<longleftrightarrow> a = k \<and> lo \<le> b \<and> b < hi"
proof (cases a k rule: linorder_cases)
  case less
  then have "a + 1 \<le> k" by simp
  then have "a * 256 + 256 \<le> k * 256" by linarith
  with assms less show ?thesis by linarith
next
  case equal
  then show ?thesis by simp
next
  case greater
  then have "k + 1 \<le> a" by simp
  then have "k * 256 + 256 \<le> a * 256" by linarith
  with assms greater show ?thesis by linarith
qed

text \<open>The first two octets decide membership in every blocked network.\<close>

lemma blockedAddr_ip4:
  assumes "a < 256" "b < 256" "c < 256" "d < 256"
  shows "blockedAddr (ip4 a b c d) \<longleftrightarrow> privateOctets (Fin (of_nat a)) (Fin (of_nat b))"
proof -
  note ib = inBlock_ip4 [OF assms]
  have b8: "inBlock (ip4 a b c d) (ip4 a' 0 0 0, 8) \<longleftrightarrow> a = a'" if "a' < 256" for a'
    using ib [of a' 0 8] that assms by simp
  have b16: "inBlock (ip4 a b c d) (ip4 a' b' 0 0, 16) \<longleftrightarrow> a = a' \<and> b = b'" if "a' < 256" "b' < 256" for a' b'
  proof -
    have "a * 256 + b = a' * 256 + b' \<Longrightarrow> a = a'"
    proof -
      assume "a * 256 + b = a' * 256 + b'"
      then have "(a * 256 + b) div 256 = (a' * 256 + b') div 256" by simp
      then show "a = a'" using that assms by simp
    qed
    then show ?thesis using ib [of a' b' 0] that by auto
  qed
  have b12: "inBlock (ip4 a b c d) (ip4 172 16 0 0, 12) \<longleftrightarrow> a = 172 \<and> 16 \<le> b \<and> b \<le> 31"
    using ib [of 172 16 4] octet_pair [of b 32 172 16 a] assms by (simp add: div_nat_iff) linarith
  have b10: "inBlock (ip4 a b c d) (ip4 100 64 0 0, 10) \<longleftrightarrow> a = 100 \<and> 64 \<le> b \<and> b \<le> 127"
    using ib [of 100 64 6] octet_pair [of b 128 100 64 a] assms by (simp add: div_nat_iff) linarith
  have b15: "inBlock (ip4 a b c d) (ip4 198 18 0 0, 15) \<longleftrightarrow> a = 198 \<and> (b = 18 \<or> b = 19)"
    using ib [of 198 18 1] octet_pair [of b 20 198 18 a] assms by (simp add: div_nat_iff) linarith
  have b3: "inBlock (ip4 a b c d) (ip4 224 0 0 0, 3) \<longleftrightarrow> 224 \<le> a"
  proof -
    have "57344 \<le> a * 256 + b \<longleftrightarrow> 224 \<le> a" using assms(2) by linarith
    moreover have "a * 256 + b < 65536" using assms by simp
    ultimately show ?thesis using ib [of 224 0 13] assms by (simp add: div_nat_iff)
  qed
  show ?thesis
    unfolding privateOctets_nat blockedAddr_def blockedNets_def
    by (auto simp: b8 b16 b12 b10 b15 b3)
qed

subsection \<open>IPv4-mapped IPv6 addresses\<close>

lemma toInt32_of_nat: "toInt32 (Fin (of_nat g)) = of_nat g"
  by (simp add: toInt32_def)

lemma bytes_of_nat:
  assumes "g < 65536"
  shows "highByte (Fin (of_nat g)) = g div 256" "lowByte (Fin (of_nat g)) = g mod 256"
proof -
  have "sint (of_nat g :: 32 word) = signed_take_bit 31 (int g)"
    by (simp add: signed_of_nat)
  also have "\<dots> = int g" using assms by (intro signed_take_bit_int_eq_self) simp_all
  finally have "sint (signed_drop_bit 8 (of_nat g :: 32 word)) = int (g div 256)"
    by (simp add: sint_signed_drop_bit_eq drop_bit_eq_div zdiv_int)
  moreover have "sint (of_nat (g div 256) :: 32 word) = int (g div 256)"
    using assms by (simp add: signed_of_nat signed_take_bit_int_eq_self)
  ultimately have "signed_drop_bit 8 (of_nat g :: 32 word) = of_nat (g div 256)"
    by (metis signed_word_eqI)
  moreover have "unat ((of_nat n :: 32 word) AND 255) = n mod 256" if "n < 65536" for n
  proof -
    have "(of_nat n :: 32 word) AND 255 = take_bit 8 (of_nat n)"
      by (simp add: take_bit_eq_mask mask_eq_exp_minus_1)
    then have "unat ((of_nat n :: 32 word) AND 255) = take_bit 8 (unat (of_nat n :: 32 word))"
      by (simp add: unsigned_take_bit_eq)
    then show ?thesis using that by (simp add: unat_of_nat take_bit_eq_mod)
  qed
  ultimately show "highByte (Fin (of_nat g)) = g div 256" "lowByte (Fin (of_nat g)) = g mod 256"
    using assms by (simp_all add: highByte_def lowByte_def toInt32_of_nat)
qed

lemma hexDigit_lower: "d < 16 \<Longrightarrow> lowerChar (digitChar d) = digitChar d"
  by (auto simp: digitChar_def lowerChar_def Let_def)

lemma showHex_lower [simp]: "toLower (showHex n) = showHex n"
proof (induction "16 :: nat" n rule: showRadix.induct)
  case (1 n)
  show ?case
  proof (cases "n < 16")
    case True
    then show ?thesis by (subst (1 2) showRadix.simps) (simp add: toLower_def hexDigit_lower)
  next
    case False
    with 1 have "toLower (showHex (n div 16)) = showHex (n div 16)" by simp
    with False show ?thesis by (subst (1 2) showRadix.simps) (simp add: toLower_def hexDigit_lower)
  qed
qed

definition mappedHex :: "nat \<Rightarrow> nat \<Rightarrow> string" where
  "mappedHex g1 g2 = mappedPrefix @ showHex g1 @ '':'' @ showHex g2"

lemma toLower_mapped [simp]: "toLower mappedPrefix = mappedPrefix"
  by (simp add: mappedPrefix_def toLower_def lowerChar_def code_def)

lemma toLower_colon [simp]: "lowerChar CHR '':'' = CHR '':''" "toLower [] = []"
  "toLower (c # s) = lowerChar c # toLower s"
  by (simp_all add: lowerChar_def code_def toLower_def)

lemma toLower_mappedHex: "toLower (mappedHex g1 g2) = mappedHex g1 g2"
  by (simp add: mappedHex_def)

lemma ipv4FromMapped_hex:
  assumes "g1 < 65536" "g2 < 65536"
  shows "ipv4FromMapped (mappedHex g1 g2) =
    Some (dotted (g1 div 256) (g1 mod 256) (g2 div 256) (g2 mod 256))"
  using assms
  by (simp add: ipv4FromMapped_def mappedHex_def strIncludes_single splitOn_append splitOn_no_sep
      parseInt_showRadix bytes_of_nat)

lemma ipv4FromMapped_dotted: "ipv4FromMapped (mappedPrefix @ dotted a b c d) = Some (dotted a b c d)"
  by (simp add: ipv4FromMapped_def strIncludes_single) (simp add: dotted_def)

text \<open>The colon branch on a text with the mapped prefix is the test of the embedded address.\<close>

lemma isPrivateIpStr_mapped:
  assumes lo: "toLower (mappedPrefix @ r) = mappedPrefix @ r"
    and w: "ipv4FromMapped (mappedPrefix @ r) = Some w" "w \<noteq> []"
  shows "isPrivateIpStr (mappedPrefix @ r) = isPrivateIpStr w"
proof -
  have ub: "unbracket (mappedPrefix @ r) = mappedPrefix @ r"
    by (intro unbracket_id) (simp add: mappedPrefix_def)
  have ne: "mappedPrefix @ r \<noteq> []" "strIncludes (mappedPrefix @ r) '':''"
    "mappedPrefix @ r \<noteq> ''::1''" "mappedPrefix @ r \<noteq> ''::''"
    "\<not> startsWith (mappedPrefix @ r) ''fe80:''" "\<not> startsWith (mappedPrefix @ r) ''fc''"
    "\<not> startsWith (mappedPrefix @ r) ''fd''"
    by (simp_all add: mappedPrefix_def strIncludes_single)
  show ?thesis
    by (subst isPrivateIpStr.simps) (simp only: ub lo ne w Let_def if_True if_False simp_thms option.case)
qed

text \<open>The host name of a bracketed IPv6 URL is tested as the address inside the brackets.\<close>

definition bracketed :: "string \<Rightarrow> string" where
  "bracketed s = ''['' @ s @ '']''"

lemma unbracket_bracketed: "unbracket (bracketed s) = s"
  by (simp add: unbracket_def bracketed_def endsWith_def)

lemma isPrivateIpStr_bracketed:
  assumes "strIncludes s '':''" "unbracket s = s"
  shows "isPrivateIpStr (bracketed s) = isPrivateIpStr s"
proof -
  have "s \<noteq> []" using assms(1) by auto
  moreover have "bracketed s \<noteq> []" by (simp add: bracketed_def)
  ultimately show ?thesis
    by (subst (1 2) isPrivateIpStr.simps) (simp only: unbracket_bracketed assms Let_def if_True if_False)
qed

lemma toLower_dotted: "toLower (dotted a b c d) = dotted a b c d"
proof -
  have "lowerChar x = x" if "x \<in> set (dotted a b c d)" for x
  proof -
    have "isDigit x \<or> x = CHR ''.''" using that showNat_digits by (auto simp: dotted_def)
    then have "code x < 65" by (auto simp: isDigit_def code_def)
    then show ?thesis by simp
  qed
  then show ?thesis unfolding toLower_def by (simp add: map_idI)
qed

lemma unbracket_mapped: "unbracket (mappedPrefix @ r) = mappedPrefix @ r"
  by (intro unbracket_id) (simp add: mappedPrefix_def)

lemma colon_mapped: "strIncludes (mappedPrefix @ r) '':''"
  by (simp add: mappedPrefix_def strIncludes_single)

lemma isPrivateIpStr_mappedHex:
  assumes "a < 256" "b < 256" "c < 256" "d < 256"
  shows "isPrivateIpStr (mappedHex (256 * a + b) (256 * c + d)) = isPrivateIpStr (dotted a b c d)"
proof -
  have "ipv4FromMapped (mappedHex (256 * a + b) (256 * c + d)) = Some (dotted a b c d)"
    using ipv4FromMapped_hex [of "256 * a + b" "256 * c + d"] assms by simp
  then show ?thesis
    using isPrivateIpStr_mapped [of "showHex (256 * a + b) @ '':'' @ showHex (256 * c + d)"]
    by (simp add: mappedHex_def del: append.simps)
qed

section \<open>Facts: the URL guard\<close>

lemma checkAddrs_ok: "checkAddrs es = Inr u \<longleftrightarrow> (\<forall>e\<in>set es. \<not> isPrivateIpStr (entryAddr e))"
  by (induction es) auto

lemma checkAddrs_err:
  "checkAddrs es = Inl m \<Longrightarrow>
   \<exists>e\<in>set es. isPrivateIpStr (entryAddr e) \<and>
     m = ''host resolves to private/link-local address: '' @ entryAddr e"
  by (induction es) (auto split: if_splits)

definition publicUrl :: "resolver \<Rightarrow> url \<Rightarrow> bool" where
  "publicUrl lookup u \<longleftrightarrow>
     (protocol u = ''http:'' \<or> protocol u = ''https:'')
   \<and> \<not> isPrivateIpStr (hostname u)
   \<and> (\<exists>ans. lookup (hostname u) = Some ans
        \<and> (\<forall>e\<in>set (answerList ans). \<not> isPrivateIpStr (entryAddr e)))"

lemma validateUrl_Inr:
  "validateUrl parse lookup raw = Inr u \<longleftrightarrow>
     (\<exists>s. raw = Str s \<and> s \<noteq> [] \<and> parse s = Some u \<and> publicUrl lookup u)"
  by (auto simp: validateUrl_def publicUrl_def result_simps checkAddrs_ok
      split: jsprim.splits option.splits if_splits)

text \<open>
  The interface the network clients use: a check on a raw URL text whose acceptance means that
  the parsed URL is safe to contact.
\<close>

locale url_guard =
  fixes guard :: "string \<Rightarrow> 'e + url"
    and parse :: urlParser
    and safe :: "url \<Rightarrow> bool"
  assumes guard_parse: "guard s = Inr u \<Longrightarrow> parse s = Some u"
    and guard_safe: "guard s = Inr u \<Longrightarrow> safe u"
begin

lemma guard_Inr: "guard s = Inr u \<Longrightarrow> \<exists>v. parse s = Some v \<and> safe v"
  using guard_parse guard_safe by blast

text \<open>Every element of a list that passed the guard one by one is safe.\<close>

lemma all_guarded_safe:
  "list_all (\<lambda>s. isOk (guard s)) ss \<Longrightarrow> s \<in> set ss \<Longrightarrow> \<exists>v. parse s = Some v \<and> safe v"
  by (auto simp: list_all_iff isOk_iff dest: guard_Inr)

end

abbreviation guardStr :: "urlParser \<Rightarrow> resolver \<Rightarrow> string \<Rightarrow> string + url" where
  "guardStr parse lookup s \<equiv> validateUrl parse lookup (Str s)"

interpretation vurl: url_guard "guardStr parse lookup" parse "publicUrl lookup" for parse lookup
  by unfold_locales (auto simp: validateUrl_Inr)

section \<open>Facts: timeouts and extensions\<close>

lemma parseTimeout_positive:
  "isInteger d \<Longrightarrow> Fin 0 < d \<Longrightarrow> isInteger (parseTimeout v d) \<and> Fin 0 < parseTimeout v d"
  by (auto simp: parseTimeout_def Let_def)

lemma mp4_ext [simp]: "''mp4'' \<in> set VIDEO_EXTS"
  by (simp add: VIDEO_EXTS_def)

lemma safeExt_whitelisted: "safeExt e \<in> set VIDEO_EXTS"
  by (auto simp: safeExt_def split: extval.splits)

lemma extOfPath_whitelisted: "extOfPath p = Some e \<Longrightarrow> e \<in> set VIDEO_EXTS"
  by (auto simp: extOfPath_def Let_def split: if_splits)

lemma VIDEO_EXTS_lower: "e \<in> set VIDEO_EXTS \<Longrightarrow> toLower e = e"
  by (auto simp: VIDEO_EXTS_def lowerChar_def code_def)

lemma contentTypeLookup_cases:
  assumes "contentTypeLookup ct = Some e" "e \<noteq> ExtString ''m3u8''" "e \<noteq> ExtString ''mpd''"
  shows "(\<exists>x\<in>set VIDEO_EXTS. e = ExtString x) \<or> (e = ExtInherited ct \<and> ct \<in> set objectPrototypeKeys)"
  using assms
  by (auto simp: contentTypeLookup_def CONTENT_TYPE_EXT_def VIDEO_EXTS_def split: if_splits)

lemma pickExtension_cases:
  "(\<exists>x\<in>set VIDEO_EXTS. pickExtension parse p ct = ExtString x)
   \<or> (\<exists>c. ct = Str c \<and> mediaType c \<in> set objectPrototypeKeys
        \<and> pickExtension parse p ct = ExtInherited (mediaType c))"
proof -
  define byUrl where "byUrl = (case p of
      Str s \<Rightarrow> (case parse s of Some u \<Rightarrow> extOfPath (pathname u) | None \<Rightarrow> extOfPath s) | _ \<Rightarrow> None)"
  have fb: "\<exists>x\<in>set VIDEO_EXTS. ExtString (case byUrl of Some e \<Rightarrow> e | None \<Rightarrow> ''mp4'') = ExtString x"
    by (auto simp: byUrl_def split: jsprim.splits option.splits dest: extOfPath_whitelisted)
  show ?thesis
  proof (cases ct)
    case (Str c)
    show ?thesis
    proof (cases "contentTypeLookup (mediaType c)")
      case None
      with fb Str show ?thesis by (simp add: pickExtension_def byUrl_def)
    next
      case (Some e)
      with contentTypeLookup_cases [OF Some] Str show ?thesis
        by (auto simp: pickExtension_def Let_def)
    qed
  qed (use fb in \<open>auto simp: pickExtension_def byUrl_def\<close>)
qed

section \<open>Properties\<close>



text \<open>C22: \<open>validateUrl\<close> accepts exactly the texts that parse to an http(s) URL whose host name is
  not a private address and resolves to addresses none of which is private.\<close>

theorem validateUrl_accepts_iff:
  "validateUrl parse lookup raw = Inr u \<longleftrightarrow>
     (\<exists>s. raw = Str s \<and> s \<noteq> [] \<and> parse s = Some u
        \<and> (protocol u = ''http:'' \<or> protocol u = ''https:'')
        \<and> \<not> isPrivateIp (Str (hostname u))
        \<and> (\<exists>ans. lookup (hostname u) = Some ans
             \<and> list_all (\<lambda>e. \<not> isPrivateIp (Str (entryAddr e))) (answerList ans)))"
  by (auto simp: validateUrl_Inr publicUrl_def isPrivateIp_def list_all_iff)

text \<open>The extension of an output file is always on the whitelist, whatever the media URL and
  the content type header are, the inherited keys of the lookup table included.\<close>

theorem safeExt_pickExtension:
  "safeExt (pickExtension parse urlOrPath contentType) \<in> set VIDEO_EXTS
   \<and> (\<forall>e. pickExtension parse urlOrPath contentType = ExtString e \<longrightarrow>
        safeExt (pickExtension parse urlOrPath contentType) = e)"
proof -
  have "safeExt (ExtString e) = e" if "e \<in> set VIDEO_EXTS" for e
    using that by (simp add: safeExt_def VIDEO_EXTS_lower)
  with pickExtension_cases [of parse urlOrPath contentType] show ?thesis
    by (auto simp: safeExt_whitelisted)
qed

theorem safeExt_pickExtension_witness:
  "safeExt (pickExtension (\<lambda>_. None) (Str ''https://h/v.WEBM'') (Str ''text/html'')) = ''webm''"
proof -
  have "pickExtension (\<lambda>_. None) (Str ''https://h/v.WEBM'') (Str ''text/html'') = ExtString ''webm''"
    by code_simp
  with safeExt_pickExtension [of "\<lambda>_. None" "Str ''https://h/v.WEBM''" "Str ''text/html''"]
  show ?thesis by blast
qed

text \<open>A timeout is always a positive integer when its default is one, and a valid setting is
  kept.\<close>

theorem parseTimeout_valid:
  assumes "isInteger d" "Fin 0 < d"
  shows "isInteger (parseTimeout v d) \<and> Fin 0 < parseTimeout v d
    \<and> (isInteger (toNumber v) \<and> Fin 0 < toNumber v \<longrightarrow> parseTimeout v d = toNumber v)"
  using parseTimeout_positive [OF assms, of v] by (auto simp: parseTimeout_def Let_def)

theorem parseTimeout_valid_witness:
  "parseTimeout (Str (showNat 1500)) (Fin 120000) = Fin 1500
   \<and> parseTimeout (Num (Fin (- 5))) (Fin 120000) = Fin 120000
   \<and> Fin 0 < parseTimeout Undefined (Fin 120000)"
proof -
  have d: "isInteger (Fin 120000)" "Fin 0 < Fin 120000"
    by (simp_all add: isInteger_def less_jsnum_def less_eq_jsnum_def)
  have v: "toNumber (Str (showNat 1500)) = Fin 1500"
    using stringToNumber_showNat [of 1500] by simp
  have w: "isInteger (Fin 1500)" "Fin 0 < Fin 1500" "\<not> Fin 0 < Fin (- 5)"
    by (simp_all add: isInteger_def less_jsnum_def less_eq_jsnum_def)
  have n: "parseTimeout (Num (Fin (- 5))) (Fin 120000) = Fin 120000"
    using w by (simp add: parseTimeout_def)
  show ?thesis using parseTimeout_valid [OF d, of "Str (showNat 1500)"]
      parseTimeout_valid [OF d, of Undefined] v w n by simp
qed

end
