(* ===== verification/Paths.thy ===== *)
theory Paths
  imports JsNumber
begin

text \<open>
  \<open>validateOutputDir\<close> of \<open>validate.js\<close> and the POSIX path functions of \<open>node:path\<close> it uses.
  \<open>realpath\<close> and the working directory are arguments. The result carries the list of paths the
  code handed to \<open>realpath\<close>, because the containment check must come before that call.
\<close>

section \<open>POSIX paths\<close>

text \<open>
  The loop of \<open>normalizeString\<close> on the parts between slashes; \<open>acc\<close> is the output so far,
  reversed. Above the root of an absolute path \<open>..\<close> is dropped.
\<close>

fun normGo :: "bool \<Rightarrow> string list \<Rightarrow> string list \<Rightarrow> string list" where
  "normGo up acc [] = acc"
| "normGo up acc (s # ss) =
     (if s = '''' \<or> s = ''.'' then normGo up acc ss
      else if s = ''..'' then
        (case acc of
           [] \<Rightarrow> if up then normGo up [s] ss else normGo up [] ss
         | a # as \<Rightarrow> if a = ''..'' then normGo up (s # acc) ss else normGo up as ss)
      else normGo up (s # acc) ss)"

definition normSegs :: "bool \<Rightarrow> string list \<Rightarrow> string list" where
  "normSegs up ss = rev (normGo up [] ss)"

definition renderAbs :: "string list \<Rightarrow> string" where
  "renderAbs ss = CHR ''/'' # joinWith ''/'' ss"

definition pathSegs :: "string \<Rightarrow> string list" where
  "pathSegs p = splitOn CHR ''/'' p"

definition normalizePath :: "string \<Rightarrow> string" where
  "normalizePath p =
     (if p = [] then ''.''
      else let isAbs = startsWith p ''/''; trail = endsWith p ''/'';
               body = joinWith ''/'' (normSegs (\<not> isAbs) (pathSegs p))
           in if body = [] then (if isAbs then ''/'' else if trail then ''./'' else ''.'')
              else (if isAbs then ''/'' else []) @ body @ (if trail then ''/'' else []))"

definition resolvePath :: "string \<Rightarrow> string \<Rightarrow> string" where
  "resolvePath cwd p =
     renderAbs (normSegs False (pathSegs (if startsWith p ''/'' then p else cwd @ ''/'' @ p)))"

fun commonLen :: "string list \<Rightarrow> string list \<Rightarrow> nat" where
  "commonLen (a # as) (b # bs) = (if a = b then Suc (commonLen as bs) else 0)"
| "commonLen _ _ = 0"

definition relativeSegs :: "string list \<Rightarrow> string list \<Rightarrow> string list" where
  "relativeSegs from to =
     (let k = commonLen from to in replicate (length from - k) ''..'' @ drop k to)"

definition relativePath :: "string \<Rightarrow> string \<Rightarrow> string \<Rightarrow> string" where
  "relativePath cwd from to =
     joinWith ''/'' (relativeSegs (normSegs False (pathSegs (resolvePath cwd from)))
                                 (normSegs False (pathSegs (resolvePath cwd to))))"

definition joinPath :: "string \<Rightarrow> string \<Rightarrow> string" where
  "joinPath a b = normalizePath (joinWith ''/'' (filter (\<lambda>p. p \<noteq> []) [a, b]))"

section \<open>Containment\<close>

definition isUnder :: "string \<Rightarrow> string \<Rightarrow> bool" where
  "isUnder candidate baseDir \<longleftrightarrow> candidate = baseDir \<or> startsWith candidate (baseDir @ ''/'')"

record fsEnv =
  realpath :: "string \<Rightarrow> string option"
  cwd :: string
  envOutputBase :: jsprim

definition orElse :: "jsprim \<Rightarrow> jsprim \<Rightarrow> jsprim" where
  "orElse a b = (if truthy a then a else b)"

fun strOf :: "jsprim \<Rightarrow> string" where
  "strOf (Str s) = s"
| "strOf _ = []"

definition validateOutputDir ::
  "fsEnv \<Rightarrow> jsprim \<Rightarrow> jsprim \<Rightarrow> string list \<times> (string + string)" where
  "validateOutputDir env dir base = (case dir of
     Str d \<Rightarrow>
       if d = [] then ([], Inl ''output_dir must be a non-empty string'')
       else let baseDir = strOf (orElse base (orElse (envOutputBase env) (Str ''/output''))) in
         (case realpath env baseDir of
            None \<Rightarrow> ([baseDir], Inl (''output base does not exist or is not accessible: '' @ baseDir))
          | Some resolvedBase \<Rightarrow>
              let rel = relativePath (cwd env) resolvedBase (resolvePath (cwd env) d);
                  candidate = joinPath resolvedBase rel
              in if \<not> isUnder candidate resolvedBase
                 then ([baseDir], Inl (''output_dir must be under '' @ resolvedBase))
                 else (case realpath env candidate of
                   None \<Rightarrow> ([baseDir, candidate], Inl ''output_dir does not exist or is not accessible'')
                 | Some resolved \<Rightarrow>
                     if \<not> isUnder resolved resolvedBase
                     then ([baseDir, candidate], Inl (''output_dir must be under '' @ resolvedBase))
                     else ([baseDir, candidate], Inr resolved)))
   | _ \<Rightarrow> ([], Inl ''output_dir must be a non-empty string''))"

definition baseDirOf :: "fsEnv \<Rightarrow> jsprim \<Rightarrow> string" where
  "baseDirOf env base = strOf (orElse base (orElse (envOutputBase env) (Str ''/output'')))"

section \<open>Facts: normalised segment lists\<close>

text \<open>A clean segment is a name: not empty, not a dot, not two dots, no slash.\<close>

definition cleanSeg :: "string \<Rightarrow> bool" where
  "cleanSeg s \<longleftrightarrow> s \<noteq> [] \<and> s \<noteq> ''.'' \<and> s \<noteq> ''..'' \<and> CHR ''/'' \<notin> set s"

abbreviation cleanSegs :: "string list \<Rightarrow> bool" where
  "cleanSegs ss \<equiv> list_all cleanSeg ss"

lemma normGo_append: "normGo up acc (xs @ ys) = normGo up (normGo up acc xs) ys"
  by (induction up acc xs rule: normGo.induct) (auto split: list.splits)

lemma normGo_clean: "cleanSegs xs \<Longrightarrow> normGo up acc xs = rev xs @ acc"
  by (induction xs arbitrary: acc) (auto simp: cleanSeg_def)

lemma normGo_ups: "cleanSegs xs \<Longrightarrow> normGo False (xs @ acc) (replicate (length xs) ''..'') = acc"
  by (induction xs) (auto simp: cleanSeg_def)

lemma normSegs_clean: "cleanSegs xs \<Longrightarrow> normSegs up xs = xs"
  by (simp add: normSegs_def normGo_clean)

lemma normSegs_skip: "normSegs up ([] # ss) = normSegs up ss"
  by (simp add: normSegs_def)

text \<open>Normalising an absolute path leaves clean segments.\<close>

lemma normGo_cleans:
  "cleanSegs acc \<Longrightarrow> \<forall>s\<in>set ss. CHR ''/'' \<notin> set s \<Longrightarrow> cleanSegs (normGo False acc ss)"
proof (induction "False" acc ss rule: normGo.induct)
  case (2 acc s ss)
  then show ?case by (cases acc) (auto simp: cleanSeg_def)
qed simp

lemma normSegs_cleans: "cleanSegs (normSegs False (pathSegs p))"
  using normGo_cleans [of "[]" "pathSegs p"] by (auto simp: normSegs_def pathSegs_def dest: splitOn_elem)

lemma pathSegs_renderAbs: "cleanSegs ss \<Longrightarrow> pathSegs (renderAbs ss) = (if ss = [] then [[], []] else [] # ss)"
proof -
  assume c: "cleanSegs ss"
  have "splitOn CHR ''/'' (joinWith ''/'' ss) = ss" if "ss \<noteq> []"
    using c that by (intro splitOn_joinWith) (auto simp: list_all_iff cleanSeg_def)
  then show ?thesis by (auto simp: pathSegs_def renderAbs_def)
qed

lemma segs_renderAbs: "cleanSegs ss \<Longrightarrow> normSegs False (pathSegs (renderAbs ss)) = ss"
  by (auto simp: pathSegs_renderAbs normSegs_clean normSegs_skip)

lemma renderAbs_inject: "cleanSegs xs \<Longrightarrow> cleanSegs ys \<Longrightarrow> renderAbs xs = renderAbs ys \<longleftrightarrow> xs = ys"
  by (metis segs_renderAbs)

lemma startsWith_renderAbs [simp]: "startsWith (renderAbs ss) ''/''"
  by (simp add: renderAbs_def)

lemma resolve_renderAbs: "cleanSegs ss \<Longrightarrow> resolvePath c (renderAbs ss) = renderAbs ss"
  by (simp add: resolvePath_def segs_renderAbs)

lemma resolvePath_clean: "\<exists>ss. cleanSegs ss \<and> resolvePath c p = renderAbs ss"
  using normSegs_cleans by (auto simp: resolvePath_def)

lemma relative_renderAbs:
  "cleanSegs xs \<Longrightarrow> cleanSegs ys \<Longrightarrow>
   relativePath c (renderAbs xs) (renderAbs ys) = joinWith ''/'' (relativeSegs xs ys)"
  by (simp add: relativePath_def resolve_renderAbs segs_renderAbs)

lemma commonLen_take: "take (commonLen xs ys) xs = take (commonLen xs ys) ys"
proof (induction xs arbitrary: ys)
  case (Cons x xs)
  then show ?case by (cases ys) auto
qed simp

lemma normGo_relative:
  assumes "cleanSegs xs" "cleanSegs ys"
  shows "normGo False (rev xs) (relativeSegs xs ys) = rev ys"
proof -
  define k where "k = commonLen xs ys"
  have rx: "rev xs = rev (drop k xs) @ rev (take k xs)" by (metis append_take_drop_id rev_append)
  have len: "length xs - k = length (rev (drop k xs))" by simp
  have cd: "cleanSegs (rev (drop k xs))" "cleanSegs (drop k ys)"
    using assms by (auto simp: list_all_iff dest: in_set_dropD)
  have "normGo False (rev xs) (relativeSegs xs ys) =
      normGo False (normGo False (rev (drop k xs) @ rev (take k xs)) (replicate (length (rev (drop k xs))) ''..''))
        (drop k ys)"
    by (simp only: relativeSegs_def Let_def k_def [symmetric] normGo_append rx [symmetric] len [symmetric])
  also have "\<dots> = rev (drop k ys) @ rev (take k xs)"
    by (simp only: normGo_ups [OF cd(1)] normGo_clean [OF cd(2)])
  also have "take k xs = take k ys" unfolding k_def by (rule commonLen_take)
  also have "rev (drop k ys) @ rev (take k ys) = rev ys" by (metis append_take_drop_id rev_append)
  finally show ?thesis .
qed

lemma relativeSegs_elem: "s \<in> set (relativeSegs xs ys) \<Longrightarrow> s = ''..'' \<or> s \<in> set ys"
proof -
  define k where "k = commonLen xs ys"
  assume "s \<in> set (relativeSegs xs ys)"
  then have "s \<in> set (replicate (length xs - k) ''..'') \<or> s \<in> set (drop k ys)"
    by (simp only: relativeSegs_def Let_def k_def [symmetric] set_append Un_iff)
  then show ?thesis
  proof
    assume "s \<in> set (replicate (length xs - k) ''..'')"
    then have "s = ''..''" by (simp only: in_set_replicate)
    then show ?thesis by (rule disjI1)
  next
    assume "s \<in> set (drop k ys)"
    then show ?thesis by (rule disjI2 [OF in_set_dropD])
  qed
qed

lemma splitOn_relative:
  assumes "cleanSegs xs" "cleanSegs ys"
  shows "\<forall>s\<in>set (relativeSegs xs ys). CHR ''/'' \<notin> set s"
proof
  fix s assume "s \<in> set (relativeSegs xs ys)"
  then have "s = ''..'' \<or> cleanSeg s" using relativeSegs_elem assms(2) by (metis list_all_iff)
  then show "CHR ''/'' \<notin> set s" by (auto simp: cleanSeg_def)
qed

lemma relativeSegs_neq: "cleanSegs xs \<Longrightarrow> cleanSegs ys \<Longrightarrow> \<forall>s\<in>set (relativeSegs xs ys). s \<noteq> []"
  using relativeSegs_elem by (fastforce simp: list_all_iff cleanSeg_def)

lemma joinWith_Nil_iff: "\<forall>w\<in>set ws. w \<noteq> [] \<Longrightarrow> joinWith d ws = [] \<longleftrightarrow> ws = []"
  by (induction ws rule: induct_list012) auto

lemma joinWith_append:
  "us \<noteq> [] \<Longrightarrow> vs \<noteq> [] \<Longrightarrow> joinWith d (us @ vs) = joinWith d us @ d @ joinWith d vs"
proof (induction us rule: induct_list012)
  case (2 u)
  then show ?case by (cases vs) auto
next
  case (3 u w us)
  then show ?case by simp
qed simp

lemma endsWith_last: "s \<noteq> [] \<Longrightarrow> endsWith s [c] \<longleftrightarrow> last s = c"
  by (cases s rule: rev_cases) (auto simp: endsWith_def)

lemma last_joinWith:
  "ws \<noteq> [] \<Longrightarrow> \<forall>w\<in>set ws. w \<noteq> [] \<Longrightarrow> last (joinWith d ws) = last (last ws)"
proof (induction ws rule: induct_list012)
  case (3 u w ws)
  then have "joinWith d (w # ws) \<noteq> []" by (subst joinWith_Nil_iff) auto
  with 3 show ?case by simp
qed simp_all

text \<open>Normalising an absolute text whose parts are given.\<close>

lemma normalizePath_abs:
  assumes ne: "ws \<noteq> []" and parts: "\<forall>w\<in>set ws. w \<noteq> [] \<and> CHR ''/'' \<notin> set w"
    and res: "normGo False [] ws = rev ys" and ys: "cleanSegs ys"
  shows "normalizePath (renderAbs ws) = renderAbs ys"
proof -
  have sp: "pathSegs (renderAbs ws) = [] # ws"
    using splitOn_joinWith [OF ne, of "CHR ''/''"] parts by (simp add: pathSegs_def renderAbs_def)
  have l: "last (renderAbs ws) = last (last ws)"
    using ne parts last_joinWith [of ws "''/''"] joinWith_Nil_iff [of ws "''/''"]
    by (auto simp: renderAbs_def)
  have "last ws \<in> set ws" using ne by simp
  then have "last (last ws) \<in> set (last ws)" using parts by (metis last_in_set)
  with parts \<open>last ws \<in> set ws\<close> l have "last (renderAbs ws) \<noteq> CHR ''/''" by metis
  then have tr: "\<not> endsWith (renderAbs ws) ''/''" by (simp add: endsWith_last renderAbs_def)
  have seg: "normSegs False ([] # ws) = ys" by (simp add: normSegs_def res)
  have "joinWith ''/'' ys = [] \<longleftrightarrow> ys = []"
    using ys by (intro joinWith_Nil_iff) (auto simp: list_all_iff cleanSeg_def)
  then show ?thesis
    using tr by (auto simp: normalizePath_def Let_def sp seg) (simp_all add: renderAbs_def)
qed

text \<open>
  Joining the base with the base-relative form of an absolute path gives that path back, for
  every base other than the root.
\<close>

lemma join_relative:
  assumes xs: "cleanSegs xs" "xs \<noteq> []" and ys: "cleanSegs ys"
  shows "joinPath (renderAbs xs) (joinWith ''/'' (relativeSegs xs ys)) = renderAbs ys"
proof -
  let ?r = "relativeSegs xs ys"
  have go: "normGo False [] (xs @ ?r) = rev ys"
    using normGo_relative [OF xs(1) ys] by (simp add: normGo_append normGo_clean [OF xs(1)])
  have parts: "\<forall>w\<in>set (xs @ ?r). w \<noteq> [] \<and> CHR ''/'' \<notin> set w"
    using xs splitOn_relative [OF xs(1) ys] relativeSegs_neq [OF xs(1) ys]
    by (auto simp: list_all_iff cleanSeg_def)
  have "joinWith ''/'' (filter (\<lambda>p. p \<noteq> []) [renderAbs xs, joinWith ''/'' ?r]) = renderAbs (xs @ ?r)"
  proof (cases "?r = []")
    case True
    then show ?thesis by (simp add: renderAbs_def)
  next
    case False
    then have "joinWith ''/'' ?r \<noteq> []"
      using relativeSegs_neq [OF xs(1) ys] joinWith_Nil_iff by blast
    then show ?thesis using False xs(2) by (simp add: renderAbs_def joinWith_append)
  qed
  then show ?thesis
    using normalizePath_abs [OF _ parts go ys] xs(2) by (simp add: joinPath_def)
qed

text \<open>On clean paths the textual test is containment of directories.\<close>

lemma isUnder_renderAbs:
  assumes "cleanSegs bs" "bs \<noteq> []" "cleanSegs ps"
  shows "isUnder (renderAbs ps) (renderAbs bs) \<longleftrightarrow> prefix bs ps"
proof
  assume "isUnder (renderAbs ps) (renderAbs bs)"
  then consider "renderAbs ps = renderAbs bs" | r where "renderAbs ps = renderAbs bs @ ''/'' @ r"
    by (auto simp: isUnder_def elim!: startsWithE)
  then show "prefix bs ps"
  proof cases
    case 1
    with assms show ?thesis by (simp add: renderAbs_inject)
  next
    case 2
    then have j: "joinWith ''/'' ps = joinWith ''/'' bs @ ''/'' @ r" by (simp add: renderAbs_def)
    have nosl: "\<forall>w\<in>set bs. CHR ''/'' \<notin> set w" "\<forall>w\<in>set ps. CHR ''/'' \<notin> set w"
      using assms by (auto simp: list_all_iff cleanSeg_def)
    have "ps \<noteq> []" using j by auto
    have "joinWith ''/'' bs @ ''/'' @ r = joinWith ''/'' (bs @ splitOn CHR ''/'' r)"
      using assms(2) by (simp add: joinWith_append joinWith_splitOn)
    with j have "joinWith ''/'' ps = joinWith ''/'' (bs @ splitOn CHR ''/'' r)" by simp
    then have "splitOn CHR ''/'' (joinWith ''/'' ps) = splitOn CHR ''/'' (joinWith ''/'' (bs @ splitOn CHR ''/'' r))"
      by simp
    moreover have "splitOn CHR ''/'' (joinWith ''/'' ps) = ps"
      using \<open>ps \<noteq> []\<close> nosl by (intro splitOn_joinWith) auto
    moreover have "splitOn CHR ''/'' (joinWith ''/'' (bs @ splitOn CHR ''/'' r)) = bs @ splitOn CHR ''/'' r"
      using nosl by (intro splitOn_joinWith) (auto dest: splitOn_elem)
    ultimately show ?thesis by simp
  qed
next
  assume "prefix bs ps"
  then obtain rs where ps: "ps = bs @ rs" by (auto simp: prefix_def)
  show "isUnder (renderAbs ps) (renderAbs bs)"
  proof (cases "rs = []")
    case True
    then show ?thesis by (simp add: isUnder_def ps)
  next
    case False
    then have "renderAbs ps = (renderAbs bs @ ''/'') @ joinWith ''/'' rs"
      using assms(2) by (simp add: ps renderAbs_def joinWith_append)
    then show ?thesis by (metis isUnder_def startsWith_append)
  qed
qed

text \<open>Joining a clean directory and a clean name.\<close>

lemma joinPath_clean:
  assumes "cleanSegs ds" "ds \<noteq> []" "cleanSeg n"
  shows "joinPath (renderAbs ds) n = renderAbs (ds @ [n])"
proof -
  have c: "cleanSegs (ds @ [n])" using assms by simp
  have parts: "\<forall>w\<in>set (ds @ [n]). w \<noteq> [] \<and> CHR ''/'' \<notin> set w"
    using c by (auto simp: list_all_iff cleanSeg_def)
  have go: "normGo False [] (ds @ [n]) = rev (ds @ [n])" using normGo_clean [OF c] by simp
  have "n \<noteq> []" using assms(3) by (simp add: cleanSeg_def)
  then have "joinWith ''/'' (filter (\<lambda>p. p \<noteq> []) [renderAbs ds, n]) = renderAbs (ds @ [n])"
    using assms(2) by (simp add: renderAbs_def joinWith_append)
  then show ?thesis using normalizePath_abs [OF _ parts go c] by (simp add: joinPath_def)
qed

section \<open>Facts: the output directory\<close>

lemma validateOutputDir_ok:
  assumes "validateOutputDir env dir base = (calls, Inr r)"
  shows "\<exists>b. realpath env (baseDirOf env base) = Some b \<and> isUnder r b"
  using assms
  by (auto simp: validateOutputDir_def baseDirOf_def Let_def split: jsprim.splits option.splits if_splits)

lemma validateOutputDir_calls:
  assumes "validateOutputDir env dir base = (calls, res)" "p \<in> set calls"
  shows "p = baseDirOf env base \<or> (\<exists>b. realpath env (baseDirOf env base) = Some b \<and> isUnder p b)"
  using assms
  by (auto simp: validateOutputDir_def baseDirOf_def Let_def split: jsprim.splits option.splits if_splits)

text \<open>With a normalised base, the candidate is the resolved request path itself.\<close>

lemma candidate_resolved:
  assumes "cleanSegs bs" "bs \<noteq> []"
  shows "joinPath (renderAbs bs) (relativePath c (renderAbs bs) (resolvePath c d)) = resolvePath c d"
proof -
  obtain ds where ds: "cleanSegs ds" "resolvePath c d = renderAbs ds" using resolvePath_clean by blast
  then show ?thesis using relative_renderAbs [OF assms(1) ds(1)] join_relative [OF assms ds(1)] by simp
qed

section \<open>Properties\<close>


text \<open>When the base's real path is a normalised path and the request names an existing
  directory without symbolic links, the request is accepted exactly when its resolved segments
  begin with those of the base: no \<open>..\<close> sequence escapes, and a sibling whose name merely starts
  with the base's name is refused.\<close>

theorem validateOutputDir_segments:
  assumes b: "cleanSegs bs" "bs \<noteq> []" "realpath env (baseDirOf env base) = Some (renderAbs bs)"
    and d: "d \<noteq> []" "cleanSegs ds" "resolvePath (cwd env) d = renderAbs ds"
    and r: "realpath env (renderAbs ds) = Some (renderAbs ds)"
  shows "snd (validateOutputDir env (Str d) base) = Inr (renderAbs ds) \<longleftrightarrow> prefix bs ds"
proof -
  have c: "joinPath (renderAbs bs) (relativePath (cwd env) (renderAbs bs) (renderAbs ds)) = renderAbs ds"
    using candidate_resolved [OF b(1,2), of "cwd env" d] d(3) by simp
  show ?thesis
    using b(3) d(1,3) r isUnder_renderAbs [OF b(1,2) d(2)]
    by (auto simp: validateOutputDir_def baseDirOf_def Let_def c)
qed

definition sampleFs :: fsEnv where
  "sampleFs = \<lparr>realpath = Some, cwd = ''/srv'', envOutputBase = Undefined\<rparr>"

theorem validateOutputDir_segments_witness:
  "snd (validateOutputDir sampleFs (Str ''/output/x/../job'') Undefined) = Inr (renderAbs [''output'', ''job''])
   \<and> snd (validateOutputDir sampleFs (Str ''/output2'') Undefined) \<noteq> Inr (renderAbs [''output2''])"
proof -
  have b: "cleanSegs [''output'']" "cleanSegs [''output'', ''job'']" "cleanSegs [''output2'']"
    "realpath sampleFs (baseDirOf sampleFs Undefined) = Some (renderAbs [''output''])"
    by (simp_all add: cleanSeg_def sampleFs_def baseDirOf_def orElse_def renderAbs_def)
  have d: "resolvePath (cwd sampleFs) ''/output/x/../job'' = renderAbs [''output'', ''job'']"
    "resolvePath (cwd sampleFs) ''/output2'' = renderAbs [''output2'']"
    by (code_simp, code_simp)
  show ?thesis
    using validateOutputDir_segments [OF b(1) _ b(4) _ b(2) d(1)]
      validateOutputDir_segments [OF b(1) _ b(4) _ b(3) d(2)]
    by (simp add: sampleFs_def)
qed

end
