(* ===== verification/Bytes.thy ===== *)
theory Bytes
  imports JsNumber
begin

text \<open>
  Bytes and base64: \<open>btoa\<close> on a binary string, as the in-page code encodes a blob, and
  \<open>Buffer.from(s, 'base64')\<close>, as both tiers decode a body. Decoding stops at the padding and skips
  characters outside the alphabet.
\<close>

type_synonym byte = "8 word"

definition b64Char :: "nat \<Rightarrow> char" where
  "b64Char n = char_of (if n < 26 then n + 65 else if n < 52 then n + 71 else if n < 62 then n - 4
     else if n = 62 then 43 else 47)"

text \<open>The URL-safe characters are accepted as well.\<close>

definition b64Val :: "char \<Rightarrow> nat option" where
  "b64Val c = (let n = code c in
     if 65 \<le> n \<and> n \<le> 90 then Some (n - 65)
     else if 97 \<le> n \<and> n \<le> 122 then Some (n - 71)
     else if 48 \<le> n \<and> n \<le> 57 then Some (n + 4)
     else if n = 43 \<or> n = 45 then Some 62
     else if n = 47 \<or> n = 95 then Some 63 else None)"

definition byteOf :: "nat \<Rightarrow> byte" where
  "byteOf n = of_nat n"

fun btoa :: "byte list \<Rightarrow> string" where
  "btoa [] = []"
| "btoa [a] = (let n = unat a * 16 in [b64Char (n div 64), b64Char (n mod 64), CHR ''='', CHR ''=''])"
| "btoa [a, b] = (let n = (unat a * 256 + unat b) * 4 in
     [b64Char (n div 4096), b64Char (n div 64 mod 64), b64Char (n mod 64), CHR ''=''])"
| "btoa (a # b # c # bs) = (let n = unat a * 65536 + unat b * 256 + unat c in
     [b64Char (n div 262144), b64Char (n div 4096 mod 64), b64Char (n div 64 mod 64), b64Char (n mod 64)]
     @ btoa bs)"

fun sextets :: "nat list \<Rightarrow> byte list" where
  "sextets (p # q # r # s # ns) = (let n = p * 262144 + q * 4096 + r * 64 + s in
     [byteOf (n div 65536), byteOf (n div 256 mod 256), byteOf (n mod 256)] @ sextets ns)"
| "sextets [p, q, r] = (let n = p * 4096 + q * 64 + r in [byteOf (n div 1024), byteOf (n div 4 mod 256)])"
| "sextets [p, q] = [byteOf ((p * 64 + q) div 16)]"
| "sextets _ = []"

fun keepVals :: "string \<Rightarrow> nat list" where
  "keepVals [] = []"
| "keepVals (c # s) = (case b64Val c of None \<Rightarrow> keepVals s | Some v \<Rightarrow> v # keepVals s)"

definition base64Decode :: "string \<Rightarrow> byte list" where
  "base64Decode s = sextets (keepVals (takeWhile (\<lambda>c. c \<noteq> CHR ''='') s))"

section \<open>Facts\<close>

lemma b64Val_Char [simp]: "n < 64 \<Longrightarrow> b64Val (b64Char n) = Some n"
  by (auto simp: b64Val_def b64Char_def Let_def)

lemma b64Char_not_pad [simp]: "n < 64 \<Longrightarrow> b64Char n \<noteq> CHR ''=''"
  using b64Val_Char [of n] by (auto simp: b64Val_def code_def)

lemma byteOf_unat [simp]: "byteOf (unat a) = a"
  by (simp add: byteOf_def)

lemma byte_less: "unat (a :: byte) < 256"
  using unsigned_less [of a] by simp

text \<open>Splitting a number into digits and putting it together again.\<close>

lemma digits4: "n div 262144 * 262144 + n div 4096 mod 64 * 4096 + n div 64 mod 64 * 64 + n mod 64 = (n :: nat)"
proof -
  have "n div 64 = n div 4096 * 64 + n div 64 mod 64" "n div 4096 = n div 262144 * 64 + n div 4096 mod 64"
    using div_mult_mod_eq [of "n div 64" 64] div_mult_mod_eq [of "n div 4096" 64]
    by (simp_all add: div_mult2_eq [symmetric])
  then show ?thesis using div_mult_mod_eq [of n 64] by linarith
qed

lemma digits3: "n div 4096 * 4096 + n div 64 mod 64 * 64 + n mod 64 = (n :: nat)"
proof -
  have "n div 64 = n div 4096 * 64 + n div 64 mod 64"
    using div_mult_mod_eq [of "n div 64" 64] by (simp add: div_mult2_eq [symmetric])
  then show ?thesis using div_mult_mod_eq [of n 64] by linarith
qed

lemma low_digit: "c < k \<Longrightarrow> (x * k + c) div k = x" "c < k \<Longrightarrow> (x * k + c) mod k = c" for x c k :: nat
  by simp_all

lemma split24:
  fixes a b c :: nat
  assumes "a < 256" "b < 256" "c < 256"
  defines "n \<equiv> a * 65536 + b * 256 + c"
  shows "n div 262144 < 64" "n div 65536 = a" "n div 256 mod 256 = b" "n mod 256 = c"
proof -
  have n: "n = (a * 256 + b) * 256 + c" by (simp add: n_def)
  have "n < 16777216" using assms(1-3) by (simp add: n_def)
  then show "n div 262144 < 64" by (simp add: less_mult_imp_div_less)
  have d: "n div 256 = a * 256 + b" unfolding n using assms(3) by (rule low_digit)
  show "n mod 256 = c" unfolding n using assms(3) by (rule low_digit)
  show "n div 256 mod 256 = b" unfolding d using assms(2) by (rule low_digit)
  have "n div 65536 = n div 256 div 256" by (simp add: div_mult2_eq [symmetric])
  also have "\<dots> = a" unfolding d using assms(2) by (rule low_digit)
  finally show "n div 65536 = a" .
qed

lemma split16:
  fixes a b :: nat
  assumes "a < 256" "b < 256"
  defines "n \<equiv> (a * 256 + b) * 4"
  shows "n div 4096 < 64" "n div 1024 = a" "n div 4 mod 256 = b"
proof -
  have "n < 262144" using assms(1-2) by (simp add: n_def)
  then show "n div 4096 < 64" by (simp add: less_mult_imp_div_less)
  have d: "n div 4 = a * 256 + b" by (simp add: n_def)
  show "n div 4 mod 256 = b" unfolding d using assms(2) by (rule low_digit)
  have "n div 1024 = n div 4 div 256" by (simp add: div_mult2_eq [symmetric])
  also have "\<dots> = a" unfolding d using assms(2) by (rule low_digit)
  finally show "n div 1024 = a" .
qed

lemma split8:
  fixes a :: nat
  assumes "a < 256"
  shows "a * 16 div 64 < 64" "(a * 16 div 64 * 64 + a * 16 mod 64) div 16 = a"
proof -
  show "a * 16 div 64 < 64" using assms by (simp add: less_mult_imp_div_less)
  show "(a * 16 div 64 * 64 + a * 16 mod 64) div 16 = a" by (subst div_mult_mod_eq) simp
qed

lemma base64_roundtrip: "base64Decode (btoa bs) = bs"
proof (induction bs rule: btoa.induct)
  case 1
  then show ?case by (simp add: base64Decode_def)
next
  case (2 a)
  then show ?case using split8 [OF byte_less [of a]] by (simp add: base64Decode_def Let_def)
next
  case (3 a b)
  note n = split16 [OF byte_less [of a] byte_less [of b]]
  show ?case using n by (simp add: base64Decode_def Let_def digits3)
next
  case (4 a b c bs)
  note n = split24 [OF byte_less [of a] byte_less [of b] byte_less [of c]]
  show ?case using 4 n by (simp add: base64Decode_def Let_def digits4)
qed

end
