(* ===== verification/Fetch.thy ===== *)
theory Fetch
  imports Errors Validate Paths Bytes
begin

text \<open>
  The HTTP side of \<open>streamlink-backend.js\<close>: resource kinds and caps, credential contexts,
  manual redirects, retries with backoff, and capped body reads. The network, the resolver, the
  abort signal and \<open>Math.random\<close> are oracles indexed by how many fetches or sleeps came before;
  the state logs every request sent and every delay slept.
\<close>

section \<open>Resource kinds\<close>

text \<open>\<open>/\.(m3u8|mpd)(\?|$)/i\<close> and \<open>/\.key(\?|$)/i\<close>\<close>

definition queryOrEnd :: re where
  "queryOrEnd = RAlt (rLit True ''?'') REos"

definition MANIFEST_RE :: re where
  "MANIFEST_RE = rSeqs [rLit True ''.'', RAlt (rLit True ''m3u8'') (rLit True ''mpd''), queryOrEnd]"

definition KEY_RE :: re where
  "KEY_RE = rSeqs [rLit True ''.key'', queryOrEnd]"

datatype resourceKind = Manifest | Key | Segment

definition maxBodyBytes :: "resourceKind \<Rightarrow> nat" where
  "maxBodyBytes k = (case k of
     Manifest \<Rightarrow> 8 * 1024 * 1024 | Key \<Rightarrow> 64 * 1024 | Segment \<Rightarrow> 256 * 1024 * 1024)"

definition classifyResource :: "string \<Rightarrow> resourceKind" where
  "classifyResource u =
     (if reTest MANIFEST_RE u then Manifest else if reTest KEY_RE u then Key else Segment)"

fun kindName :: "resourceKind \<Rightarrow> string" where
  "kindName Manifest = ''manifest''"
| "kindName Key = ''key''"
| "kindName Segment = ''segment''"

section \<open>Credential contexts\<close>

type_synonym headers = "(string \<times> string) list"

record fetchContext =
  cxCredentials :: string
  cxMode :: string
  cxHeaders :: "headers option"

text \<open>\<open>Object.keys(h).sort().join(',')\<close>, with the order of code units.\<close>

fun strLe :: "string \<Rightarrow> string \<Rightarrow> bool" where
  "strLe [] t = True"
| "strLe (c # s) [] = False"
| "strLe (c # s) (d # t) = (code c < code d \<or> code c = code d \<and> strLe s t)"

fun insertStr :: "string \<Rightarrow> string list \<Rightarrow> string list" where
  "insertStr x [] = [x]"
| "insertStr x (y # ys) = (if strLe x y then x # y # ys else y # insertStr x ys)"

definition sortStr :: "string list \<Rightarrow> string list" where
  "sortStr xs = foldr insertStr xs []"

definition contextKey :: "fetchContext \<Rightarrow> string" where
  "contextKey c = cxCredentials c @ ''::'' @ cxMode c @ ''::'' @
     joinWith '','' (sortStr (map fst (case cxHeaders c of None \<Rightarrow> [] | Some h \<Rightarrow> h)))"

fun dedupBy :: "('a \<Rightarrow> 'k) \<Rightarrow> 'k list \<Rightarrow> 'a list \<Rightarrow> 'a list" where
  "dedupBy f seen [] = []"
| "dedupBy f seen (x # xs) =
     (if f x \<in> set seen then dedupBy f seen xs else x # dedupBy f (f x # seen) xs)"

definition contextCandidates :: "headers option \<Rightarrow> fetchContext list" where
  "contextCandidates authHeaders =
     (let withAuth = (case authHeaders of
            Some (h # hs) \<Rightarrow>
              [\<lparr>cxCredentials = ''include'', cxMode = ''cors'', cxHeaders = Some (h # hs)\<rparr>,
               \<lparr>cxCredentials = ''same-origin'', cxMode = ''cors'', cxHeaders = Some (h # hs)\<rparr>]
          | _ \<Rightarrow> []);
          plain =
              [\<lparr>cxCredentials = ''same-origin'', cxMode = ''cors'', cxHeaders = None\<rparr>,
               \<lparr>cxCredentials = ''include'', cxMode = ''cors'', cxHeaders = None\<rparr>]
      in dedupBy contextKey [] (withAuth @ plain))"

section \<open>Requests, responses and the environment\<close>

text \<open>
  A body is a stream of chunks that may end in an error, or one of the two fallbacks for
  responses without a stream (\<open>arrayBuffer()\<close>, \<open>text()\<close>).
\<close>

datatype respBody = Stream "byte list list" "exn option" | ArrayBuffer "byte list" | TextOnly "byte list"

record response =
  rsStatus :: nat
  rsLocation :: "string option"
  rsLength :: "string option"
  rsBody :: respBody

record request =
  rqUrl :: string
  rqRedirect :: string
  rqHeaders :: "headers option"
  rqCredentials :: string
  rqMode :: string

record netEnv =
  net :: "nat \<Rightarrow> request \<Rightarrow> exn + response"
  sigAborted :: "nat \<Rightarrow> bool"
  random :: "nat \<Rightarrow> rat"
  parseUrl :: urlParser
  resolveUrl :: "string \<Rightarrow> string \<Rightarrow> string option"
  lookupAt :: "nat \<Rightarrow> resolver"
  utf8Decode :: "byte list \<Rightarrow> string"
  utf8Length :: "string \<Rightarrow> nat"

record netState =
  sent :: "request list"
  slept :: "rat list"

definition urlGuard :: "netEnv \<Rightarrow> netState \<Rightarrow> string \<Rightarrow> string + url" where
  "urlGuard env st u = guardStr (parseUrl env) (lookupAt env (length (sent st))) u"

text \<open>\<open>fetchOnce\<close>: an aborted signal aborts the request's own controller before it is sent.\<close>

definition fetchOnce :: "netEnv \<Rightarrow> fetchContext \<Rightarrow> string \<Rightarrow> netState \<Rightarrow> (exn + response) \<times> netState" where
  "fetchOnce env cx u st =
     (let q = \<lparr>rqUrl = u, rqRedirect = ''manual'', rqHeaders = cxHeaders cx,
               rqCredentials = cxCredentials cx, rqMode = cxMode cx\<rparr>;
          n = length (sent st)
      in (if sigAborted env n then Inl abortErr else net env n q, st\<lparr>sent := sent st @ [q]\<rparr>))"

definition contentLength :: "response \<Rightarrow> jsnum option" where
  "contentLength r = (case rsLength r of None \<Rightarrow> None
     | Some v \<Rightarrow> (let n = stringToNumber v in if isFiniteNum n then Some n else None))"

definition resOk :: "response \<Rightarrow> bool" where
  "resOk r \<longleftrightarrow> 200 \<le> rsStatus r \<and> rsStatus r < 300"

definition MAX_REDIRECTS :: nat where "MAX_REDIRECTS = 5"
definition MAX_RETRIES :: nat where "MAX_RETRIES = 3"
definition BASE_RETRY_MS :: nat where "BASE_RETRY_MS = 500"

definition httpErr :: "nat \<Rightarrow> exn" where
  "httpErr s = (dErr NETWORK_ERROR (''fetch failed: HTTP '' @ showNat s))\<lparr>xStatus := Some s\<rparr>"

definition bytesOf :: "nat \<Rightarrow> jsnum" where
  "bytesOf n = Fin (of_nat n)"

text \<open>The \<open>for\<close> loop of \<open>fetchResOne\<close>; the first argument is how many hops are left.\<close>

fun redirectLoop ::
  "nat \<Rightarrow> netEnv \<Rightarrow> jsnum \<Rightarrow> fetchContext \<Rightarrow> string \<Rightarrow> netState \<Rightarrow> (exn + response) \<times> netState" where
  "redirectLoop 0 env cap cx u st = (Inl (dErr NETWORK_ERROR ''too many redirects''), st)"
| "redirectLoop (Suc k) env cap cx u st =
     (case fetchOnce env cx u st of
        (Inl e, st1) \<Rightarrow> (Inl e, st1)
      | (Inr res, st1) \<Rightarrow>
          if 300 \<le> rsStatus res \<and> rsStatus res < 400 then
            (case rsLocation res of
               None \<Rightarrow> (Inl (dErr NETWORK_ERROR ''redirect response missing Location''), st1)
             | Some loc \<Rightarrow>
                 if loc = [] then (Inl (dErr NETWORK_ERROR ''redirect response missing Location''), st1)
                 else (case resolveUrl env loc u of
                   None \<Rightarrow> (Inl (dErr NETWORK_ERROR ''invalid redirect Location''), st1)
                 | Some v \<Rightarrow>
                     (case urlGuard env st1 v of
                        Inl m \<Rightarrow> (Inl (plainErr m), st1)
                      | Inr _ \<Rightarrow> redirectLoop k env cap cx v st1)))
          else if \<not> resOk res then (Inl (httpErr (rsStatus res)), st1)
          else (case contentLength res of
                  None \<Rightarrow> (Inr res, st1)
                | Some cl \<Rightarrow>
                    if cap < cl then (Inl (dErr NETWORK_ERROR ''response exceeds size cap''), st1)
                    else (Inr res, st1)))"

definition fetchResOne ::
  "netEnv \<Rightarrow> jsnum option \<Rightarrow> fetchContext \<Rightarrow> string \<Rightarrow> netState \<Rightarrow> (exn + response) \<times> netState" where
  "fetchResOne env bodyCap cx u st =
     (let cap = (case bodyCap of Some c \<Rightarrow> c | None \<Rightarrow> bytesOf (maxBodyBytes (classifyResource u)))
      in redirectLoop (Suc MAX_REDIRECTS) env cap cx u st)"

section \<open>Retries\<close>

text \<open>\<open>Math.min(BASE_RETRY_MS * 2 ** attempt, 8_000) + Math.random() * 250\<close>, rounded as doubles are.\<close>

definition retryBase :: "nat \<Rightarrow> nat" where
  "retryBase attempt = min (BASE_RETRY_MS * 2 ^ attempt) 8000"

fun finValue :: "jsnum \<Rightarrow> rat" where
  "finValue (Fin x) = x"
| "finValue _ = 0"

definition retryDelayMs :: "rat \<Rightarrow> nat \<Rightarrow> rat" where
  "retryDelayMs r attempt =
     finValue (roundDouble (of_nat (retryBase attempt) + finValue (roundDouble (r * 250))))"

text \<open>\<open>/private|link-local|host could not be resolved/i\<close>\<close>

definition NO_RETRY_RE :: re where
  "NO_RETRY_RE = rAlts (map (rLit True) [''private'', ''link-local'', ''host could not be resolved''])"

definition nonRetryable :: "exn \<Rightarrow> bool" where
  "nonRetryable e \<longleftrightarrow>
     (isDownloaderError e \<and> (exnCode e = Str DRM_DETECTED \<or> exnCode e = Str ANTI_BOT_BLOCK))
   \<or> (case xStatus e of Some s \<Rightarrow> s = 403 \<or> s = 404 \<or> s = 401 \<or> s = 410 | None \<Rightarrow> False)
   \<or> (exnMessage e \<noteq> [] \<and> reTest NO_RETRY_RE (exnMessage e))"

datatype tryResult = Fetched response | Fatal exn | Exhausted exn

text \<open>The inner loop: \<open>left\<close> attempts remain, \<open>attempt\<close> is the loop variable.\<close>

fun tryContext ::
  "nat \<Rightarrow> nat \<Rightarrow> netEnv \<Rightarrow> jsnum option \<Rightarrow> fetchContext \<Rightarrow> string \<Rightarrow> exn \<Rightarrow> netState \<Rightarrow> tryResult \<times> netState" where
  "tryContext 0 attempt env cap cx u lastError st = (Exhausted lastError, st)"
| "tryContext (Suc left) attempt env cap cx u lastError st =
     (case fetchResOne env cap cx u st of
        (Inr r, st1) \<Rightarrow> (Fetched r, st1)
      | (Inl e, st1) \<Rightarrow>
          if nonRetryable e then (Fatal e, st1)
          else let st2 = (if attempt < MAX_RETRIES
                          then st1\<lparr>slept := slept st1 @ [retryDelayMs (random env (length (slept st1))) attempt]\<rparr>
                          else st1)
               in tryContext left (Suc attempt) env cap cx u e st2)"

fun tryContexts ::
  "fetchContext list \<Rightarrow> netEnv \<Rightarrow> jsnum option \<Rightarrow> string \<Rightarrow> exn \<Rightarrow> netState \<Rightarrow> (exn + response) \<times> netState" where
  "tryContexts [] env cap u lastError st = (Inl lastError, st)"
| "tryContexts (cx # cxs) env cap u lastError st =
     (case tryContext (Suc MAX_RETRIES) 0 env cap cx u lastError st of
        (Fetched r, st1) \<Rightarrow> (Inr r, st1)
      | (Fatal e, st1) \<Rightarrow> (Inl e, st1)
      | (Exhausted e, st1) \<Rightarrow> tryContexts cxs env cap u e st1)"

text \<open>\<open>lastError\<close> starts as \<open>null\<close>; there is always a context, so the start value is never thrown.\<close>

definition fetchResWithRetry ::
  "netEnv \<Rightarrow> jsnum option \<Rightarrow> headers option \<Rightarrow> string \<Rightarrow> netState \<Rightarrow> (exn + response) \<times> netState" where
  "fetchResWithRetry env cap authHeaders u st =
     tryContexts (contextCandidates authHeaders) env cap u (plainErr []) st"

section \<open>Bodies\<close>

definition tooLarge :: exn where
  "tooLarge = dErr NETWORK_ERROR ''response body exceeds size cap''"

fun readChunks :: "jsnum \<Rightarrow> nat \<Rightarrow> byte list list \<Rightarrow> byte list list \<Rightarrow> exn option \<Rightarrow> exn + byte list" where
  "readChunks cap soFar chunks [] err = (case err of Some e \<Rightarrow> Inl e | None \<Rightarrow> Inr (concat (rev chunks)))"
| "readChunks cap soFar chunks (c # cs) err =
     (let soFar' = soFar + length c in
      if cap < bytesOf soFar' then Inl tooLarge
      else readChunks cap soFar' (c # chunks) cs err)"

definition readBodyCapped :: "response \<Rightarrow> jsnum \<Rightarrow> exn + byte list" where
  "readBodyCapped res cap = (case rsBody res of
     Stream cs err \<Rightarrow> readChunks cap 0 [] cs err
   | ArrayBuffer b \<Rightarrow> if cap < bytesOf (length b) then Inl tooLarge else Inr b
   | TextOnly b \<Rightarrow> if cap < bytesOf (length b) then Inl tooLarge else Inr b)"

definition capOf :: "jsnum option \<Rightarrow> string \<Rightarrow> jsnum" where
  "capOf bodyCap u = (case bodyCap of Some c \<Rightarrow> c | None \<Rightarrow> bytesOf (maxBodyBytes (classifyResource u)))"

definition fetchText ::
  "netEnv \<Rightarrow> jsnum option \<Rightarrow> headers option \<Rightarrow> string \<Rightarrow> netState \<Rightarrow> (exn + string) \<times> netState" where
  "fetchText env bodyCap authHeaders u st =
     (let cap = capOf bodyCap u in
      case fetchResWithRetry env bodyCap authHeaders u st of (r, st1) \<Rightarrow>
        (bindR r (\<lambda>res. bindR (readBodyCapped res cap) (\<lambda>b.
           let text = utf8Decode env b in
           if cap < bytesOf (utf8Length env text)
           then Inl (dErr NETWORK_ERROR (kindName (classifyResource u) @ '' body exceeds size cap''))
           else Inr text)), st1))"

type_synonym files = "string \<rightharpoonup> byte list"

text \<open>\<open>writeFile\<close> replaces the file or throws; which paths it throws for is an argument.\<close>

definition writeFileAt :: "(string \<Rightarrow> exn option) \<Rightarrow> string \<Rightarrow> byte list \<Rightarrow> files \<Rightarrow> exn + files" where
  "writeFileAt fails p b fs = (case fails p of Some e \<Rightarrow> Inl e | None \<Rightarrow> Inr (fs(p \<mapsto> b)))"

text \<open>
  \<open>fetchToFile\<close> writes only to an absolute, normalised path; it returns the byte count and the
  updated files.
\<close>

definition fetchToFile ::
  "netEnv \<Rightarrow> string \<Rightarrow> (string \<Rightarrow> exn option) \<Rightarrow> jsnum option \<Rightarrow> headers option \<Rightarrow> string \<Rightarrow> string
     \<Rightarrow> files \<Rightarrow> netState \<Rightarrow> (exn + nat \<times> files) \<times> netState" where
  "fetchToFile env wd fails bodyCap authHeaders u destPath fs st =
     (case fetchResWithRetry env bodyCap authHeaders u st of (r, st1) \<Rightarrow>
        (bindR r (\<lambda>res. bindR (readBodyCapped res (capOf bodyCap u)) (\<lambda>buf.
           if \<not> startsWith destPath ''/'' \<or> resolvePath wd destPath \<noteq> destPath
           then Inl (dErr NETWORK_ERROR ''refusing to write to a non-normalized path'')
           else bindR (writeFileAt fails destPath buf fs) (\<lambda>fs'. Inr (length buf, fs')))), st1))"

section \<open>Facts: body caps\<close>

lemma cap_mono: "cap < bytesOf m \<Longrightarrow> m \<le> n \<Longrightarrow> cap < bytesOf n"
  by (cases cap) (auto simp: bytesOf_def less_jsnum_def less_eq_jsnum_def)

lemma readChunks_spec:
  "readChunks cap n acc cs err =
     (if cs \<noteq> [] \<and> cap < bytesOf (n + length (concat cs)) then Inl tooLarge
      else case err of Some e \<Rightarrow> Inl e | None \<Rightarrow> Inr (concat (rev acc) @ concat cs))"
proof (induction cs arbitrary: n acc)
  case (Cons c cs)
  show ?case
  proof (cases "cap < bytesOf (n + length c)")
    case True
    then have "cap < bytesOf (n + length (concat (c # cs)))" by (rule cap_mono) simp
    with True show ?thesis by simp
  next
    case False
    then show ?thesis using Cons.IH [of "n + length c" "c # acc"]
      by (cases "cs = []") (auto simp: add.assoc split: option.splits)
  qed
qed (simp split: option.split)

section \<open>Facts: what a fetch may send\<close>

definition guarded :: "netEnv \<Rightarrow> string \<Rightarrow> bool" where
  "guarded env s \<longleftrightarrow> (\<exists>k. isOk (guardStr (parseUrl env) (lookupAt env k) s))"

text \<open>
  \<open>sends env b u st st'\<close>: between the two states at most \<open>b\<close> requests were sent, each to \<open>u\<close>
  itself or to a URL the guard accepted at that time.
\<close>

definition sends :: "netEnv \<Rightarrow> nat \<Rightarrow> string \<Rightarrow> netState \<Rightarrow> netState \<Rightarrow> bool" where
  "sends env b u st st' \<longleftrightarrow>
     (\<exists>qs. sent st' = sent st @ qs \<and> length qs \<le> b
        \<and> (\<forall>q\<in>set qs. (rqUrl q = u \<or> guarded env (rqUrl q)) \<and> rqRedirect q = ''manual''))"

lemma sends_refl: "sent st' = sent st \<Longrightarrow> sends env b u st st'"
  by (auto simp: sends_def)

lemma sends_trans: "sends env a u s1 s2 \<Longrightarrow> sends env b u s2 s3 \<Longrightarrow> sends env (a + b) u s1 s3"
proof -
  assume "sends env a u s1 s2" "sends env b u s2 s3"
  then obtain ps qs where "sent s2 = sent s1 @ ps" "length ps \<le> a"
      "sent s3 = sent s2 @ qs" "length qs \<le> b"
      "\<forall>q\<in>set ps. (rqUrl q = u \<or> guarded env (rqUrl q)) \<and> rqRedirect q = ''manual''"
      "\<forall>q\<in>set qs. (rqUrl q = u \<or> guarded env (rqUrl q)) \<and> rqRedirect q = ''manual''"
    unfolding sends_def by blast
  then show ?thesis unfolding sends_def by (intro exI [of _ "ps @ qs"]) auto
qed

lemma sends_mono: "sends env a u s1 s2 \<Longrightarrow> a \<le> b \<Longrightarrow> sends env b u s1 s2"
  unfolding sends_def using order_trans by blast

lemma sends_via: "sends env a v s1 s2 \<Longrightarrow> guarded env v \<Longrightarrow> sends env a u s1 s2"
  unfolding sends_def by fastforce

lemma sends_slept [simp]: "sends env a u s1 (s2\<lparr>slept := ds\<rparr>) \<longleftrightarrow> sends env a u s1 s2"
  by (simp add: sends_def)

lemma fetchOnce_sends: "fetchOnce env cx u st = (r, st') \<Longrightarrow> sends env 1 u st st'"
  by (auto simp: fetchOnce_def Let_def sends_def)

lemma urlGuard_guarded: "urlGuard env st u = Inr v \<Longrightarrow> guarded env u"
  by (auto simp: urlGuard_def guarded_def isOk_iff)

text \<open>One iteration of the redirect loop: it ends here, or goes on to a URL the guard accepted.\<close>

lemma redirectLoop_cases:
  assumes "redirectLoop (Suc k) env cap cx u st = (r, st')"
  obtains (stop) res where "fetchOnce env cx u st = (res, st')"
    | (hop) res st1 v where "fetchOnce env cx u st = (Inr res, st1)" "300 \<le> rsStatus res"
        "rsStatus res < 400" "isOk (urlGuard env st1 v)"
        "redirectLoop k env cap cx v st1 = (r, st')"
proof -
  obtain res st1 where f: "fetchOnce env cx u st = (res, st1)" by (cases "fetchOnce env cx u st")
  show thesis
  proof (cases res)
    case (Inl e)
    with assms f have "st' = st1" by simp
    with f stop show thesis by blast
  next
    case (Inr rs)
    show thesis
    proof (cases "300 \<le> rsStatus rs \<and> rsStatus rs < 400")
      case True
      show thesis
      proof (cases "\<exists>v. isOk (urlGuard env st1 v) \<and> redirectLoop k env cap cx v st1 = (r, st')")
        case True
        with hop f Inr \<open>300 \<le> rsStatus rs \<and> rsStatus rs < 400\<close> show thesis by blast
      next
        case False
        with assms f Inr True have "st' = st1"
          by (auto split: option.splits if_splits sum.splits simp: isOk_iff)
        with f stop show thesis by blast
      qed
    next
      case False
      with assms f Inr have "st' = st1" by (auto split: option.splits if_splits)
      with f stop show thesis by blast
    qed
  qed
qed

lemma redirectLoop_sends: "redirectLoop k env cap cx u st = (r, st') \<Longrightarrow> sends env k u st st'"
proof (induction k arbitrary: u st)
  case 0
  then show ?case by (simp add: sends_refl)
next
  case (Suc k)
  from Suc.prems show ?case
  proof (cases rule: redirectLoop_cases)
    case (stop res)
    then show ?thesis using fetchOnce_sends sends_mono by fastforce
  next
    case (hop res st1 v)
    have "guarded env v" using hop(4) by (auto simp: isOk_iff dest: urlGuard_guarded)
    with Suc.IH [OF hop(5)] have "sends env k u st1 st'" by (rule sends_via)
    with fetchOnce_sends [OF hop(1)] show ?thesis using sends_trans [of env 1 u st st1 k st'] by simp
  qed
qed

lemma fetchResOne_sends: "fetchResOne env cap cx u st = (r, st') \<Longrightarrow> sends env 6 u st st'"
  by (auto simp: fetchResOne_def Let_def MAX_REDIRECTS_def simp del: redirectLoop.simps
      dest: redirectLoop_sends)

lemma tryContext_sends:
  "tryContext left attempt env cap cx u e st = (r, st') \<Longrightarrow> sends env (6 * left) u st st'"
proof (induction left arbitrary: attempt e st)
  case 0
  then show ?case by (simp add: sends_refl)
next
  case (Suc left)
  obtain res st1 where f: "fetchResOne env cap cx u st = (res, st1)" by (cases "fetchResOne env cap cx u st")
  note s1 = fetchResOne_sends [OF f]
  show ?case
  proof (cases "\<exists>e1. res = Inl e1 \<and> \<not> nonRetryable e1")
    case False
    with Suc.prems f have "st' = st1" by (auto split: sum.splits if_splits)
    with s1 show ?thesis using sends_mono [of env 6] by simp
  next
    case True
    then obtain e1 where e1: "res = Inl e1" "\<not> nonRetryable e1" by blast
    define st2 where "st2 = (if attempt < MAX_RETRIES
      then st1\<lparr>slept := slept st1 @ [retryDelayMs (random env (length (slept st1))) attempt]\<rparr> else st1)"
    have "tryContext left (Suc attempt) env cap cx u e1 st2 = (r, st')"
      using Suc.prems f e1 by (simp add: st2_def Let_def)
    from Suc.IH [OF this] have "sends env (6 * left) u st2 st'" .
    moreover have "sends env 6 u st st2" using s1 by (simp add: st2_def)
    ultimately show ?thesis using sends_trans [of env 6 u st st2 "6 * left" st'] by simp
  qed
qed

lemma tryContexts_sends:
  "tryContexts cxs env cap u e st = (r, st') \<Longrightarrow> sends env (24 * length cxs) u st st'"
proof (induction cxs arbitrary: e st)
  case Nil
  then show ?case by (simp add: sends_refl)
next
  case (Cons cx cxs)
  obtain t st1 where f: "tryContext (Suc MAX_RETRIES) 0 env cap cx u e st = (t, st1)"
    by (cases "tryContext (Suc MAX_RETRIES) 0 env cap cx u e st")
  have s1: "sends env 24 u st st1" using tryContext_sends [OF f] by (simp add: MAX_RETRIES_def)
  show ?case
  proof (cases t)
    case (Exhausted e1)
    with Cons.prems f have "tryContexts cxs env cap u e1 st1 = (r, st')" by simp
    from Cons.IH [OF this] s1 show ?thesis
      using sends_trans [of env 24 u st st1 "24 * length cxs" st'] by simp
  qed (use Cons.prems f s1 sends_mono [of env 24] in auto)
qed

lemma dedupBy_length: "length (dedupBy f seen xs) \<le> length xs"
  by (induction xs arbitrary: seen) (auto simp: le_SucI)

lemma contextCandidates_length: "length (contextCandidates h) \<le> 4"
  unfolding contextCandidates_def Let_def
  by (rule order_trans [OF dedupBy_length]) (auto split: option.splits list.splits)

lemma fetchResWithRetry_sends: "fetchResWithRetry env cap h u st = (r, st') \<Longrightarrow> sends env 96 u st st'"
  unfolding fetchResWithRetry_def
  using tryContexts_sends contextCandidates_length [of h] sends_mono [of env "24 * length (contextCandidates h)" u st st' 96]
  by fastforce

text \<open>The first terminal error ends the whole retry loop.\<close>

lemma contextCandidates_Cons: "\<exists>cx cxs. contextCandidates h = cx # cxs"
  by (auto simp: contextCandidates_def Let_def split: option.splits list.splits)

lemma tryContexts_fatal:
  assumes "fetchResOne env cap cx u st = (Inl e, st1)" "nonRetryable e"
  shows "tryContexts (cx # cxs) env cap u e0 st = (Inl e, st1)"
  using assms by simp

lemma retryDelay_bounds:
  assumes "0 \<le> r" "r \<le> 1"
  shows "of_nat (retryBase a) \<le> retryDelayMs r a \<and> retryDelayMs r a \<le> of_nat (retryBase a) + 250"
proof -
  have "\<exists>v. roundDouble (r * 250) = Fin v \<and> of_int 0 \<le> v \<and> v \<le> of_int 250"
    using assms by (intro roundDouble_bounds) auto
  then obtain v where v: "roundDouble (r * 250) = Fin v" "0 \<le> v" "v \<le> 250" by auto
  have b: "retryBase a \<le> 8000" by (simp add: retryBase_def)
  have "\<exists>w. roundDouble (of_nat (retryBase a) + v) = Fin w \<and> of_int (int (retryBase a)) \<le> w
      \<and> w \<le> of_int (int (retryBase a) + 250)"
    using v b by (intro roundDouble_bounds) auto
  then show ?thesis using v by (auto simp: retryDelayMs_def)
qed

section \<open>Properties\<close>


text \<open>\<open>readBodyCapped\<close> returns the whole body, and only when it fits the cap; a stream that
  fails under the cap fails with its own error.\<close>

theorem readBodyCapped_spec:
  "readBodyCapped res cap = (case rsBody res of
     Stream cs err \<Rightarrow>
       if cs \<noteq> [] \<and> cap < bytesOf (length (concat cs)) then Inl tooLarge
       else (case err of Some e \<Rightarrow> Inl e | None \<Rightarrow> Inr (concat cs))
   | ArrayBuffer b \<Rightarrow> if cap < bytesOf (length b) then Inl tooLarge else Inr b
   | TextOnly b \<Rightarrow> if cap < bytesOf (length b) then Inl tooLarge else Inr b)"
  by (auto simp: readBodyCapped_def readChunks_spec split: respBody.split option.split)

text \<open>an error that must not be retried (DRM, anti-bot, 401, 403, 404, 410, a rejected
  address) ends the fetch at once: it is the result, one pass of hops was made and nothing was
  slept.\<close>

theorem terminal_error_not_retried:
  assumes "fetchResOne env cap (hd (contextCandidates h)) u st = (Inl e, st1)" "nonRetryable e"
  shows "fetchResWithRetry env cap h u st = (Inl e, st1)"
proof -
  obtain cx cxs where c: "contextCandidates h = cx # cxs" using contextCandidates_Cons by blast
  then show ?thesis
    using tryContexts_fatal [of env cap cx u st e st1 cxs] assms by (simp add: fetchResWithRetry_def)
qed

definition sampleNet :: "nat \<Rightarrow> netEnv" where
  "sampleNet status =
     \<lparr>net = \<lambda>n q. Inr \<lparr>rsStatus = status, rsLocation = Some ''/next'', rsLength = None, rsBody = Stream [] None\<rparr>,
      sigAborted = \<lambda>_. False, random = \<lambda>_. 0,
      parseUrl = \<lambda>s. Some \<lparr>protocol = ''https:'', hostname = ''h'', pathname = s, href = s\<rparr>,
      resolveUrl = \<lambda>rel base. Some rel, lookupAt = \<lambda>_ _. Some (DnsList [EStr ''93.184.216.34'']),
      utf8Decode = map (\<lambda>b. char_of (unat b)), utf8Length = length\<rparr>"

theorem terminal_error_not_retried_witness:
  "sent (snd (fetchResWithRetry (sampleNet 403) None None ''u'' \<lparr>sent = [], slept = []\<rparr>)) =
     [\<lparr>rqUrl = ''u'', rqRedirect = ''manual'', rqHeaders = None, rqCredentials = ''same-origin'', rqMode = ''cors''\<rparr>]"
proof -
  have c: "hd (contextCandidates None) = \<lparr>cxCredentials = ''same-origin'', cxMode = ''cors'', cxHeaders = None\<rparr>"
    by code_simp
  have f: "fetchResOne (sampleNet 403) None (hd (contextCandidates None)) ''u'' \<lparr>sent = [], slept = []\<rparr> =
      (Inl (httpErr 403),
       \<lparr>sent = [\<lparr>rqUrl = ''u'', rqRedirect = ''manual'', rqHeaders = None, rqCredentials = ''same-origin'',
                 rqMode = ''cors''\<rparr>], slept = []\<rparr>)"
    by (simp add: c fetchResOne_def MAX_REDIRECTS_def Let_def eval_nat_numeral)
      (simp add: fetchOnce_def sampleNet_def resOk_def Let_def)
  have "nonRetryable (httpErr 403)" by (simp add: nonRetryable_def httpErr_def)
  with terminal_error_not_retried [OF f] show ?thesis by simp
qed

text \<open>Every retry delay lies between the capped exponential base, at most 8 s, and that base
  plus 250 ms, and the bases never shrink from one attempt to the next.\<close>

theorem retryDelay_range:
  assumes "0 \<le> r" "r \<le> 1"
  shows "of_nat (retryBase a) \<le> retryDelayMs r a \<and> retryDelayMs r a \<le> of_nat (retryBase a) + 250
    \<and> retryBase a \<le> retryBase (Suc a) \<and> retryBase a \<le> 8000"
  using retryDelay_bounds [OF assms] by (auto simp: retryBase_def)

theorem retryDelay_range_witness:
  "1000 \<le> retryDelayMs (1 / 2) 1 \<and> retryDelayMs (1 / 2) 1 \<le> 1250"
  using retryDelay_range [of "1 / 2" 1] by (simp add: retryBase_def BASE_RETRY_MS_def)

end
