(* ===== verification/Hls.thy ===== *)
theory Hls
  imports Fetch
begin

text \<open>
  HLS playlists in \<open>streamlink-backend.js\<close>: the key tag, AES-128 segment decryption (the cipher
  itself is an argument), the DRM test, the choice of a variant, and the walk over a media
  playlist that assigns a key to every segment.
\<close>

type_synonym cipher = "byte list \<Rightarrow> byte list \<Rightarrow> byte list \<Rightarrow> byte list option"

section \<open>Key tags\<close>

text \<open>\<open>/METHOD=([^,\s]+)/\<close>, \<open>/KEYFORMAT="?([^",\s]+)/\<close>, \<open>/URI="([^"]+)"/\<close> and
  \<open>/IV=0x([0-9a-fA-F]{32})/\<close>\<close>

definition quoteChar :: char where
  "quoteChar = CHR 34"

definition METHOD_RE :: re where
  "METHOD_RE = RSeq (rLit False ''METHOD='') (RCap 1 (rPlus (RCls (\<lambda>c. c \<noteq> CHR '','' \<and> \<not> isSpace c))))"

definition KEYFORMAT_RE :: re where
  "KEYFORMAT_RE = rSeqs [rLit False ''KEYFORMAT='', rOpt (rChr False quoteChar),
     RCap 1 (rPlus (RCls (\<lambda>c. c \<noteq> quoteChar \<and> c \<noteq> CHR '','' \<and> \<not> isSpace c)))]"

definition URI_RE :: re where
  "URI_RE = rSeqs [rLit False ''URI='', rChr False quoteChar,
     RCap 1 (rPlus (RCls (\<lambda>c. c \<noteq> quoteChar))), rChr False quoteChar]"

definition IV_RE :: re where
  "IV_RE = RSeq (rLit False ''IV=0x'') (RCap 1 (rTimes 32 (RCls (isRadixDigit 16))))"

record keyTag =
  ktUri :: string
  ktIvHex :: "string option"

definition parseHlsKeyTag :: "string \<Rightarrow> exn + keyTag option" where
  "parseHlsKeyTag line =
     (let meth = map_option (\<lambda>m. toUpper (trim m)) (reGroup METHOD_RE 1 line) in
      if meth \<noteq> Some ''AES-128'' then Inr None
      else if (case reGroup KEYFORMAT_RE 1 line of None \<Rightarrow> False | Some k \<Rightarrow> k \<noteq> [] \<and> toUpper k \<noteq> ''IDENTITY'')
      then Inl (dErr DRM_DETECTED ''non-identity KEYFORMAT in #EXT-X-KEY'')
      else (case reGroup URI_RE 1 line of
          None \<Rightarrow> Inl (dErr DRM_DETECTED ''AES-128 #EXT-X-KEY missing URI'')
        | Some uri \<Rightarrow>
            if uri = [] then Inl (dErr DRM_DETECTED ''AES-128 #EXT-X-KEY missing URI'')
            else Inr (Some \<lparr>ktUri = uri, ktIvHex = reGroup IV_RE 1 line\<rparr>)))"

section \<open>Segment decryption\<close>

text \<open>\<open>Buffer.from(s, 'hex')\<close> stops at the first pair that is not two hex digits.\<close>

fun hexBytes :: "string \<Rightarrow> byte list" where
  "hexBytes (a # b # s) =
     (if isRadixDigit 16 a \<and> isRadixDigit 16 b
      then of_nat (16 * digitOf a + digitOf b) # hexBytes s else [])"
| "hexBytes _ = []"

text \<open>\<open>n.toString(16)\<close> of an integer.\<close>

definition showHexInt :: "int \<Rightarrow> string" where
  "showHexInt n = (if n < 0 then CHR ''-'' # showHex (nat (- n)) else showHex (nat n))"

definition segmentIv :: "string option \<Rightarrow> int \<Rightarrow> byte list" where
  "segmentIv ivHex ms = (case ivHex of
     Some h \<Rightarrow> if h \<noteq> [] then hexBytes h else hexBytes (padStart 32 CHR ''0'' (showHexInt ms))
   | None \<Rightarrow> hexBytes (padStart 32 CHR ''0'' (showHexInt ms)))"

text \<open>\<open>createDecipheriv\<close> refuses an initialization vector that is not 16 bytes long.\<close>

definition invalidIv :: exn where
  "invalidIv = mkExn TypeErrorC ''TypeError'' ''Invalid initialization vector'' (Str ''ERR_CRYPTO_INVALID_IV'')"

definition decryptHlsSegment ::
  "cipher \<Rightarrow> byte list \<Rightarrow> byte list \<Rightarrow> string option \<Rightarrow> int \<Rightarrow> exn + byte list" where
  "decryptHlsSegment aes segmentBuf keyBuf ivHex mediaSequence =
     (if length keyBuf \<noteq> 16
      then Inl (dErr NETWORK_ERROR (''AES-128 key has invalid length '' @ showNat (length keyBuf) @ '' (expected 16)''))
      else let iv = segmentIv ivHex mediaSequence in
        if length iv \<noteq> 16 then Inl invalidIv
        else (case aes keyBuf iv segmentBuf of
            None \<Rightarrow> Inl (dErr NETWORK_ERROR ''failed to decrypt HLS segment (corrupt or wrong key)'')
          | Some b \<Rightarrow> Inr b))"

section \<open>DRM detection\<close>

definition KEY_TAG_RE :: re where
  "KEY_TAG_RE = RSeq (rLit True ''#EXT-X-'') (RAlt (rLit True ''KEY'') (rLit True ''SESSION-KEY''))"

definition HLS_DRM_RE :: re where
  "HLS_DRM_RE = rSeqs [KEY_TAG_RE, rLit True '':'', RStar rDot, rLit True ''METHOD='',
     rAlts [rLit True ''SAMPLE-AES'', rLit True ''SAMPLE-AES-CTR'', rLit True ''SAMPLE-AES-CENC'']]"

definition HLS_DRM_KEYFORMAT_RE :: re where
  "HLS_DRM_KEYFORMAT_RE = rSeqs [KEY_TAG_RE, rLit True '':'', RStar rDot, rLit True ''KEYFORMAT='',
     rChr True quoteChar, RNotAhead (rLit True ''identity''), rPlus rDot, rChr True quoteChar]"

definition isDrmEncrypted :: "string \<Rightarrow> bool" where
  "isDrmEncrypted manifestText \<longleftrightarrow>
     reTest HLS_DRM_RE manifestText \<or> reTest HLS_DRM_KEYFORMAT_RE manifestText"

text \<open>\<open>/\.m3u8([?#]|$)/i\<close> and \<open>/\.mpd([?#]|$)/i\<close>\<close>

definition HLS_RE :: re where
  "HLS_RE = RSeq (rLit True ''.m3u8'') (RAlt (RCls (\<lambda>c. c = CHR ''?'' \<or> c = CHR ''#'')) REos)"

definition DASH_RE :: re where
  "DASH_RE = RSeq (rLit True ''.mpd'') (RAlt (RCls (\<lambda>c. c = CHR ''?'' \<or> c = CHR ''#'')) REos)"

section \<open>Variants\<close>

definition BANDWIDTH_RE :: re where
  "BANDWIDTH_RE = RSeq (rLit False ''BANDWIDTH='') (RCap 1 (rPlus (RCls isDigit)))"

definition trimmedLines :: "string \<Rightarrow> string list" where
  "trimmedLines text = map trim (splitOn (CHR 10) text)"

definition lineBandwidth :: "string \<Rightarrow> jsnum" where
  "lineBandwidth line =
     (case reGroup BANDWIDTH_RE 1 line of Some d \<Rightarrow> parseInt 10 d | None \<Rightarrow> Fin 0)"

text \<open>What one iteration of the loop offers: the variant's URL and bandwidth, or \<open>continue\<close>.\<close>

definition variantAt ::
  "netEnv \<Rightarrow> netState \<Rightarrow> string \<Rightarrow> string \<Rightarrow> string list \<Rightarrow> (string \<times> jsnum) option" where
  "variantAt env st baseUrl line following =
     (if \<not> startsWith line ''#EXT-X-STREAM-INF'' then None
      else (case following of
          [] \<Rightarrow> None
        | uriLine # _ \<Rightarrow>
            if uriLine = [] \<or> startsWith uriLine ''#'' then None
            else (case resolveUrl env uriLine baseUrl of
                None \<Rightarrow> None
              | Some href' \<Rightarrow> if isOk (urlGuard env st href') then Some (href', lineBandwidth line) else None)))"

fun pickVariantLoop ::
  "netEnv \<Rightarrow> netState \<Rightarrow> string \<Rightarrow> (string \<times> jsnum) option \<Rightarrow> string list \<Rightarrow> (string \<times> jsnum) option" where
  "pickVariantLoop env st baseUrl best [] = best"
| "pickVariantLoop env st baseUrl best (line # ls) =
     (case variantAt env st baseUrl line ls of
        None \<Rightarrow> pickVariantLoop env st baseUrl best ls
      | Some (u, bandwidth) \<Rightarrow>
          let best' = (case best of
                None \<Rightarrow> Some (u, bandwidth)
              | Some (_, b) \<Rightarrow> if b < bandwidth then Some (u, bandwidth) else best)
          in pickVariantLoop env st baseUrl best' ls)"

definition pickVariantUrl :: "netEnv \<Rightarrow> netState \<Rightarrow> string \<Rightarrow> string \<Rightarrow> string option" where
  "pickVariantUrl env st manifestText baseUrl =
     map_option fst (pickVariantLoop env st baseUrl None (trimmedLines manifestText))"

section \<open>Media playlists\<close>

record segment =
  sgUri :: string
  sgKey :: "keyTag option"

text \<open>\<open>mediaSequence\<close> is the integer value of the double \<open>parseInt\<close> returned.\<close>

record walk =
  wSegments :: "segment list"
  wSequence :: int
  wKey :: "keyTag option"
  wSession :: "keyTag option"

definition MEDIA_SEQUENCE :: string where "MEDIA_SEQUENCE = ''#EXT-X-MEDIA-SEQUENCE:''"
definition SESSION_KEY :: string where "SESSION_KEY = ''#EXT-X-SESSION-KEY:''"
definition MEDIA_KEY :: string where "MEDIA_KEY = ''#EXT-X-KEY:''"

definition walkLine :: "walk \<Rightarrow> string \<Rightarrow> exn + walk" where
  "walkLine w line =
     (if line = [] then Inr w
      else if startsWith line ''#'' then
        (if startsWith line MEDIA_SEQUENCE then
           (case parseInt 10 (drop (length MEDIA_SEQUENCE) line) of
              Fin x \<Rightarrow> Inr (w\<lparr>wSequence := \<lfloor>x\<rfloor>\<rparr>) | _ \<Rightarrow> Inr w)
         else if startsWith line SESSION_KEY then
           bindR (parseHlsKeyTag line) (\<lambda>k. Inr (w\<lparr>wSession := k\<rparr>))
         else if startsWith line MEDIA_KEY then
           bindR (parseHlsKeyTag line) (\<lambda>k. Inr (w\<lparr>wKey := k\<rparr>))
         else Inr w)
      else Inr (w\<lparr>wSegments := wSegments w @
        [\<lparr>sgUri = line, sgKey = (case wKey w of Some k \<Rightarrow> Some k | None \<Rightarrow> wSession w)\<rparr>]\<rparr>))"

fun walkLines :: "walk \<Rightarrow> string list \<Rightarrow> exn + walk" where
  "walkLines w [] = Inr w"
| "walkLines w (l # ls) = bindR (walkLine w l) (\<lambda>w'. walkLines w' ls)"

definition emptyWalk :: walk where
  "emptyWalk = \<lparr>wSegments = [], wSequence = 0, wKey = None, wSession = None\<rparr>"

definition walkPlaylist :: "string \<Rightarrow> exn + walk" where
  "walkPlaylist text = walkLines emptyWalk (trimmedLines text)"

text \<open>\<open>mediaSequence + i\<close> in double arithmetic.\<close>

definition sequenceAt :: "int \<Rightarrow> nat \<Rightarrow> int" where
  "sequenceAt ms i = \<lfloor>finValue (roundDouble (of_int (ms + int i)))\<rfloor>"

section \<open>Facts: hexadecimal bytes\<close>

lemma radixDigit_less: "isRadixDigit r c \<Longrightarrow> digitOf c < r"
  by (auto simp: isRadixDigit_def digitOf_def split: option.splits)

lemma hexBytes_spec:
  "even (length s) \<Longrightarrow> list_all (isRadixDigit 16) s \<Longrightarrow>
     length (hexBytes s) = length s div 2
   \<and> foldl (\<lambda>v b. 256 * v + unat b) a (hexBytes s) = foldl (\<lambda>v c. 16 * v + digitOf c) a s"
proof (induction s arbitrary: a rule: hexBytes.induct)
  case (1 x y s)
  have d: "digitOf x < 16" "digitOf y < 16" using "1.prems" by (auto intro: radixDigit_less)
  then have "unat (of_nat (16 * digitOf x + digitOf y) :: byte) = 16 * digitOf x + digitOf y"
    by (subst unat_of_nat) simp
  with 1 show ?case by (simp add: algebra_simps)
qed auto

lemma length_showRadix: "2 \<le> r \<Longrightarrow> n < r ^ k \<Longrightarrow> 0 < k \<Longrightarrow> length (showRadix r n) \<le> k"
proof (induction r n arbitrary: k rule: showRadix.induct)
  case (1 r n)
  show ?case
  proof (cases "n < r")
    case True
    with 1 show ?thesis by (subst showRadix.simps) simp
  next
    case False
    with "1.prems" obtain j where k: "k = Suc j" by (cases k) auto
    have "0 < j" using False "1.prems"(2) by (cases j) (auto simp: k)
    moreover have "n div r < r ^ j"
      using "1.prems" by (simp add: k less_mult_imp_div_less mult.commute)
    ultimately have "length (showRadix r (n div r)) \<le> j" using 1 False by simp
    with False "1.prems" show ?thesis by (subst showRadix.simps) (simp add: k)
  qed
qed

lemma foldl_zeros [simp]: "foldl (\<lambda>v c. 16 * v + digitOf c) 0 (replicate k CHR ''0'') = 0"
proof -
  have "digitOf CHR ''0'' = 0" by (simp add: digitOf_def digitVal_def code_def)
  then show ?thesis by (induction k) simp_all
qed

lemma zero_digit: "isRadixDigit 16 CHR ''0''"
  by (simp add: isRadixDigit_def digitVal_def code_def)

lemma defaultIv:
  assumes "n < 2 ^ 128"
  shows "length (segmentIv None (int n)) = 16
    \<and> foldl (\<lambda>v b. 256 * v + unat b) 0 (segmentIv None (int n)) = n"
proof -
  define s where "s = padStart 32 CHR ''0'' (showHex n)"
  have "n < 16 ^ 32" using assms by (simp add: power_mult [symmetric, of 2 4 32])
  then have "length (showHex n) \<le> 32" by (intro length_showRadix) simp_all
  then have len: "length s = 32" by (simp add: s_def padStart_def)
  have hex: "list_all (isRadixDigit 16) s"
    using showRadix_digits [of 16 _ n] zero_digit by (auto simp: s_def padStart_def list_all_iff)
  have "segmentIv None (int n) = hexBytes s" by (simp add: segmentIv_def showHexInt_def s_def)
  with hexBytes_spec [OF _ hex, of 0] len show ?thesis
    using radixValue_showRadix [of 16 n, unfolded radixValue_def]
    by (simp add: s_def padStart_def)
qed

section \<open>Facts: key tags\<close>

lemma parseHlsKeyTag_ok:
  assumes "parseHlsKeyTag line = Inr (Some k)"
  shows "ktUri k \<noteq> [] \<and> quoteChar \<notin> set (ktUri k)
    \<and> (case ktIvHex k of None \<Rightarrow> True | Some h \<Rightarrow> length h = 32 \<and> list_all (isRadixDigit 16) h)"
proof -
  obtain uri where u: "reGroup URI_RE 1 line = Some uri" "k = \<lparr>ktUri = uri, ktIvHex = reGroup IV_RE 1 line\<rparr>"
    using assms by (auto simp: parseHlsKeyTag_def Let_def split: option.splits if_splits)
  define A where "A = RSeq (rLit False ''URI='') (rChr False quoteChar)"
  have "\<exists>p t c p' v c'. (p', v, c') \<in> set (reRun (rPlus (RCls (\<lambda>c. c \<noteq> quoteChar))) (p, t, c))
      \<and> uri = take (length t - length v) t"
  proof -
    obtain y where y: "reSearch URI_RE [] line = Some y" "map_of (snd (snd y)) 1 = Some uri"
      using u(1) by (auto simp: reGroup_def split: option.splits)
    from reSearch_Some [OF y(1)] obtain a v where "y \<in> set (reRun URI_RE (rev a @ [], v, []))" by blast
    then obtain p t c p' v' c' where
        m: "(p', v', c') \<in> set (reRun (rPlus (RCls (\<lambda>c. c \<noteq> quoteChar))) (p, t, c))" and
        "snd (snd y) = (1, take (length t - length v') t) # c'"
      by (auto simp: URI_RE_def case_prod_unfold rChr_def split: list.splits if_splits)
    with y(2) have "uri = take (length t - length v') t" by simp
    with m show ?thesis by blast
  qed
  then have "uri \<noteq> [] \<and> (\<forall>x\<in>set uri. x \<noteq> quoteChar)" by (auto dest!: reRun_rPlus_cls)
  moreover have "length h = 32 \<and> list_all (isRadixDigit 16) h" if "reGroup IV_RE 1 line = Some h" for h
    using reGroup_times [OF that [unfolded IV_RE_def]] by (simp add: list_all_iff)
  ultimately show ?thesis using u(2) by (auto split: option.splits)
qed

lemma explicitIv:
  assumes "parseHlsKeyTag line = Inr (Some k)" "ktIvHex k = Some h"
  shows "length (segmentIv (Some h) ms) = 16"
proof -
  have "length h = 32" "list_all (isRadixDigit 16) h"
    using parseHlsKeyTag_ok [OF assms(1)] assms(2) by simp_all
  moreover from this have "h \<noteq> []" by auto
  ultimately show ?thesis using hexBytes_spec [of h 0] by (simp add: segmentIv_def)
qed

lemma segmentIv_length:
  assumes "parseHlsKeyTag line = Inr (Some k)" "0 \<le> ms" "ms < 2 ^ 128"
  shows "length (segmentIv (ktIvHex k) ms) = 16"
proof (cases "ktIvHex k")
  case None
  with defaultIv [of "nat ms"] assms(2,3) show ?thesis by (simp add: nat_less_iff)
next
  case (Some h)
  with explicitIv [OF assms(1)] show ?thesis by simp
qed

section \<open>Facts: variants\<close>

fun variantOffers :: "netEnv \<Rightarrow> netState \<Rightarrow> string \<Rightarrow> string list \<Rightarrow> (string \<times> jsnum) list" where
  "variantOffers env st baseUrl [] = []"
| "variantOffers env st baseUrl (line # ls) =
     (case variantAt env st baseUrl line ls of None \<Rightarrow> [] | Some x \<Rightarrow> [x]) @ variantOffers env st baseUrl ls"

lemma roundDouble_not_NaN [simp]: "roundDouble x \<noteq> NaN"
  by (simp add: roundDouble_def Let_def)

lemma lineBandwidth_not_NaN: "lineBandwidth line \<noteq> NaN"
proof (cases "reGroup BANDWIDTH_RE 1 line")
  case (Some d)
  have d: "d \<noteq> []" "\<forall>x\<in>set d. isDigit x"
    using reGroup_plus [OF Some [unfolded BANDWIDTH_RE_def]] by simp_all
  then have "trimStart d = d" using isDigit_not_space by (intro trim_no_space) auto
  moreover have "splitSign d = (False, d)" using d by (intro splitSign_digits [of _ 10]) auto
  ultimately have "parseInt 10 d \<noteq> NaN" using d by (simp add: parseInt_def takeWhile_all)
  with Some show ?thesis by (simp add: lineBandwidth_def)
qed (simp add: lineBandwidth_def)

lemma variantAt_bandwidth: "variantAt env st base line ls = Some (u, b) \<Longrightarrow> b \<noteq> NaN"
  using lineBandwidth_not_NaN by (auto simp: variantAt_def split: if_splits list.splits option.splits)

lemma variantOffers_bandwidth: "(u, b) \<in> set (variantOffers env st base ls) \<Longrightarrow> b \<noteq> NaN"
  by (induction ls) (auto split: option.splits dest: variantAt_bandwidth [OF sym])

definition firstBest :: "(string \<times> jsnum) list \<Rightarrow> (string \<times> jsnum) \<Rightarrow> bool" where
  "firstBest xs x \<longleftrightarrow> (\<exists>ys zs. xs = ys @ x # zs \<and> (\<forall>y\<in>set ys. snd y < snd x) \<and> (\<forall>z\<in>set zs. snd z \<le> snd x))"

lemma jsnum_linear: "a \<noteq> NaN \<Longrightarrow> b \<noteq> NaN \<Longrightarrow> \<not> a < b \<longleftrightarrow> b \<le> a" for a b :: jsnum
  by (cases a; cases b) (auto simp: less_jsnum_def less_eq_jsnum_def)

lemma jsnum_trans: "a \<le> b \<Longrightarrow> b < c \<Longrightarrow> a < c" "a < b \<Longrightarrow> b < c \<Longrightarrow> a < c" for a b c :: jsnum
  by (cases a; cases b; cases c; auto simp: less_jsnum_def less_eq_jsnum_def)+

lemma firstBest_snoc:
  assumes "firstBest xs x" "snd x \<noteq> NaN" "snd y \<noteq> NaN"
  shows "firstBest (xs @ [y]) (if snd x < snd y then y else x)"
proof (cases "snd x < snd y")
  case True
  have "snd z < snd y" if "z \<in> set xs" for z
    using assms(1) that True by (auto simp: firstBest_def) (blast intro: jsnum_trans)+
  then have "firstBest (xs @ [y]) y"
    unfolding firstBest_def by (intro exI [of _ xs] exI [of _ "[]"]) simp
  with True show ?thesis by simp
next
  case False
  then have "snd y \<le> snd x" using assms(2,3) by (simp add: jsnum_linear)
  moreover obtain ys zs where "xs = ys @ x # zs" "\<forall>y\<in>set ys. snd y < snd x" "\<forall>z\<in>set zs. snd z \<le> snd x"
    using assms(1) unfolding firstBest_def by blast
  ultimately have "firstBest (xs @ [y]) x"
    unfolding firstBest_def by (intro exI [of _ ys] exI [of _ "zs @ [y]"]) auto
  with False show ?thesis by simp
qed

text \<open>The loop keeps the first of the best offers seen so far.\<close>

lemma pickVariantLoop_best:
  assumes "case best of None \<Rightarrow> pre = [] | Some x \<Rightarrow> firstBest pre x \<and> snd x \<noteq> NaN"
  shows "case pickVariantLoop env st base best ls of
      None \<Rightarrow> pre @ variantOffers env st base ls = []
    | Some x \<Rightarrow> firstBest (pre @ variantOffers env st base ls) x"
  using assms
proof (induction ls arbitrary: best pre)
  case Nil
  then show ?case by (auto split: option.splits)
next
  case (Cons line ls)
  show ?case
  proof (cases "variantAt env st base line ls")
    case None
    with Cons.IH [OF Cons.prems] show ?thesis by (simp cong: option.case_cong)
  next
    case (Some o1)
    obtain u b where ub: "o1 = (u, b)" by (cases o1)
    have nan: "b \<noteq> NaN" using variantAt_bandwidth Some ub by blast
    define best' where "best' = (case best of
        None \<Rightarrow> Some (u, b) | Some (_, c) \<Rightarrow> if c < b then Some (u, b) else best)"
    have "case best' of None \<Rightarrow> pre @ [(u, b)] = [] | Some x \<Rightarrow> firstBest (pre @ [(u, b)]) x \<and> snd x \<noteq> NaN"
    proof (cases best)
      case None
      with Cons.prems nan show ?thesis
        by (auto simp: best'_def firstBest_def intro: exI [of _ "[]"])
    next
      case (Some x)
      with Cons.prems have x: "firstBest pre x" "snd x \<noteq> NaN" by simp_all
      obtain v c where vc: "x = (v, c)" by (cases x)
      show ?thesis using firstBest_snoc [OF x, of "(u, b)"] x(2) nan Some
        by (auto simp: best'_def vc)
    qed
    from Cons.IH [OF this] show ?thesis using Some
      by (simp add: ub best'_def Let_def cong: option.case_cong)
  qed
qed

section \<open>Facts: the walk\<close>

lemma walkLines_append: "walkLines w (xs @ ys) = bindR (walkLines w xs) (\<lambda>v. walkLines v ys)"
proof (induction xs arbitrary: w)
  case (Cons x xs)
  then show ?case by (cases "walkLine w x") simp_all
qed simp

definition isSegmentLine :: "string \<Rightarrow> bool" where
  "isSegmentLine l \<longleftrightarrow> l \<noteq> [] \<and> \<not> startsWith l ''#''"

text \<open>The key the last tag with the given prefix declares.\<close>

definition lastKey :: "string \<Rightarrow> string list \<Rightarrow> keyTag option" where
  "lastKey tag ls = foldl (\<lambda>k l. if startsWith l tag then (case parseHlsKeyTag l of Inr k' \<Rightarrow> k' | Inl _ \<Rightarrow> k) else k) None ls"

definition keyAt :: "string list \<Rightarrow> nat \<Rightarrow> keyTag option" where
  "keyAt ls i = (case lastKey MEDIA_KEY (take i ls) of
     Some k \<Rightarrow> Some k | None \<Rightarrow> lastKey SESSION_KEY (take i ls))"

definition specSegments :: "string list \<Rightarrow> segment list" where
  "specSegments ls =
     map (\<lambda>i. \<lparr>sgUri = ls ! i, sgKey = keyAt ls i\<rparr>) (filter (\<lambda>i. isSegmentLine (ls ! i)) [0..<length ls])"

lemma specSegments_snoc:
  "specSegments (ls @ [l]) = specSegments ls @
     (if isSegmentLine l then [\<lparr>sgUri = l, sgKey = keyAt (ls @ [l]) (length ls)\<rparr>] else [])"
proof -
  have "filter (\<lambda>i. isSegmentLine ((ls @ [l]) ! i)) [0..<length ls] = filter (\<lambda>i. isSegmentLine (ls ! i)) [0..<length ls]"
    by (rule filter_cong) (auto simp: nth_append)
  then show ?thesis by (auto simp: specSegments_def keyAt_def nth_append cong: option.case_cong)
qed

lemma tags_disjoint:
  "startsWith l SESSION_KEY \<Longrightarrow> \<not> startsWith l MEDIA_KEY"
  "startsWith l MEDIA_SEQUENCE \<Longrightarrow> \<not> startsWith l MEDIA_KEY \<and> \<not> startsWith l SESSION_KEY"
  "startsWith l MEDIA_KEY \<Longrightarrow> startsWith l ''#''" "startsWith l SESSION_KEY \<Longrightarrow> startsWith l ''#''"
  "startsWith l MEDIA_SEQUENCE \<Longrightarrow> startsWith l ''#''"
  by (auto simp: SESSION_KEY_def MEDIA_KEY_def MEDIA_SEQUENCE_def elim!: startsWithE)

lemma lastKey_snoc:
  "lastKey tag (ls @ [l]) =
     (if startsWith l tag then (case parseHlsKeyTag l of Inr k' \<Rightarrow> k' | Inl _ \<Rightarrow> lastKey tag ls) else lastKey tag ls)"
  by (simp add: lastKey_def cong: sum.case_cong)

lemma keyAt_snoc: "keyAt (ls @ [l]) (length ls) = (case lastKey MEDIA_KEY ls of Some k \<Rightarrow> Some k | None \<Rightarrow> lastKey SESSION_KEY ls)"
  by (simp add: keyAt_def cong: option.case_cong)

lemma walkLines_spec:
  "walkLines emptyWalk ls = Inr w \<Longrightarrow>
     wSegments w = specSegments ls \<and> wKey w = lastKey MEDIA_KEY ls \<and> wSession w = lastKey SESSION_KEY ls"
proof (induction ls arbitrary: w rule: rev_induct)
  case Nil
  then show ?case by (auto simp: emptyWalk_def specSegments_def lastKey_def)
next
  case (snoc l ls)
  from snoc.prems obtain v where v: "walkLines emptyWalk ls = Inr v" "walkLine v l = Inr w"
    by (auto simp: walkLines_append result_simps)
  note IH = snoc.IH [OF v(1)]
  show ?case using v(2) IH tags_disjoint [of l]
    by (auto simp: walkLine_def specSegments_snoc lastKey_snoc keyAt_snoc isSegmentLine_def result_simps
        split: if_splits jsnum.splits option.splits)
qed

lemma walkLines_error:
  "walkLines w ls = Inl e \<Longrightarrow> \<exists>l\<in>set ls. (startsWith l MEDIA_KEY \<or> startsWith l SESSION_KEY) \<and> parseHlsKeyTag l = Inl e"
proof (induction ls arbitrary: w)
  case (Cons l ls)
  then show ?case
  proof (cases "walkLine w l")
    case (Inl x)
    with Cons.prems show ?thesis
      by (auto simp: walkLine_def result_simps split: if_splits jsnum.splits)
  qed auto
qed simp

section \<open>Facts: DRM tags are found wherever they stand\<close>

definition keyTagName :: "string \<Rightarrow> bool" where
  "keyTagName k \<longleftrightarrow> toLower k = toLower ''#EXT-X-KEY'' \<or> toLower k = toLower ''#EXT-X-SESSION-KEY''"

lemma keyTag_run:
  assumes "keyTagName k"
  shows "(rev k @ p, t, c) \<in> set (reRun KEY_TAG_RE (p, k @ t, c))"
proof -
  define a b where "a = take 7 k" and "b = drop 7 k"
  have k: "k = a @ b" by (simp add: a_def b_def)
  have a: "toLower a = toLower ''#EXT-X-''"
    using assms by (auto simp: a_def keyTagName_def toLower_def take_map [symmetric] eval_nat_numeral)
  have b: "toLower b = toLower ''KEY'' \<or> toLower b = toLower ''SESSION-KEY''"
    using assms by (auto simp: b_def keyTagName_def toLower_def drop_map [symmetric] eval_nat_numeral)
  have "(rev b @ rev a @ p, t, c) \<in> set (reRun (RAlt (rLit True ''KEY'') (rLit True ''SESSION-KEY'')) (rev a @ p, b @ t, c))"
    using b by (auto intro: reRun_litI)
  with reRun_litI [OF a, of p "b @ t" c] show ?thesis
    unfolding KEY_TAG_RE_def k by (intro reRun_seqI) auto
qed

lemma drm_method_found:
  assumes "keyTagName k" "\<forall>x\<in>set mid. notNewline x" "toLower m = toLower ''METHOD=SAMPLE-AES''"
  shows "reTest HLS_DRM_RE (pre @ k @ '':'' @ mid @ m @ post)"
proof -
  define a b where "a = take 7 m" and "b = drop 7 m"
  have m: "m = a @ b" by (simp add: a_def b_def)
  have ab: "toLower a = toLower ''METHOD=''" "toLower b = toLower ''SAMPLE-AES''"
    using assms(3) by (simp_all add: a_def b_def toLower_def take_map [symmetric] drop_map [symmetric] eval_nat_numeral)
  let ?p1 = "rev k @ rev pre" and ?p2 = "rev ('':'') @ rev k @ rev pre"
  note s1 = keyTag_run [OF assms(1), of "rev pre" "'':'' @ mid @ a @ b @ post" "[]"]
  note s2 = reRun_litI [of "'':''" "'':''" ?p1 "mid @ a @ b @ post" "[]", OF refl]
  note s3 = reRun_starI [OF assms(2), of ?p2 "a @ b @ post" "[]", folded rDot_def]
  note s4 = reRun_litI [OF ab(1), of "rev mid @ ?p2" "b @ post" "[]"]
  have s5: "(rev b @ rev a @ rev mid @ ?p2, post, []) \<in>
      set (reRun (rAlts [rLit True ''SAMPLE-AES'', rLit True ''SAMPLE-AES-CTR'', rLit True ''SAMPLE-AES-CENC''])
        (rev a @ rev mid @ ?p2, b @ post, []))"
    using reRun_litI [OF ab(2), of "rev a @ rev mid @ ?p2" post "[]"] by simp
  have "(rev b @ rev a @ rev mid @ ?p2, post, []) \<in>
      set (reRun HLS_DRM_RE (rev pre, k @ '':'' @ mid @ a @ b @ post, []))"
    unfolding HLS_DRM_RE_def rSeqs.simps
    by (rule reRun_seqI [OF s1 reRun_seqI [OF s2 reRun_seqI [OF s3 reRun_seqI [OF s4 s5]]]])
  from reTestI [OF this] show ?thesis by (simp add: m)
qed

lemma drm_keyformat_found:
  assumes "keyTagName k" "\<forall>x\<in>set mid. notNewline x" "toLower m = toLower ''KEYFORMAT=''"
    and f: "f \<noteq> []" "\<forall>x\<in>set f. notNewline x" "\<not> startsWith (toLower f) ''identity''" "quoteChar \<notin> set f"
  shows "reTest HLS_DRM_KEYFORMAT_RE (pre @ k @ '':'' @ mid @ m @ [quoteChar] @ f @ [quoteChar] @ post)"
proof -
  let ?p1 = "rev k @ rev pre" and ?p2 = "rev ('':'') @ rev k @ rev pre"
  let ?p4 = "rev m @ rev mid @ ?p2" and ?q = "[quoteChar]" and ?tl = "f @ [quoteChar] @ post"
  note s1 = keyTag_run [OF assms(1), of "rev pre" "'':'' @ mid @ m @ ?q @ ?tl" "[]"]
  note s2 = reRun_litI [of "'':''" "'':''" ?p1 "mid @ m @ ?q @ ?tl" "[]", OF refl]
  note s3 = reRun_starI [OF assms(2), of ?p2 "m @ ?q @ ?tl" "[]", folded rDot_def]
  note s4 = reRun_litI [OF assms(3), of "rev mid @ ?p2" "?q @ ?tl" "[]"]
  have s5: "(?q @ ?p4, ?tl, []) \<in> set (reRun (rChr True quoteChar) (?p4, ?q @ ?tl, []))"
    by (simp add: reRun_rChr)
  have "\<not> litEq True (take 8 ?tl) ''identity''"
  proof
    assume "litEq True (take 8 ?tl) ''identity''"
    then have "toLower (take 8 ?tl) = toLower ''identity''" unfolding litEq_def by metis
    also have "\<dots> = ''identity''" by code_simp
    finally have l: "toLower (take 8 ?tl) = ''identity''" .
    have "8 \<le> length f"
    proof (rule ccontr)
      assume "\<not> 8 \<le> length f"
      then have "take 8 ?tl ! length f = quoteChar" "length f < length (take 8 ?tl)" by (auto simp: nth_append)
      then have "quoteChar \<in> set (take 8 ?tl)" by (metis nth_mem)
      then have "lowerChar quoteChar \<in> set (toLower (take 8 ?tl))" by (auto simp: toLower_def)
      then show False unfolding l by (simp add: quoteChar_def lowerChar_def code_def)
    qed
    with l have "take 8 (toLower f) = ''identity''" by (simp add: toLower_def take_map)
    with f(3) show False by (simp add: startsWith_def eval_nat_numeral)
  qed
  then have s6: "(?q @ ?p4, ?tl, []) \<in> set (reRun (RNotAhead (rLit True ''identity'')) (?q @ ?p4, ?tl, []))"
    by (simp add: reRun_rLit eval_nat_numeral)
  have s7: "(rev f @ ?q @ ?p4, ?q @ post, []) \<in> set (reRun (rPlus rDot) (?q @ ?p4, ?tl, []))"
  proof -
    obtain x g where fx: "f = x # g" using f(1) by (cases f) auto
    have "(rev g @ x # ?q @ ?p4, ?q @ post, []) \<in> set (reRun (RStar (RCls notNewline)) (x # ?q @ ?p4, g @ ?q @ post, []))"
      using f(2) by (intro reRun_starI) (simp add: fx)
    then show ?thesis using f(2) by (simp add: rPlus_def rDot_def fx del: reRun.simps(5))
  qed
  have s8: "(?q @ rev f @ ?q @ ?p4, post, []) \<in> set (reRun (rChr True quoteChar) (rev f @ ?q @ ?p4, ?q @ post, []))"
    by (simp add: reRun_rChr)
  have "(?q @ rev f @ ?q @ ?p4, post, []) \<in>
      set (reRun HLS_DRM_KEYFORMAT_RE (rev pre, k @ '':'' @ mid @ m @ ?q @ ?tl, []))"
    unfolding HLS_DRM_KEYFORMAT_RE_def rSeqs.simps
    by (rule reRun_seqI [OF s1 reRun_seqI [OF s2 reRun_seqI [OF s3 reRun_seqI [OF s4 reRun_seqI [OF s5
          reRun_seqI [OF s6 reRun_seqI [OF s7 s8]]]]]]])
  from reTestI [OF this] show ?thesis by simp
qed

section \<open>Properties\<close>

text \<open>\<open>pickVariantUrl\<close> returns a variant of the highest bandwidth among those whose URI
  resolves and passes the guard, the first one in playlist order on ties, and \<open>null\<close> only when no
  variant is usable.\<close>

theorem pickVariantUrl_best:
  "case pickVariantUrl env st text base of
     None \<Rightarrow> variantOffers env st base (trimmedLines text) = []
   | Some u \<Rightarrow> (\<exists>b. firstBest (variantOffers env st base (trimmedLines text)) (u, b))"
  using pickVariantLoop_best [where best = None and pre = "[]" and env = env and st = st and base = base
      and ls = "trimmedLines text"]
  by (auto simp: pickVariantUrl_def split: option.splits)

text \<open>With no explicit IV, segment \<open>i\<close> of a playlist starting at a non-negative sequence number
  is decrypted with the 16-byte big-endian encoding of its own media sequence number.\<close>

theorem default_iv_big_endian:
  assumes "0 \<le> ms" "ms + int i < 2 ^ 53"
  shows "length (segmentIv None (sequenceAt ms i)) = 16
    \<and> foldl (\<lambda>v b. 256 * v + unat b) 0 (segmentIv None (sequenceAt ms i)) = nat (ms + int i)"
proof -
  have "roundDouble (of_int (ms + int i)) = Fin (of_int (ms + int i))"
    using assms by (intro roundDouble_int_small) simp
  then have s: "sequenceAt ms i = int (nat (ms + int i))" using assms by (simp add: sequenceAt_def)
  have "nat (ms + int i) < 2 ^ 53" using assms by (simp add: nat_less_iff)
  then have "nat (ms + int i) < 2 ^ 128" by (rule less_trans) simp
  from defaultIv [OF this] show ?thesis by (simp only: s)
qed

theorem default_iv_big_endian_witness:
  "length (segmentIv None (sequenceAt 7 3)) = 16
   \<and> foldl (\<lambda>v b. 256 * v + unat b) 0 (segmentIv None (sequenceAt 7 3)) = 10"
  using default_iv_big_endian [of 7 3] by simp

text \<open>For a key tag the parser accepted, a 16-byte key and a sequence number that fits 16 bytes,
  decryption is the cipher on a 16-byte IV: it yields the plain text or the documented
  \<open>network_error\<close>, never an error about the IV.\<close>

theorem decryptHlsSegment_accepted_key:
  assumes "parseHlsKeyTag line = Inr (Some k)" "length keyBuf = 16" "0 \<le> ms" "ms < 2 ^ 128"
  shows "length (segmentIv (ktIvHex k) ms) = 16
    \<and> decryptHlsSegment aes buf keyBuf (ktIvHex k) ms =
       (case aes keyBuf (segmentIv (ktIvHex k) ms) buf of
          Some b \<Rightarrow> Inr b
        | None \<Rightarrow> Inl (dErr NETWORK_ERROR ''failed to decrypt HLS segment (corrupt or wrong key)''))"
  using segmentIv_length [OF assms(1,3,4)] assms(2)
  by (auto simp: decryptHlsSegment_def Let_def split: option.splits)

definition sampleKeyLine :: string where
  "sampleKeyLine = ''#EXT-X-KEY:METHOD=AES-128,URI='' @ [quoteChar] @ ''k'' @ [quoteChar]"

lemma sampleKeyLine_parse: "parseHlsKeyTag sampleKeyLine = Inr (Some \<lparr>ktUri = ''k'', ktIvHex = None\<rparr>)"
  by code_simp

theorem decryptHlsSegment_accepted_key_witness:
  "decryptHlsSegment (\<lambda>k iv b. Some (map2 (\<lambda>x y. x XOR y) b iv)) [1, 2] (replicate 16 0) None 258 = Inr [1, 2]"
proof -
  have iv: "segmentIv None 258 = replicate 14 0 @ [1, 2]" by code_simp
  show ?thesis
    using decryptHlsSegment_accepted_key [OF sampleKeyLine_parse, of "replicate 16 0" 258
        "\<lambda>k iv b. Some (map2 (\<lambda>x y. x XOR y) b iv)" "[1, 2]"]
    by (simp add: iv eval_nat_numeral)
qed

text \<open>the walk over a media playlist lists the URI lines in order, each with the key of the last
  \<open>#EXT-X-KEY\<close> before it or else of the last \<open>#EXT-X-SESSION-KEY\<close> before it, and fails only with
  the error of some key tag.\<close>

theorem walkPlaylist_keys:
  "case walkPlaylist text of
     Inr w \<Rightarrow> wSegments w = specSegments (trimmedLines text)
   | Inl e \<Rightarrow> (\<exists>l. l \<in> set (trimmedLines text) \<and> parseHlsKeyTag l = Inl e)"
proof (cases "walkPlaylist text")
  case (Inl e)
  with walkLines_error [of emptyWalk "trimmedLines text" e] show ?thesis
    by (auto simp: walkPlaylist_def)
next
  case (Inr w)
  with walkLines_spec [of "trimmedLines text" w] show ?thesis by (simp add: walkPlaylist_def)
qed

text \<open>A DRM key tag is detected wherever it stands in the manifest and in any letter case: one
  with a \<open>SAMPLE-AES\<close> method, and one whose quoted \<open>KEYFORMAT\<close> does not begin with
  \<open>identity\<close>.\<close>

theorem isDrmEncrypted_complete:
  assumes "keyTagName k" "list_all notNewline mid"
    and "(toLower m = toLower ''METHOD=SAMPLE-AES'' \<and> tail = post)
       \<or> (toLower m = toLower ''KEYFORMAT='' \<and> tail = [quoteChar] @ f @ [quoteChar] @ post
          \<and> f \<noteq> [] \<and> list_all notNewline f \<and> quoteChar \<notin> set f \<and> \<not> startsWith (toLower f) ''identity'')"
  shows "isDrmEncrypted (pre @ k @ '':'' @ mid @ m @ tail)"
  using assms(3) drm_method_found [OF assms(1), of mid m pre tail]
    drm_keyformat_found [OF assms(1), of mid m f pre post] assms(2)
  by (auto simp: isDrmEncrypted_def list_all_iff)

theorem isDrmEncrypted_complete_witness:
  "isDrmEncrypted (''#EXTM3U '' @ ''#ext-x-key'' @ '':'' @ ''URI=x,'' @ ''Method=Sample-AES'' @ ''-CTR'')"
proof (rule isDrmEncrypted_complete [where f = "[]" and post = "''-CTR''"])
  show "keyTagName ''#ext-x-key''" by code_simp
  show "list_all notNewline ''URI=x,''" by code_simp
  have "toLower ''Method=Sample-AES'' = toLower ''METHOD=SAMPLE-AES''" by code_simp
  then show "(toLower ''Method=Sample-AES'' = toLower ''METHOD=SAMPLE-AES'' \<and> ''-CTR'' = ''-CTR'')
       \<or> (toLower ''Method=Sample-AES'' = toLower ''KEYFORMAT='' \<and> ''-CTR'' = [quoteChar] @ [] @ [quoteChar] @ ''-CTR''
          \<and> [] \<noteq> [] \<and> list_all notNewline [] \<and> quoteChar \<notin> set [] \<and> \<not> startsWith (toLower []) ''identity'')"
    by simp
qed

end
