(* ===== verification/Spawn.thy ===== *)
theory Spawn
  imports JsNumber
begin

text \<open>
  \<open>runSpawn\<close> and \<open>throttledProgress\<close> of \<open>streamlink-backend.js\<close>. A running child is a state
  machine: its events are output, the abort signal, the two timers, and the \<open>error\<close> and \<open>close\<close>
  events of the child; its state keeps what the closures share and logs every signal sent.
\<close>

datatype killSignal = SIGTERM | SIGKILL
datatype killTarget = Group | Child

record spawnOut =
  soCode :: "int option"
  soStderr :: string
  soKilled :: bool

record spawnState =
  spPid :: bool
  spStderr :: string
  spKilled :: bool
  spTermTimer :: bool
  spKillTimer :: bool
  spListener :: bool
  spSignals :: "(killTarget \<times> killSignal) list"
  spOutputs :: "string list"
  spResult :: "spawnOut option"

datatype spawnEvent =
    StderrData string
  | StdoutData string
  | AbortSignal
  | TermTimeout
  | KillTimeout
  | ChildError string
  | ChildClose "int option"

definition killGroup :: "killSignal \<Rightarrow> spawnState \<Rightarrow> spawnState" where
  "killGroup sig s =
     s\<lparr>spSignals := spSignals s @ (if spPid s then [(Group, sig)] else []) @ [(Child, sig)]\<rparr>"

text \<open>\<open>onAbort\<close>, which is also the body of the timeout callback.\<close>

definition terminate :: "spawnState \<Rightarrow> spawnState" where
  "terminate s =
     (if spKilled s then s
      else (killGroup SIGTERM (s\<lparr>spKilled := True\<rparr>))\<lparr>spKillTimer := True\<rparr>)"

definition cleanup :: "spawnState \<Rightarrow> spawnState" where
  "cleanup s = s\<lparr>spTermTimer := False, spKillTimer := False, spListener := False\<rparr>"

text \<open>A promise keeps the first value it is resolved with.\<close>

definition resolveWith :: "spawnOut \<Rightarrow> spawnState \<Rightarrow> spawnState" where
  "resolveWith r s = (case spResult s of None \<Rightarrow> s\<lparr>spResult := Some r\<rparr> | Some _ \<Rightarrow> s)"

text \<open>After a successful \<open>spawn\<close>: an aborted signal terminates at once, else a listener is added;
  then the timeout is armed.\<close>

definition spawnInit :: "bool \<Rightarrow> bool \<Rightarrow> bool \<Rightarrow> spawnState" where
  "spawnInit pid hasSignal aborted =
     (let s = \<lparr>spPid = pid, spStderr = [], spKilled = False, spTermTimer = False, spKillTimer = False,
               spListener = False, spSignals = [], spOutputs = [], spResult = None\<rparr>;
          s1 = (if hasSignal then (if aborted then terminate s else s\<lparr>spListener := True\<rparr>) else s)
      in s1\<lparr>spTermTimer := True\<rparr>)"

text \<open>An event that cannot occur (a timer that is not armed, a removed listener) leaves the state.\<close>

fun spawnStep :: "spawnState \<Rightarrow> spawnEvent \<Rightarrow> spawnState" where
  "spawnStep s (StderrData c) = s\<lparr>spStderr := spStderr s @ c, spOutputs := spOutputs s @ [c]\<rparr>"
| "spawnStep s (StdoutData c) = s"
| "spawnStep s AbortSignal = (if spListener s then terminate (s\<lparr>spListener := False\<rparr>) else s)"
| "spawnStep s TermTimeout = (if spTermTimer s then terminate (s\<lparr>spTermTimer := False\<rparr>) else s)"
| "spawnStep s KillTimeout =
     (if spKillTimer s then killGroup SIGKILL (s\<lparr>spKillTimer := False\<rparr>) else s)"
| "spawnStep s (ChildError err) =
     (let s1 = cleanup s in
      resolveWith \<lparr>soCode = Some (-1), soStderr = spStderr s1 @ err, soKilled = spKilled s1\<rparr> s1)"
| "spawnStep s (ChildClose c) =
     (let s1 = cleanup s in
      resolveWith \<lparr>soCode = c, soStderr = spStderr s1, soKilled = spKilled s1\<rparr> s1)"

definition spawnRun :: "spawnState \<Rightarrow> spawnEvent list \<Rightarrow> spawnState" where
  "spawnRun s evs = foldl spawnStep s evs"

text \<open>
  \<open>runSpawn\<close>: \<open>Inl\<close> is a \<open>spawn\<close> call that throws; otherwise the child lives through some events
  and in the end closes.
\<close>

record childRun =
  crPid :: bool
  crEvents :: "spawnEvent list"
  crClose :: "int option"

definition runSpawn :: "string + childRun \<Rightarrow> bool \<Rightarrow> bool \<Rightarrow> spawnOut \<times> string list" where
  "runSpawn child hasSignal aborted = (case child of
     Inl err \<Rightarrow> (\<lparr>soCode = Some (-1), soStderr = err, soKilled = False\<rparr>, [])
   | Inr c \<Rightarrow>
       let s = spawnStep (spawnRun (spawnInit (crPid c) hasSignal aborted) (crEvents c)) (ChildClose (crClose c))
       in (case spResult s of
             Some r \<Rightarrow> (r, spOutputs s)
           | None \<Rightarrow> (\<lparr>soCode = crClose c, soStderr = [], soKilled = False\<rparr>, spOutputs s)))"

section \<open>Throttled progress\<close>

text \<open>One call of the wrapped callback at time \<open>now\<close>: the new \<open>last\<close> and whether the event is
  delivered.\<close>

definition throttleStep :: "int \<Rightarrow> int \<Rightarrow> int \<Rightarrow> int \<times> bool" where
  "throttleStep minIntervalMs lastMs now =
     (if now - lastMs < minIntervalMs then (lastMs, False) else (now, True))"

fun throttleRun :: "int \<Rightarrow> int \<Rightarrow> (int \<times> 'e) list \<Rightarrow> (int \<times> 'e) list" where
  "throttleRun d lastMs [] = []"
| "throttleRun d lastMs ((now, e) # xs) =
     (case throttleStep d lastMs now of (last', ok) \<Rightarrow> (if ok then [(now, e)] else []) @ throttleRun d last' xs)"

section \<open>Facts\<close>

text \<open>
  The kill protocol: how many of each signal were sent to the child, and which timers can still
  act on it.
\<close>

definition signalsTo :: "spawnState \<Rightarrow> killSignal \<Rightarrow> nat" where
  "signalsTo s sig = length (filter (\<lambda>x. x = (Child, sig)) (spSignals s))"

definition spawnInv :: "spawnState \<Rightarrow> bool" where
  "spawnInv s \<longleftrightarrow>
     signalsTo s SIGTERM = (if spKilled s then 1 else 0)
   \<and> signalsTo s SIGKILL \<le> (if spKilled s \<and> \<not> spKillTimer s then 1 else 0)
   \<and> (spKillTimer s \<longrightarrow> spKilled s)
   \<and> (spResult s \<noteq> None \<longrightarrow> \<not> spTermTimer s \<and> \<not> spKillTimer s \<and> \<not> spListener s)
   \<and> (spResult s = None \<longrightarrow>
        (if spKilled s then spKillTimer s \<or> signalsTo s SIGKILL = 1 else spTermTimer s))"

lemma signalsTo_kill [simp]:
  "signalsTo (killGroup sig s) sig' = signalsTo s sig' + (if sig' = sig then 1 else 0)"
  by (simp add: signalsTo_def killGroup_def)

lemma killGroup_fields [simp]:
  "spKilled (killGroup sig s) = spKilled s" "spTermTimer (killGroup sig s) = spTermTimer s"
  "spKillTimer (killGroup sig s) = spKillTimer s" "spListener (killGroup sig s) = spListener s"
  "spResult (killGroup sig s) = spResult s" "spStderr (killGroup sig s) = spStderr s"
  by (simp_all add: killGroup_def)

lemma signalsTo_upd [simp]:
  "signalsTo (s\<lparr>spKilled := b\<rparr>) g = signalsTo s g" "signalsTo (s\<lparr>spKillTimer := b\<rparr>) g = signalsTo s g"
  "signalsTo (s\<lparr>spTermTimer := b\<rparr>) g = signalsTo s g" "signalsTo (s\<lparr>spListener := b\<rparr>) g = signalsTo s g"
  "signalsTo (s\<lparr>spResult := r\<rparr>) g = signalsTo s g" "signalsTo (s\<lparr>spStderr := e\<rparr>) g = signalsTo s g"
  "signalsTo (s\<lparr>spOutputs := os\<rparr>) g = signalsTo s g"
  by (simp_all add: signalsTo_def)

lemma spawnInit_inv: "spawnInv (spawnInit pid sg ab)"
  by (simp add: spawnInv_def spawnInit_def Let_def terminate_def) (simp add: signalsTo_def)

lemma spawnStep_inv: "spawnInv s \<Longrightarrow> spawnInv (spawnStep s e)"
  by (cases e) (auto simp: spawnInv_def terminate_def cleanup_def resolveWith_def Let_def
      split: option.splits if_splits)

lemma spawnRun_inv: "spawnInv s \<Longrightarrow> spawnInv (spawnRun s evs)"
  by (induction evs arbitrary: s) (simp_all add: spawnRun_def spawnStep_inv)

lemma spawnStep_settled:
  "spawnInv s \<Longrightarrow> spResult s \<noteq> None \<Longrightarrow>
     spSignals (spawnStep s e) = spSignals s \<and> spResult (spawnStep s e) = spResult s"
  by (cases e) (auto simp: spawnInv_def cleanup_def resolveWith_def Let_def split: option.splits)

lemma spawnRun_settled:
  "spawnInv s \<Longrightarrow> spResult s \<noteq> None \<Longrightarrow>
     spSignals (spawnRun s evs) = spSignals s \<and> spResult (spawnRun s evs) = spResult s"
proof (induction evs arbitrary: s)
  case (Cons e evs)
  from spawnStep_settled [OF Cons.prems, of e] Cons.IH [of "spawnStep s e"] Cons.prems
  show ?case by (simp add: spawnRun_def spawnStep_inv)
qed (simp add: spawnRun_def)

lemma throttleRun_spaced:
  "sorted (map fst (throttleRun d l xs)) \<and> (\<forall>x\<in>set (throttleRun d l xs). l + d \<le> fst x) \<and>
   (\<forall>i. Suc i < length (throttleRun d l xs) \<longrightarrow>
      fst (throttleRun d l xs ! i) + d \<le> fst (throttleRun d l xs ! Suc i))"
  if "0 \<le> d" for l xs
proof (induction xs arbitrary: l)
  case (Cons x xs)
  obtain now e where x: "x = (now, e)" by (cases x)
  show ?case
  proof (cases "now - l < d")
    case True
    with Cons.IH [of l] show ?thesis by (simp add: x throttleStep_def)
  next
    case False
    let ?ys = "throttleRun d now xs"
    have eq: "throttleRun d l (x # xs) = (now, e) # ?ys" using False by (simp add: x throttleStep_def)
    have s: "sorted (map fst ?ys)" and g: "\<forall>y\<in>set ?ys. now + d \<le> fst y"
      and n: "\<forall>i. Suc i < length ?ys \<longrightarrow> fst (?ys ! i) + d \<le> fst (?ys ! Suc i)"
      using Cons.IH [of now] by blast+
    have "\<forall>i. Suc i < length ((now, e) # ?ys) \<longrightarrow>
        fst (((now, e) # ?ys) ! i) + d \<le> fst (((now, e) # ?ys) ! Suc i)"
    proof (intro allI impI)
      fix i assume "Suc i < length ((now, e) # ?ys)"
      then show "fst (((now, e) # ?ys) ! i) + d \<le> fst (((now, e) # ?ys) ! Suc i)"
        using g n by (cases i) auto
    qed
    then show ?thesis using s g False \<open>0 \<le> d\<close> unfolding eq by fastforce
  qed
qed simp

section \<open>Properties\<close>

text \<open>C30: in every run of a child, \<open>SIGTERM\<close> is sent at most once and exactly when \<open>killed\<close> is
  reported, \<open>SIGKILL\<close> at most once and only after it; while the result is open the timeout is
  armed, or the grace timer is, or the kill was sent; and nothing is armed once it is resolved.\<close>

theorem runSpawn_kill_protocol:
  "let s = spawnRun (spawnInit pid hasSignal aborted) evs in
     signalsTo s SIGTERM = (if spKilled s then 1 else 0)
   \<and> signalsTo s SIGKILL \<le> signalsTo s SIGTERM
   \<and> (if spResult s = None
      then (if spKilled s then spKillTimer s \<or> signalsTo s SIGKILL = 1 else spTermTimer s)
      else \<not> spTermTimer s \<and> \<not> spKillTimer s \<and> \<not> spListener s)"
  using spawnRun_inv [OF spawnInit_inv [of pid hasSignal aborted], of evs]
  by (auto simp: spawnInv_def Let_def split: if_splits)

text \<open>A result, once there, stands: later events neither change it nor send another signal.\<close>

theorem runSpawn_settles_once:
  "spResult (spawnRun (spawnInit pid sg ab) evs) = Some r \<Longrightarrow>
     spResult (spawnRun (spawnInit pid sg ab) (evs @ later)) = Some r
   \<and> spSignals (spawnRun (spawnInit pid sg ab) (evs @ later)) = spSignals (spawnRun (spawnInit pid sg ab) evs)"
  using spawnRun_settled [OF spawnRun_inv [OF spawnInit_inv], of pid sg ab evs later]
  by (simp add: spawnRun_def)

theorem runSpawn_settles_once_witness:
  "spResult (spawnRun (spawnInit True True False) [AbortSignal, ChildClose None, KillTimeout, ChildError ''x'']) =
     Some \<lparr>soCode = None, soStderr = [], soKilled = True\<rparr>"
proof -
  have "spResult (spawnRun (spawnInit True True False) [AbortSignal, ChildClose None]) =
      Some \<lparr>soCode = None, soStderr = [], soKilled = True\<rparr>" by code_simp
  from runSpawn_settles_once [OF this, of "[KillTimeout, ChildError ''x'']"] show ?thesis by simp
qed

text \<open>Progress events are delivered at least the minimal interval apart, the first one that
  long after time 0.\<close>

theorem throttledProgress_spaced:
  assumes "0 \<le> d"
  shows "list_all (\<lambda>x. d \<le> fst x) (throttleRun d 0 xs)
    \<and> (\<forall>i. Suc i < length (throttleRun d 0 xs) \<longrightarrow>
         fst (throttleRun d 0 xs ! i) + d \<le> fst (throttleRun d 0 xs ! Suc i))"
  using throttleRun_spaced [OF assms, of 0 xs] by (simp add: list_all_iff)

theorem throttledProgress_spaced_witness:
  "throttleRun 500 0 [(700, ''a''), (900, ''b''), (1200, ''c'')] = [(700, ''a''), (1200, ''c'')]
   \<and> (700::int) + 500 \<le> 1200"
proof -
  have r: "throttleRun 500 0 [(700, ''a''), (900, ''b''), (1200, ''c'')] = [(700, ''a''), (1200, ''c'')]"
    by (simp add: throttleStep_def)
  with throttledProgress_spaced [of 500 "[(700, ''a''), (900, ''b''), (1200, ''c'')]"] show ?thesis by simp
qed

end
