(* ===== verification/Backend.thy ===== *)
theory Backend
  imports Hls Spawn
begin

text \<open>
  The two downloads of \<open>streamlink-backend.js\<close>: \<open>downloadStream\<close> (the \<open>streamlink\<close> child, its
  throwaway credential file) and \<open>downloadManifestFallback\<close> (playlist, keys, segments, \<open>ffmpeg\<close>).
  The state holds the network log, the files, the children started and the progress delivered; the
  child processes, the clock, the temporary names and failing file operations are oracles.
\<close>

record progressEvent =
  pePercent :: jsnum
  peBytes :: "nat option"

text \<open>A child that was started, with the files it saw and whether the overall timer was armed.\<close>

record spawnCall =
  scCmd :: string
  scArgs :: "string list"
  scFiles :: files
  scTimer :: bool

record backend =
  bNet :: netState
  bFiles :: files
  bTemps :: nat
  bSpawned :: "spawnCall list"
  bTicks :: nat
  bLast :: int
  bProgress :: "progressEvent list"
  bTimer :: bool

record backendEnv =
  beNet :: netEnv
  beCwd :: string
  beTmpdir :: string
  beSuffix :: "nat \<Rightarrow> string option"
  beAuthName :: string
  beWriteFails :: "string \<Rightarrow> exn option"
  beRmFails :: "string \<Rightarrow> bool"
  beChild :: "nat \<Rightarrow> string \<Rightarrow> string list \<Rightarrow> files \<Rightarrow> (string + childRun) \<times> files"
  beHasSignal :: bool
  beAborted :: "nat \<Rightarrow> bool"
  beClock :: "nat \<Rightarrow> int"
  beOnProgress :: bool
  beCipher :: cipher
  beEncode :: "string \<Rightarrow> byte list"
  beBodyCap :: "jsnum option"

type_synonym 'a beff = "(backend, exn, 'a) eff"

section \<open>Steps on the state\<close>

definition netS :: "(netState \<Rightarrow> (exn + 'a) \<times> netState) \<Rightarrow> 'a beff" where
  "netS f = (\<lambda>s. case f (bNet s) of (r, n) \<Rightarrow> (r, s\<lparr>bNet := n\<rparr>))"

definition guardS :: "backendEnv \<Rightarrow> string \<Rightarrow> url beff" where
  "guardS env u = (\<lambda>s. (mapErr plainErr (urlGuard (beNet env) (bNet s) u), s))"

definition writeS :: "backendEnv \<Rightarrow> string \<Rightarrow> byte list \<Rightarrow> unit beff" where
  "writeS env p b = (\<lambda>s. case writeFileAt (beWriteFails env) p b (bFiles s) of
     Inl e \<Rightarrow> (Inl e, s) | Inr fs \<Rightarrow> (Inr (), s\<lparr>bFiles := fs\<rparr>))"

text \<open>The \<open>emitProgress\<close> closure; without a callback it does nothing.\<close>

definition emitProgress :: "backendEnv \<Rightarrow> progressEvent \<Rightarrow> backend \<Rightarrow> backend" where
  "emitProgress env ev s =
     (if \<not> beOnProgress env then s
      else (case throttleStep 500 (bLast s) (beClock env (bTicks s)) of (last', ok) \<Rightarrow>
        s\<lparr>bTicks := bTicks s + 1, bLast := last',
          bProgress := (if ok then bProgress s @ [ev] else bProgress s)\<rparr>))"

text \<open>Running a child: the exit record and the output chunks passed to \<open>onOutput\<close>.\<close>

definition runS :: "backendEnv \<Rightarrow> bool \<Rightarrow> string \<Rightarrow> string list \<Rightarrow> (spawnOut \<times> string list) beff" where
  "runS env hasSignal cmd args = (\<lambda>s.
     let n = length (bSpawned s) in
     case beChild env n cmd args (bFiles s) of (child, fs) \<Rightarrow>
       (Inr (runSpawn child hasSignal (beAborted env n)),
        s\<lparr>bSpawned := bSpawned s @ [\<lparr>scCmd = cmd, scArgs = args, scFiles = bFiles s, scTimer = bTimer s\<rparr>],
          bFiles := fs\<rparr>))"

text \<open>\<open>unlink\<close> and \<open>rm -rf\<close>, whose errors the code swallows.\<close>

definition unlinkFile :: "backendEnv \<Rightarrow> string \<Rightarrow> backend \<Rightarrow> backend" where
  "unlinkFile env p s = (if beRmFails env p then s else s\<lparr>bFiles := (bFiles s)(p := None)\<rparr>)"

definition removeDir :: "backendEnv \<Rightarrow> string \<Rightarrow> backend \<Rightarrow> backend" where
  "removeDir env dir s =
     (if beRmFails env dir then s
      else s\<lparr>bFiles := (\<lambda>p. if isUnder p dir then None else bFiles s p)\<rparr>)"

definition mkdtempS :: "backendEnv \<Rightarrow> string beff" where
  "mkdtempS env = (\<lambda>s. case beSuffix env (bTemps s) of
     None \<Rightarrow> (Inl (plainErr ''mkdtemp failed''), s)
   | Some x \<Rightarrow> (Inr (joinPath (beTmpdir env) ''bd-hls-'' @ x), s\<lparr>bTemps := bTemps s + 1\<rparr>))"

section \<open>Keys and segments\<close>

definition keyCap :: jsnum where
  "keyCap = bytesOf (maxBodyBytes Key)"

definition segCap :: jsnum where
  "segCap = bytesOf (maxBodyBytes Segment)"

definition fetchHlsKey :: "backendEnv \<Rightarrow> headers option \<Rightarrow> string \<Rightarrow> keyTag \<Rightarrow> (byte list) beff" where
  "fetchHlsKey env auth playlistUrl kt =
     thenS (liftS (ofOption (dErr NETWORK_ERROR ''invalid #EXT-X-KEY URI'')
              (resolveUrl (beNet env) (ktUri kt) playlistUrl))) (\<lambda>keyUrl.
     thenS (guardS env keyUrl) (\<lambda>_.
     thenS (netS (fetchResWithRetry (beNet env) (Some keyCap) auth keyUrl)) (\<lambda>res.
     liftS (readBodyCapped res keyCap))))"

definition segHref :: "netEnv \<Rightarrow> string \<Rightarrow> string \<Rightarrow> string" where
  "segHref ne base uri = (case resolveUrl ne uri base of Some h \<Rightarrow> h | None \<Rightarrow> uri)"

definition urlHost :: "netEnv \<Rightarrow> string \<Rightarrow> string" where
  "urlHost ne h = (case parseUrl ne h of Some u \<Rightarrow> hostname u | None \<Rightarrow> h)"

text \<open>The validation loop; \<open>hosts\<close> are the keys of \<open>validatedHosts\<close>.\<close>

fun validateSegments ::
  "backendEnv \<Rightarrow> string \<Rightarrow> string list \<Rightarrow> segment list \<Rightarrow> ((string \<times> keyTag option) list) beff" where
  "validateSegments env base hosts [] = returnS []"
| "validateSegments env base hosts (sg # sgs) =
     (let h = segHref (beNet env) base (sgUri sg); host = urlHost (beNet env) h;
          continue = (\<lambda>hosts'. thenS (validateSegments env base hosts' sgs)
             (\<lambda>rest. returnS ((h, sgKey sg) # rest)))
      in if host \<in> set hosts then continue hosts
         else thenS (guardS env h) (\<lambda>_. continue (hosts @ [host])))"

definition segName :: "nat \<Rightarrow> string" where
  "segName i = ''seg-'' @ padStart 5 CHR ''0'' (showNat i) @ ''.ts''"

type_synonym keyCache = "(string, byte list) omap"

definition cachedKey ::
  "backendEnv \<Rightarrow> headers option \<Rightarrow> string \<Rightarrow> keyCache \<Rightarrow> keyTag \<Rightarrow> (byte list \<times> keyCache) beff" where
  "cachedKey env auth url cache k =
     (case om_get cache (ktUri k) of
        Some b \<Rightarrow> returnS (b, cache)
      | None \<Rightarrow> thenS (fetchHlsKey env auth url k) (\<lambda>b. returnS (b, om_set (ktUri k) b cache)))"

definition fileS :: "(files \<Rightarrow> netState \<Rightarrow> (exn + nat \<times> files) \<times> netState) \<Rightarrow> nat beff" where
  "fileS f = (\<lambda>s. case f (bFiles s) (bNet s) of
     (Inl e, n) \<Rightarrow> (Inl e, s\<lparr>bNet := n\<rparr>)
   | (Inr (k, fs), n) \<Rightarrow> (Inr k, s\<lparr>bNet := n, bFiles := fs\<rparr>))"

text \<open>One iteration of the segment loop up to the progress report: the key cache and the bytes.\<close>

definition fetchOneSegment ::
  "backendEnv \<Rightarrow> headers option \<Rightarrow> string \<Rightarrow> int \<Rightarrow> nat \<Rightarrow> string \<Rightarrow> keyCache \<Rightarrow> string \<times> keyTag option
     \<Rightarrow> (keyCache \<times> nat) beff" where
  "fetchOneSegment env auth url ms i segPath cache sg =
     (case sg of (segUrl, key) \<Rightarrow>
       (case key of
          Some k \<Rightarrow>
            thenS (cachedKey env auth url cache k) (\<lambda>(keyBuf, cache').
            thenS (netS (fetchResWithRetry (beNet env) (Some segCap) auth segUrl)) (\<lambda>res.
            thenS (liftS (readBodyCapped res segCap)) (\<lambda>buf.
            thenS (liftS (decryptHlsSegment (beCipher env) buf keyBuf (ktIvHex k) (sequenceAt ms i))) (\<lambda>plain.
            thenS (writeS env segPath plain) (\<lambda>_. returnS (cache', length buf))))))
        | None \<Rightarrow>
            thenS (fileS (fetchToFile (beNet env) (beCwd env) (beWriteFails env) (Some segCap) auth segUrl segPath))
              (\<lambda>n. returnS (cache, n))))"

text \<open>\<open>Math.round(((i + 1) / n) * 100)\<close>\<close>

definition percentOf :: "nat \<Rightarrow> nat \<Rightarrow> jsnum" where
  "percentOf i n = Fin (of_int \<lfloor>finValue (roundDouble (finValue (roundDouble (of_nat (i + 1) / of_nat n)) * 100)) + 1 / 2\<rfloor>)"

fun fetchSegments ::
  "backendEnv \<Rightarrow> headers option \<Rightarrow> string \<Rightarrow> int \<Rightarrow> string \<Rightarrow> nat \<Rightarrow> nat \<Rightarrow> keyCache \<Rightarrow> nat
     \<Rightarrow> (string \<times> keyTag option) list \<Rightarrow> (string list) beff" where
  "fetchSegments env auth url ms dir n i cache got [] = returnS []"
| "fetchSegments env auth url ms dir n i cache got (sg # sgs) =
     (let segPath = joinPath dir (segName i) in
      thenS (fetchOneSegment env auth url ms i segPath cache sg) (\<lambda>(cache', k).
      thenS (doS (emitProgress env \<lparr>pePercent = percentOf i n, peBytes = Some (got + k)\<rparr>)) (\<lambda>_.
      thenS (fetchSegments env auth url ms dir n (Suc i) cache' (got + k) sgs) (\<lambda>ps.
      returnS (segPath # ps)))))"

section \<open>The manifest fallback\<close>

text \<open>\<open>p.replace(/'/g, "'\\''")\<close>\<close>

definition quotePath :: "string \<Rightarrow> string" where
  "quotePath p = concat (map (\<lambda>c. if c = CHR 39 then [CHR 39, CHR 92, CHR 39, CHR 39] else [c]) p)"

definition listBody :: "string list \<Rightarrow> string" where
  "listBody ps = joinWith [CHR 10] (map (\<lambda>p. ''file '' @ [CHR 39] @ quotePath p @ [CHR 39]) ps)"

definition lastChars :: "nat \<Rightarrow> string \<Rightarrow> string" where
  "lastChars n s = drop (length s - n) s"

definition showCode :: "int option \<Rightarrow> string" where
  "showCode c = (case c of None \<Rightarrow> ''null''
     | Some n \<Rightarrow> if n < 0 then CHR ''-'' # showNat (nat (- n)) else showNat (nat n))"

definition ffmpegArgs :: "string \<Rightarrow> string \<Rightarrow> string list" where
  "ffmpegArgs listFile outPath =
     [''-y'', ''-f'', ''concat'', ''-safe'', ''0'', ''-i'', listFile, ''-c'', ''copy'', outPath]"

definition concatSegments ::
  "backendEnv \<Rightarrow> headers option \<Rightarrow> string \<Rightarrow> string \<Rightarrow> int \<Rightarrow> (string \<times> keyTag option) list \<Rightarrow> string
     \<Rightarrow> string beff" where
  "concatSegments env auth url outPath ms segs dir =
     (let listFile = joinPath dir ''concat.txt'' in
      thenS (fetchSegments env auth url ms dir (length segs) 0 [] 0 segs) (\<lambda>segFiles.
      thenS (writeS env listFile (beEncode env (listBody segFiles))) (\<lambda>_.
      thenS (runS env True ''ffmpeg'' (ffmpegArgs listFile outPath)) (\<lambda>(ff, _).
      if soCode ff \<noteq> Some 0
      then throwS (dErr NETWORK_ERROR
             (''ffmpeg concat failed (code '' @ showCode (soCode ff) @ ''): '' @ lastChars 512 (soStderr ff)))
      else returnS outPath))))"

definition mediaPlaylist ::
  "backendEnv \<Rightarrow> headers option \<Rightarrow> string \<Rightarrow> string \<Rightarrow> string \<Rightarrow> string beff" where
  "mediaPlaylist env auth url outPath text =
     thenS (liftS (walkPlaylist text)) (\<lambda>w.
     if wSegments w = [] then throwS (dErr NETWORK_ERROR ''playlist contains no segments'')
     else thenS (validateSegments env url [] (wSegments w)) (\<lambda>segs.
          thenS (mkdtempS env) (\<lambda>dir.
          thenS (doS (\<lambda>s. s\<lparr>bLast := 0\<rparr>)) (\<lambda>_.
          finallyS (concatSegments env auth url outPath (wSequence w) segs dir) (removeDir env dir)))))"

datatype manifestNext = Variant string | Done string

text \<open>\<open>/#EXT-X-(?:KEY|SESSION-KEY)/\<close>, \<open>/#EXT-X-STREAM-INF/\<close> and \<open>/#EXT-X-ENDLIST/\<close>\<close>

definition ANY_KEY_RE :: re where
  "ANY_KEY_RE = RSeq (rLit False ''#EXT-X-'') (RAlt (rLit False ''KEY'') (rLit False ''SESSION-KEY''))"

definition manifestStep :: "backendEnv \<Rightarrow> headers option \<Rightarrow> string \<Rightarrow> string \<Rightarrow> manifestNext beff" where
  "manifestStep env auth url outPath =
     thenS (netS (fetchText (beNet env)
              (Some (case beBodyCap env of Some c \<Rightarrow> c | None \<Rightarrow> bytesOf (maxBodyBytes Manifest))) auth url)) (\<lambda>text.
     if \<not> startsWith (trimStart text) ''#EXTM3U''
     then throwS (dErr NO_MEDIA_FOUND ''not an HLS playlist (missing #EXTM3U header)'')
     else if reTest ANY_KEY_RE text \<and> isDrmEncrypted text
     then throwS (dErr DRM_DETECTED
            ''HLS manifest contains DRM encryption (#EXT-X-KEY with SAMPLE-AES / non-identity KEYFORMAT)'')
     else if reTest (rLit False ''#EXT-X-STREAM-INF'') text
     then thenS (readS (\<lambda>s. pickVariantUrl (beNet env) (bNet s) text url)) (\<lambda>v.
          case v of
            None \<Rightarrow> throwS (dErr NETWORK_ERROR ''master playlist has no variant url'')
          | Some u \<Rightarrow> if u = [] then throwS (dErr NETWORK_ERROR ''master playlist has no variant url'')
                      else returnS (Variant u))
     else if \<not> reTest (rLit False ''#EXT-X-ENDLIST'') text
     then throwS (dErr NO_MEDIA_FOUND ''live HLS stream (no #EXT-X-ENDLIST) is not supported by the fallback'')
     else thenS (mediaPlaylist env auth url outPath text) (\<lambda>p. returnS (Done p)))"

definition MAX_DEPTH :: nat where "MAX_DEPTH = 5"

text \<open>
  The first argument is how many levels are left, \<open>MAX_DEPTH + 1 - depth\<close>. The recursive call is
  returned without \<open>await\<close>, so the \<open>finally\<close> that clears the overall timer runs before it.
\<close>

fun manifestLevels ::
  "nat \<Rightarrow> backendEnv \<Rightarrow> headers option \<Rightarrow> bool \<Rightarrow> string \<Rightarrow> string \<Rightarrow> string beff" where
  "manifestLevels 0 env auth ownsAggregate url outPath =
     throwS (dErr NETWORK_ERROR ''manifest recursion depth exceeded'')"
| "manifestLevels (Suc k) env auth ownsAggregate url outPath =
     thenS (doS (\<lambda>s. if ownsAggregate then s\<lparr>bTimer := True\<rparr> else s)) (\<lambda>_.
     thenS (finallyS (manifestStep env auth url outPath)
              (\<lambda>s. if ownsAggregate then s\<lparr>bTimer := False\<rparr> else s)) (\<lambda>r.
     case r of
       Done p \<Rightarrow> returnS p
     | Variant v \<Rightarrow> manifestLevels k env auth False v outPath))"

definition downloadManifestFallback ::
  "backendEnv \<Rightarrow> headers option \<Rightarrow> string \<Rightarrow> string \<Rightarrow> string beff" where
  "downloadManifestFallback env auth url outPath = manifestLevels (Suc MAX_DEPTH) env auth True url outPath"

section \<open>Streamlink\<close>

text \<open>\<open>String(value).replace(/[\r\n]+/g, ' ')\<close>; \<open>inRun\<close> says that the last character was replaced.\<close>

fun collapseNl :: "bool \<Rightarrow> string \<Rightarrow> string" where
  "collapseNl inRun [] = []"
| "collapseNl inRun (c # s) =
     (if code c = 10 \<or> code c = 13 then (if inRun then collapseNl True s else CHR '' '' # collapseNl True s)
      else c # collapseNl False s)"

definition configLine :: "string \<times> string \<Rightarrow> string" where
  "configLine h = ''http-header='' @ fst h @ ''='' @ collapseNl False (snd h)"

definition authConfigPath :: "backendEnv \<Rightarrow> string" where
  "authConfigPath env = joinPath (beTmpdir env) (''bd-auth-'' @ beAuthName env @ ''.conf'')"

text \<open>The flag \<open>wx\<close> refuses an existing file.\<close>

definition writeAuthHeaderConfig :: "backendEnv \<Rightarrow> headers \<Rightarrow> string beff" where
  "writeAuthHeaderConfig env hs = (\<lambda>s.
     let path = authConfigPath env in
     if bFiles s path \<noteq> None
     then (Inl (mkExn OtherC ''Error'' ''EEXIST: file already exists'' (Str ''EEXIST'')), s)
     else thenS (writeS env path (beEncode env (joinWith [CHR 10] (map configLine hs)))) (\<lambda>_. returnS path) s)"

definition PERCENT_RE :: re where
  "PERCENT_RE = RSeq (RCap 1 (RSeq (rPlus (RCls isDigit))
     (rOpt (RSeq (rLit False ''.'') (rPlus (RCls isDigit)))))) (rLit False ''%'')"

definition onOutput :: "backendEnv \<Rightarrow> string \<Rightarrow> backend \<Rightarrow> backend" where
  "onOutput env chunk s = (case reGroup PERCENT_RE 1 chunk of
     None \<Rightarrow> s
   | Some m \<Rightarrow> emitProgress env \<lparr>pePercent = decimalLiteral m, peBytes = None\<rparr> s)"

datatype streamNext = Streamed string | Fallback

definition streamlinkArgs :: "string \<Rightarrow> string \<Rightarrow> string option \<Rightarrow> string list" where
  "streamlinkArgs url outPath config =
     [''--progress=force'', ''--url'', url, ''--default-stream'', ''best'', ''-o'', outPath] @
     (case config of None \<Rightarrow> [] | Some p \<Rightarrow> [''--config'', p])"

definition streamStep :: "backendEnv \<Rightarrow> string \<Rightarrow> string \<Rightarrow> string option \<Rightarrow> streamNext beff" where
  "streamStep env url outPath config =
     thenS (runS env (beHasSignal env) ''streamlink'' (streamlinkArgs url outPath config)) (\<lambda>(result, chunks).
     thenS (doS (\<lambda>s. foldl (\<lambda>t c. onOutput env c t) s chunks)) (\<lambda>_.
     if soCode result = Some 0 then returnS (Streamed outPath)
     else if reTest HLS_RE url then returnS Fallback
     else throwS (dErr NETWORK_ERROR (''streamlink failed'' @
            (if reTest DASH_RE url then '' (DASH, no manual fallback)'' else []) @
            '' (code '' @ showCode (soCode result) @ ''): '' @ lastChars 512 (soStderr result)))))"

text \<open>The \<open>try .. finally\<close> of \<open>downloadStream\<close>: the credential file lives while the child runs.\<close>

definition streamlinkPhase :: "backendEnv \<Rightarrow> headers option \<Rightarrow> string \<Rightarrow> string \<Rightarrow> streamNext beff" where
  "streamlinkPhase env auth url outPath = (case auth of
     Some (h # hs) \<Rightarrow>
       thenS (writeAuthHeaderConfig env (h # hs)) (\<lambda>p.
         finallyS (streamStep env url outPath (Some p)) (unlinkFile env p))
   | _ \<Rightarrow> streamStep env url outPath None)"

definition downloadStream :: "backendEnv \<Rightarrow> headers option \<Rightarrow> string \<Rightarrow> string \<Rightarrow> string beff" where
  "downloadStream env auth url outPath =
     thenS (guardS env url) (\<lambda>_.
     thenS (doS (\<lambda>s. s\<lparr>bLast := 0\<rparr>)) (\<lambda>_.
     thenS (streamlinkPhase env auth url outPath) (\<lambda>r.
     case r of
       Streamed p \<Rightarrow> returnS p
     | Fallback \<Rightarrow> downloadManifestFallback env auth url outPath)))"

section \<open>The interface: what a backend run logs\<close>

text \<open>
  A relation between the states before and after that the elementary steps keep: fetches of
  allowed URLs, children with allowed arguments, and changes of files, progress and temporary
  names. Allowed URLs include every URL the guard accepts and depend on the host only, which is
  what makes the per-host cache of the validation loop sound.
\<close>

locale backend_log = log_rel R for R :: "backend \<Rightarrow> backend \<Rightarrow> bool" +
  fixes env :: backendEnv
    and okUrl :: "string \<Rightarrow> bool"
    and okCall :: "string \<Rightarrow> string list \<Rightarrow> bool"
  assumes guard_ok: "isOk (urlGuard (beNet env) n u) \<Longrightarrow> okUrl u"
    and host_ok: "okUrl u \<Longrightarrow> urlHost (beNet env) u = urlHost (beNet env) v \<Longrightarrow> okUrl v"
    and fetch_ok: "okUrl u \<Longrightarrow> R s (s\<lparr>bNet := snd (fetchResWithRetry (beNet env) c h u (bNet s))\<rparr>)"
    and run_ok: "okCall cmd args \<Longrightarrow> R s (snd (runS env b cmd args s))"
    and files_ok: "R s (s\<lparr>bFiles := f\<rparr>)"
    and progress_ok: "R s (s\<lparr>bTicks := i, bLast := l, bProgress := ps\<rparr>)"
begin

lemma keeps_fetch: "okUrl u \<Longrightarrow> keeps R (netS (fetchResWithRetry (beNet env) c h u))"
  using fetch_ok unfolding keeps_def netS_def by (auto split: prod.splits) (metis snd_conv)

lemma keeps_fetchText: "okUrl u \<Longrightarrow> keeps R (netS (fetchText (beNet env) c h u))"
  using fetch_ok unfolding keeps_def netS_def fetchText_def
  by (auto split: prod.splits simp: Let_def) (metis snd_conv)

lemma keeps_toFile: "okUrl u \<Longrightarrow> keeps R (fileS (fetchToFile (beNet env) wd wfl c h u p))"
  unfolding keeps_def
proof
  fix s :: backend assume ok: "okUrl u"
  obtain r n where f: "fetchResWithRetry (beNet env) c h u (bNet s) = (r, n)"
    by (cases "fetchResWithRetry (beNet env) c h u (bNet s)")
  have n: "R s (s\<lparr>bNet := n\<rparr>)" using fetch_ok [OF ok, of s c h] f by simp
  have "R s (s\<lparr>bNet := n, bFiles := fs\<rparr>)" for fs using trans_log [OF n files_ok] .
  with n show "R s (snd (fileS (fetchToFile (beNet env) wd wfl c h u p) s))"
    by (auto simp: fileS_def fetchToFile_def f split: sum.splits prod.splits)
qed

lemma keeps_guardS: "keeps R (guardS env u)"
  by (simp add: keeps_def guardS_def refl_log)

lemma keeps_guarded: "(\<And>x. okUrl u \<Longrightarrow> keeps R (f x)) \<Longrightarrow> keeps R (thenS (guardS env u) f)"
proof (rule keeps_thenS_on [OF keeps_guardS])
  fix s x s' assume k: "\<And>x. okUrl u \<Longrightarrow> keeps R (f x)" and g: "guardS env u s = (Inr x, s')"
  have "urlGuard (beNet env) (bNet s) u = Inr x" using g by (auto simp: guardS_def mapErr_Inr_iff)
  then have "okUrl u" by (intro guard_ok) (auto simp: isOk_iff)
  with k show "R s' (snd (f x s'))" by (simp add: keeps_def)
qed

lemma keeps_writeS: "keeps R (writeS env p b)"
  by (auto simp: keeps_def writeS_def refl_log files_ok split: sum.splits)

lemma keeps_emit: "keeps R (doS (emitProgress env ev))"
proof -
  have "R s (emitProgress env ev s)" for s
    using progress_ok [where s = s and i = "bTicks s" and l = "bLast s" and ps = "bProgress s"]
    by (auto simp: emitProgress_def refl_log progress_ok split: prod.splits)
  then show ?thesis by (rule keeps_doS)
qed

lemma keeps_last: "R s (s\<lparr>bLast := l\<rparr>)"
  using progress_ok [where s = s and i = "bTicks s" and l = l and ps = "bProgress s"] by simp

lemma keeps_fetchHlsKey: "keeps R (fetchHlsKey env auth url kt)"
  unfolding fetchHlsKey_def
  by (intro keeps_thenS keeps_pure keeps_guarded keeps_fetch)

lemma keeps_cachedKey: "keeps R (cachedKey env auth url cache k)"
  unfolding cachedKey_def by (auto split: option.split intro: keeps_thenS keeps_pure keeps_fetchHlsKey)

lemma keeps_fetchOneSegment: "okUrl (fst sg) \<Longrightarrow> keeps R (fetchOneSegment env auth url ms i p cache sg)"
  unfolding fetchOneSegment_def
  by (auto split: prod.split option.split
      intro!: keeps_thenS keeps_pure keeps_cachedKey keeps_fetch keeps_toFile keeps_writeS)

lemma keeps_fetchSegments:
  "\<forall>sg\<in>set segs. okUrl (fst sg) \<Longrightarrow> keeps R (fetchSegments env auth url ms dir n i cache got segs)"
proof (induction segs arbitrary: i cache got)
  case (Cons sg segs)
  then show ?case
    by (auto simp: Let_def split: prod.split
        intro!: keeps_thenS keeps_pure keeps_fetchOneSegment keeps_emit)
qed (simp add: keeps_pure)

lemma keeps_concatSegments:
  assumes "\<forall>sg\<in>set segs. okUrl (fst sg)" "okCall ''ffmpeg'' (ffmpegArgs (joinPath dir ''concat.txt'') out)"
  shows "keeps R (concatSegments env auth url out ms segs dir)"
proof -
  have "keeps R (runS env True ''ffmpeg'' (ffmpegArgs (joinPath dir ''concat.txt'') out))"
    using run_ok [OF assms(2)] by (simp add: keeps_def)
  with assms(1) show ?thesis unfolding concatSegments_def Let_def
    by (auto split: prod.split intro!: keeps_thenS keeps_pure keeps_fetchSegments keeps_writeS)
qed

lemma validateSegments_ok:
  "validateSegments env base hosts sgs s = (Inr segs, t) \<Longrightarrow>
   \<forall>h\<in>set hosts. \<exists>u. okUrl u \<and> urlHost (beNet env) u = h \<Longrightarrow> t = s \<and> (\<forall>sg\<in>set segs. okUrl (fst sg))"
proof (induction sgs arbitrary: hosts segs t)
  case Nil
  then show ?case by (simp add: returnS_def)
next
  case (Cons sg sgs)
  define u where "u = segHref (beNet env) base (sgUri sg)"
  define hs where "hs = (if urlHost (beNet env) u \<in> set hosts then hosts else hosts @ [urlHost (beNet env) u])"
  have "\<exists>rest. validateSegments env base hs sgs s = (Inr rest, t) \<and> segs = (u, sgKey sg) # rest
      \<and> (urlHost (beNet env) u \<in> set hosts \<or> isOk (urlGuard (beNet env) (bNet s) u))"
    using Cons.prems(1)
    by (auto simp: Let_def u_def [symmetric] hs_def thenS_Inr returnS_def guardS_def mapErr_Inr_iff
        isOk_iff split: if_splits)
  then obtain rest where r: "validateSegments env base hs sgs s = (Inr rest, t)" "segs = (u, sgKey sg) # rest"
    and ok: "urlHost (beNet env) u \<in> set hosts \<or> isOk (urlGuard (beNet env) (bNet s) u)" by blast
  have u: "okUrl u" using ok Cons.prems(2) guard_ok host_ok by metis
  then have "\<forall>h\<in>set hs. \<exists>v. okUrl v \<and> urlHost (beNet env) v = h"
    using Cons.prems(2) by (auto simp: hs_def)
  from Cons.IH [OF r(1) this] u r(2) show ?case by simp
qed

lemma keeps_validateSegments: "keeps R (validateSegments env base hosts sgs)"
  by (induction sgs arbitrary: hosts)
    (auto simp: Let_def intro!: keeps_pure keeps_thenS keeps_guardS)

end

text \<open>Relations that allow a new temporary directory are kept by whole playlists.\<close>

locale playlist_log = backend_log R env okUrl okCall
  for R :: "backend \<Rightarrow> backend \<Rightarrow> bool" and env :: backendEnv
    and okUrl :: "string \<Rightarrow> bool" and okCall :: "string \<Rightarrow> string list \<Rightarrow> bool" +
  assumes temps_ok: "R s (s\<lparr>bTemps := i\<rparr>)"
begin

lemma keeps_mkdtempS: "keeps R (mkdtempS env)"
  by (auto simp: keeps_def mkdtempS_def refl_log temps_ok split: option.splits)

lemma keeps_mediaPlaylist:
  assumes "\<And>dir. okCall ''ffmpeg'' (ffmpegArgs (joinPath dir ''concat.txt'') out)"
  shows "keeps R (mediaPlaylist env auth url out text)"
proof -
  have tail: "keeps R (thenS (mkdtempS env) (\<lambda>dir. thenS (doS (\<lambda>s. s\<lparr>bLast := 0\<rparr>)) (\<lambda>_.
      finallyS (concatSegments env auth url out ms segs dir) (removeDir env dir))))"
    if "\<forall>sg\<in>set segs. okUrl (fst sg)" for segs ms
    using that assms
    by (intro keeps_thenS keeps_mkdtempS keeps_doS keeps_last keeps_finallyS keeps_concatSegments)
      (auto simp: removeDir_def refl_log files_ok)
  show ?thesis unfolding mediaPlaylist_def
  proof (intro keeps_thenS keeps_pure)
    fix w
    show "keeps R (if wSegments w = [] then throwS (dErr NETWORK_ERROR ''playlist contains no segments'')
      else thenS (validateSegments env url [] (wSegments w)) (\<lambda>segs. thenS (mkdtempS env) (\<lambda>dir.
        thenS (doS (\<lambda>s. s\<lparr>bLast := 0\<rparr>)) (\<lambda>_.
        finallyS (concatSegments env auth url out (wSequence w) segs dir) (removeDir env dir)))))"
    proof (cases "wSegments w = []")
      case False
      have "keeps R (thenS (validateSegments env url [] (wSegments w)) (\<lambda>segs. thenS (mkdtempS env) (\<lambda>dir.
        thenS (doS (\<lambda>s. s\<lparr>bLast := 0\<rparr>)) (\<lambda>_.
        finallyS (concatSegments env auth url out (wSequence w) segs dir) (removeDir env dir)))))"
      proof (rule keeps_thenS_on [OF keeps_validateSegments])
        fix s segs t assume "validateSegments env url [] (wSegments w) s = (Inr segs, t)"
        then have "\<forall>sg\<in>set segs. okUrl (fst sg)" using validateSegments_ok by fastforce
        from tail [OF this] show "R t (snd (thenS (mkdtempS env) (\<lambda>dir. thenS (doS (\<lambda>s. s\<lparr>bLast := 0\<rparr>)) (\<lambda>_.
            finallyS (concatSegments env auth url out (wSequence w) segs dir) (removeDir env dir))) t))"
          by (simp add: keeps_def)
      qed
      with False show ?thesis by simp
    qed (simp add: keeps_pure)
  qed
qed

lemma keeps_manifestStep:
  assumes "okUrl url" "\<And>dir. okCall ''ffmpeg'' (ffmpegArgs (joinPath dir ''concat.txt'') out)"
  shows "keeps R (manifestStep env auth url out)"
  unfolding manifestStep_def
  by (auto split: option.split
      intro!: keeps_thenS keeps_pure keeps_fetchText [OF assms(1)] keeps_mediaPlaylist [OF assms(2)])

text \<open>The next manifest of the recursion is a URL the guard accepted.\<close>

lemma pickVariantLoop_ok:
  "case best of None \<Rightarrow> True | Some (u, b) \<Rightarrow> okUrl u \<Longrightarrow>
   pickVariantLoop (beNet env) n base best ls = Some (v, b) \<Longrightarrow> okUrl v"
proof (induction ls arbitrary: best)
  case (Cons l ls)
  have g: "okUrl u" if "variantAt (beNet env) n base l ls = Some (u, c)" for u c
    using that guard_ok by (auto simp: variantAt_def split: if_splits list.splits option.splits)
  define best' where "best' = (case variantAt (beNet env) n base l ls of
      None \<Rightarrow> best
    | Some (u, c) \<Rightarrow> (case best of None \<Rightarrow> Some (u, c) | Some (_, b) \<Rightarrow> if b < c then Some (u, c) else best))"
  have "case best' of None \<Rightarrow> True | Some (u, b) \<Rightarrow> okUrl u"
    using Cons.prems(1) g by (auto simp: best'_def split: option.splits)
  moreover have "pickVariantLoop (beNet env) n base best' ls = Some (v, b)"
    using Cons.prems(2) by (auto simp: best'_def Let_def split: option.splits)
  ultimately show ?case by (rule Cons.IH)
qed auto

lemma pickVariantUrl_ok: "pickVariantUrl (beNet env) n text base = Some v \<Longrightarrow> okUrl v"
  using pickVariantLoop_ok [of None n base "trimmedLines text"] by (auto simp: pickVariantUrl_def)

lemma manifestStep_variant:
  assumes "manifestStep env auth url out s = (Inr (Variant v), t)"
  shows "okUrl v"
proof -
  have "\<exists>n text. pickVariantUrl (beNet env) n text url = Some v"
    using assms unfolding manifestStep_def thenS_Inr
    by (auto simp: thenS_Inr eff_defs split: if_splits option.splits)
  then show ?thesis using pickVariantUrl_ok by blast
qed

end

text \<open>Relations that do not look at the overall timer are kept by whole downloads.\<close>

locale timed_log = playlist_log R env okUrl okCall
  for R :: "backend \<Rightarrow> backend \<Rightarrow> bool" and env :: backendEnv
    and okUrl :: "string \<Rightarrow> bool" and okCall :: "string \<Rightarrow> string list \<Rightarrow> bool" +
  assumes timer_ok: "R s (s\<lparr>bTimer := b\<rparr>)"
begin

lemma keeps_timer: "keeps R (doS (\<lambda>s. if b then s\<lparr>bTimer := x\<rparr> else s))"
  by (rule keeps_doS) (simp add: timer_ok refl_log)

lemma keeps_manifestLevels:
  assumes call: "\<And>dir. okCall ''ffmpeg'' (ffmpegArgs (joinPath dir ''concat.txt'') out)"
  shows "okUrl url \<Longrightarrow> keeps R (manifestLevels k env auth owns url out)"
proof (induction k arbitrary: url owns)
  case (Suc k)
  have step: "keeps R (finallyS (manifestStep env auth url out) (\<lambda>s. if owns then s\<lparr>bTimer := False\<rparr> else s))"
    by (rule keeps_finallyS [OF keeps_manifestStep [OF Suc.prems call]]) (simp add: timer_ok refl_log)
  show ?case unfolding manifestLevels.simps
  proof (rule keeps_thenS [OF keeps_timer], rule keeps_thenS_on [OF step])
    fix x s r t
    assume "finallyS (manifestStep env auth url out) (\<lambda>s. if owns then s\<lparr>bTimer := False\<rparr> else s) s = (Inr r, t)"
    then obtain t' where m: "manifestStep env auth url out s = (Inr r, t')" by (auto simp: finallyS_eq)
    show "R t (snd ((case r of Done p \<Rightarrow> returnS p | Variant v \<Rightarrow> manifestLevels k env auth False v out) t))"
    proof (cases r)
      case (Variant v)
      with m manifestStep_variant have "okUrl v" by blast
      from Suc.IH [OF this] Variant show ?thesis by (simp add: keeps_def)
    qed (simp add: returnS_def refl_log)
  qed
qed (simp add: keeps_pure)

lemma keeps_writeAuth: "keeps R (writeAuthHeaderConfig env hs)"
proof -
  have "keeps R (thenS (writeS env p b) (\<lambda>_. returnS q))" for p b and q :: string
    by (intro keeps_thenS keeps_writeS keeps_pure)
  then show ?thesis by (auto simp: keeps_def writeAuthHeaderConfig_def Let_def refl_log)
qed

lemma emit_log: "R s (emitProgress env ev s)"
  using keeps_emit [of ev] by (simp add: keeps_def doS_def)

lemma onOutput_log: "R s (onOutput env c s)"
  by (auto simp: onOutput_def refl_log emit_log split: option.split)

lemma outputs_log: "R s (foldl (\<lambda>t c. onOutput env c t) s chunks)"
proof (induction chunks arbitrary: s)
  case (Cons c chunks)
  show ?case using trans_log [OF onOutput_log Cons.IH] by simp
qed (simp add: refl_log)

lemma keeps_streamStep:
  assumes "okCall ''streamlink'' (streamlinkArgs url out cfg)"
  shows "keeps R (streamStep env url out cfg)"
proof -
  have "keeps R (runS env b ''streamlink'' (streamlinkArgs url out cfg))" for b
    using run_ok [OF assms] by (simp add: keeps_def)
  then show ?thesis unfolding streamStep_def
    by (auto split: prod.split intro!: keeps_thenS keeps_pure keeps_doS outputs_log)
qed

lemma keeps_downloadStream:
  assumes "\<And>dir. okCall ''ffmpeg'' (ffmpegArgs (joinPath dir ''concat.txt'') out)"
    and "okCall ''streamlink'' (streamlinkArgs url out None)"
    and "okCall ''streamlink'' (streamlinkArgs url out (Some (authConfigPath env)))"
  shows "keeps R (downloadStream env auth url out)"
proof -
  have un: "R s (unlinkFile env p s)" for s p by (simp add: unlinkFile_def refl_log files_ok)
  have cfg: "keeps R (thenS (writeAuthHeaderConfig env hs) (\<lambda>p. finallyS (streamStep env url out (Some p)) (unlinkFile env p)))" for hs
  proof (rule keeps_thenS_on [OF keeps_writeAuth])
    fix s p t assume "writeAuthHeaderConfig env hs s = (Inr p, t)"
    then have "p = authConfigPath env"
      by (auto simp: writeAuthHeaderConfig_def Let_def thenS_Inr returnS_def split: if_splits)
    with keeps_finallyS [OF keeps_streamStep [OF assms(3)] un]
    show "R t (snd (finallyS (streamStep env url out (Some p)) (unlinkFile env p) t))"
      by (simp add: keeps_def)
  qed
  show ?thesis unfolding downloadStream_def downloadManifestFallback_def
  proof (rule keeps_guarded, intro keeps_thenS keeps_doS keeps_last, goal_cases)
    case 1
    show ?case using cfg keeps_streamStep [OF assms(2)]
      by (auto simp: streamlinkPhase_def split: option.split list.split)
  next
    case (2 x y r)
    then show ?case using keeps_manifestLevels [OF assms(1)]
      by (auto simp del: manifestLevels.simps split: streamNext.split intro: keeps_pure)
  qed
qed

end

section \<open>Instance: requests only go to hosts that passed the guard\<close>

definition safeHost :: "backendEnv \<Rightarrow> string \<Rightarrow> bool" where
  "safeHost env h \<longleftrightarrow> (\<exists>k s v. guardStr (parseUrl (beNet env)) (lookupAt (beNet env) k) s = Inr v \<and> hostname v = h)"

definition guardedLog :: "backendEnv \<Rightarrow> backend \<Rightarrow> backend \<Rightarrow> bool" where
  "guardedLog env s t \<longleftrightarrow> (\<exists>qs. sent (bNet t) = sent (bNet s) @ qs
     \<and> (\<forall>q\<in>set qs. rqRedirect q = ''manual'' \<and> safeHost env (urlHost (beNet env) (rqUrl q))))"

lemma guarded_safeHost: "guarded (beNet env) u \<Longrightarrow> safeHost env (urlHost (beNet env) u)"
proof -
  assume "guarded (beNet env) u"
  then obtain k v where v: "guardStr (parseUrl (beNet env)) (lookupAt (beNet env) k) u = Inr v"
    by (auto simp: guarded_def isOk_iff)
  then have "parseUrl (beNet env) u = Some v" by (rule vurl.guard_parse)
  with v show ?thesis by (auto simp: safeHost_def urlHost_def)
qed

lemma guardedLog_same: "bNet t = bNet s \<Longrightarrow> guardedLog env s t"
  by (simp add: guardedLog_def)

lemma guardedLog_fetch:
  assumes "safeHost env (urlHost (beNet env) u)"
  shows "guardedLog env s (s\<lparr>bNet := snd (fetchResWithRetry (beNet env) c h u (bNet s))\<rparr>)"
proof -
  obtain r n where f: "fetchResWithRetry (beNet env) c h u (bNet s) = (r, n)"
    by (cases "fetchResWithRetry (beNet env) c h u (bNet s)")
  from fetchResWithRetry_sends [OF f] assms guarded_safeHost [of env]
  show ?thesis by (fastforce simp: f sends_def guardedLog_def)
qed

interpretation ssrf: timed_log "guardedLog env" env "\<lambda>u. safeHost env (urlHost (beNet env) u)" "\<lambda>_ _. True" for env
proof (unfold_locales, goal_cases)
  case (2 s t u)
  then obtain ps qs where "sent (bNet t) = sent (bNet s) @ ps" "sent (bNet u) = sent (bNet t) @ qs"
      "\<forall>q\<in>set ps. rqRedirect q = ''manual'' \<and> safeHost env (urlHost (beNet env) (rqUrl q))"
      "\<forall>q\<in>set qs. rqRedirect q = ''manual'' \<and> safeHost env (urlHost (beNet env) (rqUrl q))"
    unfolding guardedLog_def by blast
  then show ?case unfolding guardedLog_def by (intro exI [of _ "ps @ qs"]) auto
next
  case (3 n u)
  then show ?case using guarded_safeHost by (auto simp: guarded_def urlGuard_def)
next
  case (5 u s c h)
  then show ?case by (rule guardedLog_fetch)
next
  case (6 cmd args s b)
  then show ?case by (simp add: runS_def Let_def guardedLog_same split: prod.split)
qed (simp_all add: guardedLog_same)

section \<open>Instance: which children are started\<close>

definition childLog :: "(spawnCall \<Rightarrow> bool) \<Rightarrow> backend \<Rightarrow> backend \<Rightarrow> bool" where
  "childLog P s t \<longleftrightarrow> bTimer t = bTimer s
     \<and> (\<exists>cs. bSpawned t = bSpawned s @ cs \<and> (\<forall>c\<in>set cs. scTimer c = bTimer s \<and> P c))"

lemma childLog_same: "bSpawned t = bSpawned s \<Longrightarrow> bTimer t = bTimer s \<Longrightarrow> childLog P s t"
  by (simp add: childLog_def)

interpretation kids: playlist_log "childLog P" env "\<lambda>_. True"
    "\<lambda>cmd args. \<forall>fs b. P \<lparr>scCmd = cmd, scArgs = args, scFiles = fs, scTimer = b\<rparr>" for P env
proof (unfold_locales, goal_cases)
  case (2 s t u)
  then obtain ps qs where "bSpawned t = bSpawned s @ ps" "bSpawned u = bSpawned t @ qs"
      "\<forall>c\<in>set ps. scTimer c = bTimer s \<and> P c" "\<forall>c\<in>set qs. scTimer c = bTimer s \<and> P c"
      "bTimer t = bTimer s" "bTimer u = bTimer s"
    unfolding childLog_def by auto
  then show ?case unfolding childLog_def by (intro conjI exI [of _ "ps @ qs"]) auto
next
  case (6 cmd args s b)
  then show ?case by (auto simp: runS_def Let_def childLog_def split: prod.split)
qed (simp_all add: childLog_same)

text \<open>Without the timer the same log is kept by whole downloads.\<close>

definition spawnedLog :: "(spawnCall \<Rightarrow> bool) \<Rightarrow> backend \<Rightarrow> backend \<Rightarrow> bool" where
  "spawnedLog P s t \<longleftrightarrow> (\<exists>cs. bSpawned t = bSpawned s @ cs \<and> (\<forall>c\<in>set cs. P c))"

lemma spawnedLog_same: "bSpawned t = bSpawned s \<Longrightarrow> spawnedLog P s t"
  by (simp add: spawnedLog_def)

interpretation argv: timed_log "spawnedLog P" env "\<lambda>_. True"
    "\<lambda>cmd args. \<forall>fs b. P \<lparr>scCmd = cmd, scArgs = args, scFiles = fs, scTimer = b\<rparr>" for P env
proof (unfold_locales, goal_cases)
  case (2 s t u)
  then obtain ps qs where "bSpawned t = bSpawned s @ ps" "bSpawned u = bSpawned t @ qs"
      "\<forall>c\<in>set ps. P c" "\<forall>c\<in>set qs. P c"
    unfolding spawnedLog_def by blast
  then show ?case unfolding spawnedLog_def by (intro exI [of _ "ps @ qs"]) auto
next
  case (6 cmd args s b)
  then show ?case by (auto simp: runS_def Let_def spawnedLog_def split: prod.split)
qed (simp_all add: spawnedLog_same)

section \<open>Facts: the recursion over manifests\<close>

lemma manifestLevels_kids:
  assumes "\<And>dir fs b. P \<lparr>scCmd = ''ffmpeg'', scArgs = ffmpegArgs (joinPath dir ''concat.txt'') out, scFiles = fs, scTimer = b\<rparr>"
  shows "keeps (childLog P) (manifestLevels k env auth False url out)"
proof (induction k arbitrary: url)
  case (Suc k)
  have step: "keeps (childLog P) (finallyS (manifestStep env auth url out)
      (\<lambda>s. if False then s\<lparr>bTimer := False\<rparr> else s))"
    by (rule kids.keeps_finallyS [OF kids.keeps_manifestStep]) (simp_all add: assms kids.refl_log)
  have id: "keeps (childLog P) (doS (\<lambda>s. if False then s\<lparr>bTimer := True\<rparr> else s))"
    by (rule kids.keeps_doS) (simp add: kids.refl_log)
  show ?case unfolding manifestLevels.simps
    by (intro kids.keeps_thenS [OF id] kids.keeps_thenS [OF step])
      (use Suc.IH in \<open>auto split: manifestNext.split intro: kids.keeps_pure\<close>)
qed (simp add: kids.keeps_pure)

section \<open>Facts: temporary directories\<close>

interpretation temps: backend_log "\<lambda>s t. bTemps t = bTemps s" env "\<lambda>_. True" "\<lambda>_ _. True" for env
  by unfold_locales (simp_all add: runS_def Let_def split: prod.split)

definition tempDir :: "backendEnv \<Rightarrow> string \<Rightarrow> string" where
  "tempDir env x = joinPath (beTmpdir env) ''bd-hls-'' @ x"

text \<open>At most one directory was made, and it is empty again.\<close>

definition cleanAfter :: "backendEnv \<Rightarrow> backend \<Rightarrow> backend \<Rightarrow> bool" where
  "cleanAfter env s t \<longleftrightarrow> bTemps t = bTemps s
     \<or> (\<exists>x. beSuffix env (bTemps s) = Some x \<and> bTemps t = Suc (bTemps s)
          \<and> (\<forall>p. isUnder p (tempDir env x) \<longrightarrow> bFiles t p = None))"

lemma cleanAfter_cong:
  "bTemps s' = bTemps s \<Longrightarrow> bTemps t' = bTemps t \<Longrightarrow> bFiles t' = bFiles t \<Longrightarrow>
   cleanAfter env s' t' \<longleftrightarrow> cleanAfter env s t"
  by (simp add: cleanAfter_def)

lemma guardS_run: "guardS env u s = (mapErr plainErr (urlGuard (beNet env) (bNet s) u), s)"
  by (simp add: guardS_def)

lemma validateSegments_state: "snd (validateSegments env base hosts sgs s) = s"
proof (induction sgs arbitrary: hosts s)
  case (Cons sg sgs)
  have k: "snd (thenS (validateSegments env base hs sgs) (\<lambda>rest. returnS (f rest)) s) = s" for hs s f
    using Cons.IH [of hs s] by (auto simp: eff_run split: prod.splits sum.splits)
  show ?case
    using k by (auto simp: Let_def eff_run(6) [of "guardS env _"] guardS_run split: sum.splits)
qed (simp add: returnS_def)

lemma mediaPlaylist_clean:
  assumes rm: "\<And>x. \<not> beRmFails env x"
  shows "cleanAfter env s (snd (mediaPlaylist env auth url out text s))"
proof -
  have body: "cleanAfter env s (snd (thenS (mkdtempS env) (\<lambda>dir. thenS (doS (\<lambda>s. s\<lparr>bLast := 0\<rparr>)) (\<lambda>_.
      finallyS (concatSegments env auth url out ms segs dir) (removeDir env dir))) s))" for ms segs
  proof (cases "beSuffix env (bTemps s)")
    case None
    then show ?thesis by (simp add: eff_run mkdtempS_def cleanAfter_def)
  next
    case (Some x)
    let ?s1 = "s\<lparr>bTemps := bTemps s + 1, bLast := 0\<rparr>"
    obtain r t where c: "concatSegments env auth url out ms segs (tempDir env x) ?s1 = (r, t)"
      by (cases "concatSegments env auth url out ms segs (tempDir env x) ?s1")
    have "keeps (\<lambda>s t. bTemps t = bTemps s) (concatSegments env auth url out ms segs (tempDir env x))"
      by (rule temps.keeps_concatSegments) simp_all
    then have "bTemps t = bTemps s + 1" using c by (auto simp: keeps_def dest: spec [of _ ?s1])
    then show ?thesis using Some c rm
      by (simp add: eff_run mkdtempS_def tempDir_def [symmetric] removeDir_def cleanAfter_def)
  qed
  show ?thesis
  proof (cases "walkPlaylist text")
    case (Inr w)
    show ?thesis
    proof (cases "wSegments w = []")
      case False
      obtain q where q: "validateSegments env url [] (wSegments w) s = (q, s)"
        using validateSegments_state [of env url "[]" "wSegments w" s]
        by (cases "validateSegments env url [] (wSegments w) s") simp
      show ?thesis
      proof (cases q)
        case (Inl e)
        then show ?thesis using Inr False q by (simp add: mediaPlaylist_def eff_run cleanAfter_def)
      next
        case (Inr segs)
        then show ?thesis using \<open>walkPlaylist text = Inr w\<close> False q body [of "wSequence w" segs]
          by (simp add: mediaPlaylist_def eff_run(3) eff_run(6) [of "liftS _"] eff_run(6) [of "validateSegments _ _ _ _"])
      qed
    qed (simp add: mediaPlaylist_def eff_run Inr cleanAfter_def)
  qed (simp add: mediaPlaylist_def eff_run cleanAfter_def)
qed

lemma manifestStep_clean:
  assumes rm: "\<And>x. \<not> beRmFails env x"
  shows "cleanAfter env s (snd (manifestStep env auth url out s))
    \<and> (\<forall>v. fst (manifestStep env auth url out s) = Inr (Variant v) \<longrightarrow>
         bTemps (snd (manifestStep env auth url out s)) = bTemps s)"
proof -
  define cap where "cap = (case beBodyCap env of Some c \<Rightarrow> c | None \<Rightarrow> bytesOf (maxBodyBytes Manifest))"
  obtain r n where f: "fetchText (beNet env) (Some cap) auth url (bNet s) = (r, n)"
    by (cases "fetchText (beNet env) (Some cap) auth url (bNet s)")
  show ?thesis
  proof (cases r)
    case (Inl e)
    then show ?thesis by (simp add: manifestStep_def cap_def [symmetric] eff_run netS_def f cleanAfter_def)
  next
    case (Inr man)
    obtain mr t where m: "mediaPlaylist env auth url out man (s\<lparr>bNet := n\<rparr>) = (mr, t)"
      by (cases "mediaPlaylist env auth url out man (s\<lparr>bNet := n\<rparr>)")
    have "cleanAfter env s t"
      using mediaPlaylist_clean [OF rm, of "s\<lparr>bNet := n\<rparr>" auth url out man] m
        cleanAfter_cong [of "s\<lparr>bNet := n\<rparr>" s t t] by simp
    then show ?thesis
      by (auto simp: manifestStep_def cap_def [symmetric] eff_run netS_def f Inr m cleanAfter_def
          split: option.split sum.split)
  qed
qed

lemma manifestLevels_clean:
  assumes rm: "\<And>x. \<not> beRmFails env x"
  shows "cleanAfter env s (snd (manifestLevels k env auth owns url out s))"
proof (induction k arbitrary: url owns s)
  case 0
  then show ?case by (simp add: throwS_def cleanAfter_def)
next
  case (Suc k)
  define s0 where "s0 = (if owns then s\<lparr>bTimer := True\<rparr> else s)"
  obtain r t where m: "manifestStep env auth url out s0 = (r, t)" by (cases "manifestStep env auth url out s0")
  define t0 where "t0 = (if owns then t\<lparr>bTimer := False\<rparr> else t)"
  have c: "cleanAfter env s t0" and v: "\<forall>u. r = Inr (Variant u) \<longrightarrow> bTemps t0 = bTemps s"
    using manifestStep_clean [OF rm, of s0 auth url out] m cleanAfter_cong [of s s0 t0 t]
    by (auto simp: s0_def t0_def)
  have eq: "manifestLevels (Suc k) env auth owns url out s =
      (case r of Inl e \<Rightarrow> (Inl e, t0) | Inr (Done p) \<Rightarrow> (Inr p, t0)
       | Inr (Variant u) \<Rightarrow> manifestLevels k env auth False u out t0)"
    using m by (auto simp: eff_run s0_def t0_def split: sum.split manifestNext.split)
  show ?case
  proof (cases "\<exists>u. r = Inr (Variant u)")
    case True
    then obtain u where u: "r = Inr (Variant u)" by blast
    with v have b: "bTemps t0 = bTemps s" by blast
    from Suc.IH [of t0 False u] show ?thesis unfolding eq u by (simp add: cleanAfter_def b)
  next
    case False
    with c show ?thesis unfolding eq by (auto split: sum.split manifestNext.split)
  qed
qed

section \<open>Facts: what ffmpeg concatenates\<close>

text \<open>The bytes written for a segment: its plain text under some key when the playlist names a key.\<close>

definition segmentBytes :: "backendEnv \<Rightarrow> int \<Rightarrow> nat \<Rightarrow> string \<times> keyTag option \<Rightarrow> byte list \<Rightarrow> bool" where
  "segmentBytes env ms i sg b \<longleftrightarrow> (case snd sg of
     None \<Rightarrow> True
   | Some k \<Rightarrow> \<exists>keyBuf buf. length keyBuf = 16
       \<and> beCipher env keyBuf (segmentIv (ktIvHex k) (sequenceAt ms i)) buf = Some b)"

lemma netS_frame: "netS f s = (r, t) \<Longrightarrow> bFiles t = bFiles s \<and> bSpawned t = bSpawned s"
  by (auto simp: netS_def split: prod.splits)

lemma cachedKey_frame: "cachedKey env auth url cache k s = (r, t) \<Longrightarrow> bFiles t = bFiles s \<and> bSpawned t = bSpawned s"
  by (auto simp: cachedKey_def fetchHlsKey_def eff_run guardS_run split: option.splits prod.splits sum.splits
      dest!: netS_frame)

lemma decrypt_ok: "decryptHlsSegment aes buf keyBuf iv ms = Inr b \<Longrightarrow>
    length keyBuf = 16 \<and> aes keyBuf (segmentIv iv ms) buf = Some b"
  by (auto simp: decryptHlsSegment_def Let_def split: if_splits option.splits)

lemma fetchOneSegment_ok:
  assumes "fetchOneSegment env auth url ms i p cache sg s = (Inr (c, n), t)"
  shows "\<exists>b. bFiles t = (bFiles s)(p \<mapsto> b) \<and> bSpawned t = bSpawned s \<and> segmentBytes env ms i sg b"
proof (cases "snd sg")
  case None
  then obtain u where sg: "sg = (u, None)" by (cases sg) simp
  then show ?thesis using assms
    by (auto simp: fetchOneSegment_def eff_run fileS_def fetchToFile_def writeFileAt_def segmentBytes_def
        result_simps split: prod.splits sum.splits option.splits if_splits)
next
  case (Some k)
  then obtain u where sg: "sg = (u, Some k)" by (cases sg) simp
  from assms sg obtain keyBuf cache' s1 res s2 buf b where
      k: "cachedKey env auth url cache k s = (Inr (keyBuf, cache'), s1)"
    and f: "netS (fetchResWithRetry (beNet env) (Some segCap) auth u) s1 = (Inr res, s2)"
    and d: "decryptHlsSegment (beCipher env) buf keyBuf (ktIvHex k) (sequenceAt ms i) = Inr b"
    and w: "writeS env p b s2 = (Inr (), t)"
    by (auto simp: fetchOneSegment_def thenS_Inr eff_defs)
  have "bFiles s2 = bFiles s" "bSpawned s2 = bSpawned s"
    using cachedKey_frame [OF k] netS_frame [OF f] by simp_all
  then have "bFiles t = (bFiles s)(p \<mapsto> b)" "bSpawned t = bSpawned s"
    using w by (auto simp: writeS_def writeFileAt_def split: option.splits sum.splits)
  moreover have "segmentBytes env ms i sg b" using decrypt_ok [OF d] by (auto simp: segmentBytes_def sg)
  ultimately show ?thesis by blast
qed

lemma fetchSegments_ok:
  assumes "fetchSegments env auth url ms dir n i cache got segs s = (Inr ps, t)"
    and inj: "\<And>j j'. joinPath dir (segName j) = joinPath dir (segName j') \<Longrightarrow> j = j'"
  shows "ps = map (\<lambda>j. joinPath dir (segName (i + j))) [0..<length segs] \<and> bSpawned t = bSpawned s
    \<and> (\<forall>p. p \<notin> set ps \<longrightarrow> bFiles t p = bFiles s p)
    \<and> (\<forall>j<length segs. \<exists>b. bFiles t (joinPath dir (segName (i + j))) = Some b
         \<and> segmentBytes env ms (i + j) (segs ! j) b)"
  using assms(1)
proof (induction segs arbitrary: i cache got s ps)
  case Nil
  then show ?case by (auto simp: returnS_def)
next
  case (Cons sg segs)
  let ?p = "\<lambda>j. joinPath dir (segName j)"
  from Cons.prems obtain cache' k s1 qs where
      one: "fetchOneSegment env auth url ms i (?p i) cache sg s = (Inr (cache', k), s1)"
    and more: "fetchSegments env auth url ms dir n (Suc i) cache' (got + k) segs
        (emitProgress env \<lparr>pePercent = percentOf i n, peBytes = Some (got + k)\<rparr> s1) = (Inr qs, t)"
    and ps: "ps = ?p i # qs"
    by (auto simp: thenS_Inr eff_defs Let_def)
  obtain b where b: "bFiles s1 = (bFiles s)(?p i \<mapsto> b)" "bSpawned s1 = bSpawned s" "segmentBytes env ms i sg b"
    using fetchOneSegment_ok [OF one] by blast
  have e: "bFiles (emitProgress env ev s1) = bFiles s1" "bSpawned (emitProgress env ev s1) = bSpawned s1" for ev
    by (simp_all add: emitProgress_def split: prod.split)
  note IH = Cons.IH [OF more, unfolded e b(2)]
  have notin: "?p i \<notin> set qs" using IH inj by fastforce
  have idx: "[0..<length (sg # segs)] = 0 # map Suc [0..<length segs]" by (simp add: upt_conv_Cons map_Suc_upt del: upt_Suc)
  have c1: "ps = map (\<lambda>j. ?p (i + j)) [0..<length (sg # segs)]"
    using IH by (simp only: idx) (simp add: ps)
  have c2: "\<exists>b'. bFiles t (?p (i + j)) = Some b' \<and> segmentBytes env ms (i + j) ((sg # segs) ! j) b'"
    if "j < length (sg # segs)" for j
  proof (cases j)
    case 0
    have "bFiles t (?p i) = bFiles s1 (?p i)" using IH notin by blast
    with b 0 show ?thesis by simp
  next
    case (Suc j')
    with that have "j' < length segs" by simp
    with IH have "\<exists>b'. bFiles t (?p (Suc i + j')) = Some b' \<and> segmentBytes env ms (Suc i + j') (segs ! j') b'"
      by blast
    with Suc show ?thesis by simp
  qed
  have c3: "bFiles t p = bFiles s p" if "p \<notin> set ps" for p
  proof -
    have "p \<notin> set qs" "p \<noteq> ?p i" using that by (simp_all add: ps)
    with IH b(1) show ?thesis by simp
  qed
  from IH have "bSpawned t = bSpawned s" by blast
  with c1 c2 c3 show ?case by blast
qed

lemma segName_clean: "cleanSeg (segName i)"
  using showNat_digits [of i] by (auto simp: cleanSeg_def segName_def padStart_def isDigit_def code_def)

lemma segName_inject: "segName i = segName j \<longleftrightarrow> i = j"
proof
  assume "segName i = segName j"
  then have "padStart 5 CHR ''0'' (showNat i) = padStart 5 CHR ''0'' (showNat j)" by (simp add: segName_def)
  then have "radixValue 10 (padStart 5 CHR ''0'' (showNat i)) = radixValue 10 (padStart 5 CHR ''0'' (showNat j))" by simp
  moreover have "radixValue 10 (replicate k CHR ''0'' @ w) = radixValue 10 w" for k w
  proof -
    have "foldl (\<lambda>v c. 10 * v + digitOf c) 0 (replicate k CHR ''0'') = 0"
      by (induction k) (simp_all add: digitOf_def digitVal_def code_def)
    then show ?thesis by (simp add: radixValue_def)
  qed
  ultimately show "i = j" by (simp add: padStart_def radixValue_showRadix)
qed simp

lemma segName_not_list: "segName i \<noteq> ''concat.txt''"
  by (simp add: segName_def)

text \<open>A finished concatenation: what the \<open>ffmpeg\<close> child saw.\<close>

lemma concatSegments_ok:
  assumes dir: "cleanSegs ds" "ds \<noteq> []"
    and ok: "concatSegments env auth url out ms segs (renderAbs ds) s = (Inr q, t)"
  shows "\<exists>c. bSpawned t = bSpawned s @ [c] \<and> scCmd c = ''ffmpeg''
    \<and> scArgs c = ffmpegArgs (renderAbs (ds @ [''concat.txt''])) out
    \<and> scFiles c (renderAbs (ds @ [''concat.txt''])) =
        Some (beEncode env (listBody (map (\<lambda>i. renderAbs (ds @ [segName i])) [0..<length segs])))
    \<and> (\<forall>i<length segs. \<exists>b. scFiles c (renderAbs (ds @ [segName i])) = Some b \<and> segmentBytes env ms i (segs ! i) b)"
proof -
  let ?dir = "renderAbs ds" and ?list = "renderAbs (ds @ [''concat.txt''])"
  have jp: "joinPath ?dir (segName i) = renderAbs (ds @ [segName i])" for i
    using joinPath_clean [OF dir segName_clean] .
  have jl: "joinPath ?dir ''concat.txt'' = ?list"
    using joinPath_clean [OF dir, of "''concat.txt''"] by (simp add: cleanSeg_def)
  have clean: "cleanSegs (ds @ [segName i])" "cleanSegs (ds @ [''concat.txt''])" for i
    using dir segName_clean by (simp_all add: cleanSeg_def)
  have inj: "joinPath ?dir (segName i) = joinPath ?dir (segName j) \<Longrightarrow> i = j" for i j
    using renderAbs_inject [OF clean(1) clean(1), of i j] by (simp add: jp segName_inject)
  have diff: "renderAbs (ds @ [segName i]) \<noteq> ?list" for i
    using renderAbs_inject [OF clean(1) clean(2), of i] by (simp add: segName_not_list)
  from ok obtain ps s1 s2 ff chunks where
      f: "fetchSegments env auth url ms ?dir (length segs) 0 [] 0 segs s = (Inr ps, s1)"
    and w: "writeS env ?list (beEncode env (listBody ps)) s1 = (Inr (), s2)"
    and x: "runS env True ''ffmpeg'' (ffmpegArgs ?list out) s2 = (Inr (ff, chunks), t)"
    by (auto simp: concatSegments_def Let_def thenS_Inr eff_defs jl split: if_splits)
  note F = fetchSegments_ok [OF f inj, simplified]
  have w2: "bFiles s2 = (bFiles s1)(?list \<mapsto> beEncode env (listBody ps))" "bSpawned s2 = bSpawned s1"
    using w by (auto simp: writeS_def writeFileAt_def split: option.splits sum.splits)
  let ?c = "\<lparr>scCmd = ''ffmpeg'', scArgs = ffmpegArgs ?list out, scFiles = bFiles s2, scTimer = bTimer s2\<rparr>"
  have "bSpawned t = bSpawned s @ [?c]"
    using x F w2 by (auto simp: runS_def Let_def split: prod.splits)
  moreover have "\<forall>i<length segs. \<exists>b. bFiles s2 (renderAbs (ds @ [segName i])) = Some b \<and> segmentBytes env ms i (segs ! i) b"
    using F w2 diff by (auto simp: jp)
  ultimately show ?thesis using F w2 by (intro exI [of _ ?c]) (simp add: jp)
qed

section \<open>Properties\<close>

text \<open>Every request a stream download sends (playlists, variants, keys, segments and their
  redirects) is sent without automatic redirects to a host for which the guard against request
  forgery accepted a URL.\<close>

theorem downloadStream_requests_guarded:
  "\<exists>qs. sent (bNet (snd (downloadStream env auth url out s))) = sent (bNet s) @ qs
     \<and> list_all (\<lambda>q. rqRedirect q = ''manual''
          \<and> (\<exists>k t v. guardStr (parseUrl (beNet env)) (lookupAt (beNet env) k) t = Inr v
                 \<and> hostname v = urlHost (beNet env) (rqUrl q))) qs"
proof -
  have "keeps (guardedLog env) (downloadStream env auth url out)"
    by (rule ssrf.keeps_downloadStream) simp_all
  then have "guardedLog env s (snd (downloadStream env auth url out s))" by (simp add: keeps_def)
  then show ?thesis by (auto simp: guardedLog_def safeHost_def list_all_iff)
qed


text \<open>The overall timer of the fallback does not cover variant playlists: once the first
  manifest turned out to be a master playlist, every child is started with the timer cleared.\<close>

theorem variant_runs_without_timer:
  assumes "manifestStep env auth url out (s\<lparr>bTimer := True\<rparr>) = (Inr (Variant v), s1)"
  shows "\<exists>cs. bSpawned (snd (downloadManifestFallback env auth url out s)) = bSpawned s1 @ cs
    \<and> list_all (\<lambda>c. \<not> scTimer c) cs"
proof -
  let ?s1 = "s1\<lparr>bTimer := False\<rparr>"
  have eq: "downloadManifestFallback env auth url out s = manifestLevels MAX_DEPTH env auth False v out ?s1"
    by (simp add: downloadManifestFallback_def doS_def thenS_def finallyS_def assms)
  have "keeps (childLog (\<lambda>_. True)) (manifestLevels MAX_DEPTH env auth False v out)"
    by (rule manifestLevels_kids) simp
  then have "childLog (\<lambda>_. True) ?s1 (snd (manifestLevels MAX_DEPTH env auth False v out ?s1))"
    by (simp add: keeps_def)
  then show ?thesis by (simp add: eq childLog_def list_all_iff)
qed


definition toBytes :: "string \<Rightarrow> byte list" where
  "toBytes s = map (\<lambda>c. of_nat (code c)) s"

definition sampleEnv :: "string \<Rightarrow> backendEnv" where
  "sampleEnv body =
     \<lparr>beNet = \<lparr>net = \<lambda>n q. Inr \<lparr>rsStatus = 200, rsLocation = None, rsLength = None, rsBody = Stream [toBytes body] None\<rparr>,
        sigAborted = \<lambda>_. False, random = \<lambda>_. 0,
        parseUrl = \<lambda>s. Some \<lparr>protocol = ''https:'', hostname = ''h'', pathname = s, href = s\<rparr>,
        resolveUrl = \<lambda>rel base. Some rel, lookupAt = \<lambda>_ _. Some (DnsList []),
        utf8Decode = map (\<lambda>b. char_of (unat b)), utf8Length = length\<rparr>,
      beCwd = ''/'', beTmpdir = ''/tmp'', beSuffix = \<lambda>_. Some ''Ab'', beAuthName = ''1'',
      beWriteFails = \<lambda>_. None, beRmFails = \<lambda>_. False,
      beChild = \<lambda>n cmd args fs. (Inr \<lparr>crPid = True, crEvents = [], crClose = Some 0\<rparr>, fs),
      beHasSignal = False, beAborted = \<lambda>_. False, beClock = \<lambda>_. 0, beOnProgress = False,
      beCipher = \<lambda>k iv b. Some b, beEncode = toBytes, beBodyCap = None\<rparr>"

definition sampleStart :: backend where
  "sampleStart = \<lparr>bNet = \<lparr>sent = [], slept = []\<rparr>, bFiles = (\<lambda>_. None), bTemps = 0, bSpawned = [],
     bTicks = 0, bLast = 0, bProgress = [], bTimer = False\<rparr>"

lemma sampleEnv_fields [simp]:
  "beCwd (sampleEnv b) = ''/''" "beWriteFails (sampleEnv b) p = None" "beRmFails (sampleEnv b) p = False"
  "beChild (sampleEnv b) n cmd args fs = (Inr \<lparr>crPid = True, crEvents = [], crClose = Some 0\<rparr>, fs)"
  "beOnProgress (sampleEnv b) = False" "beEncode (sampleEnv b) = toBytes" "beBodyCap (sampleEnv b) = None"
  "beHasSignal (sampleEnv b) = False" "beAuthName (sampleEnv b) = ''1''" "beTmpdir (sampleEnv b) = ''/tmp''"
  by (simp_all add: sampleEnv_def)

lemma sample_fetch:
  "\<exists>n. fetchResWithRetry (beNet (sampleEnv body)) (Some cap) None u st =
     (Inr \<lparr>rsStatus = 200, rsLocation = None, rsLength = None, rsBody = Stream [toBytes body] None\<rparr>, n)"
proof -
  have "contextCandidates None = [\<lparr>cxCredentials = ''same-origin'', cxMode = ''cors'', cxHeaders = None\<rparr>,
      \<lparr>cxCredentials = ''include'', cxMode = ''cors'', cxHeaders = None\<rparr>]" by code_simp
  then show ?thesis
    by (simp add: fetchResWithRetry_def fetchResOne_def fetchOnce_def sampleEnv_def
        resOk_def contentLength_def Let_def)
qed

lemma sample_fetchText:
  assumes "\<not> cap < bytesOf (length body)"
  shows "\<exists>n. fetchText (beNet (sampleEnv body)) (Some cap) None u st = (Inr body, n)"
proof -
  have c: "char_of (unat (of_nat (code x) :: byte)) = x" for x
    using code_less [of x] by (simp add: unat_of_nat code_def)
  have d: "map (\<lambda>b. char_of (unat b)) (toBytes body) = body"
    by (induction body) (simp_all add: toBytes_def c)
  obtain n where n: "fetchResWithRetry (beNet (sampleEnv body)) (Some cap) None u st =
      (Inr \<lparr>rsStatus = 200, rsLocation = None, rsLength = None, rsBody = Stream [toBytes body] None\<rparr>, n)"
    using sample_fetch by blast
  have l: "length (toBytes body) = length body" by (simp add: toBytes_def)
  show ?thesis using assms d l
    by (simp add: fetchText_def n capOf_def readBodyCapped_def) (simp add: sampleEnv_def)
qed

lemma sample_run:
  "runS (sampleEnv b) sg cmd args s = (Inr (\<lparr>soCode = Some 0, soStderr = [], soKilled = False\<rparr>, []),
     s\<lparr>bSpawned := bSpawned s @ [\<lparr>scCmd = cmd, scArgs = args, scFiles = bFiles s, scTimer = bTimer s\<rparr>]\<rparr>)"
  if "sg \<longrightarrow> \<not> beAborted (sampleEnv b) (length (bSpawned s))"
  using that
  by (cases sg) (simp_all add: runS_def Let_def runSpawn_def spawnRun_def spawnInit_def cleanup_def resolveWith_def)

lemma sample_not_aborted: "\<not> beAborted (sampleEnv b) n"
  by (simp add: sampleEnv_def)



definition drmText :: string where
  "drmText = ''#EXTM3U'' @ [CHR 10] @ ''#EXT-X-KEY:METHOD=SAMPLE-AES''"


definition masterText :: string where
  "masterText = ''#EXTM3U'' @ [CHR 10] @ ''#EXT-X-STREAM-INF:'' @ [CHR 10] @ ''v''"

theorem variant_runs_without_timer_witness:
  "\<exists>s1 cs. manifestStep (sampleEnv masterText) None ''u'' ''/o/v.mp4'' (sampleStart\<lparr>bTimer := True\<rparr>) = (Inr (Variant ''v''), s1)
     \<and> bSpawned (snd (downloadManifestFallback (sampleEnv masterText) None ''u'' ''/o/v.mp4'' sampleStart)) = bSpawned s1 @ cs"
proof -
  let ?s = "sampleStart\<lparr>bTimer := True\<rparr>"
  have "\<not> bytesOf (maxBodyBytes Manifest) < bytesOf (length masterText)"
    by (simp add: bytesOf_def maxBodyBytes_def masterText_def)
  from sample_fetchText [OF this, of "''u''" "bNet ?s"] obtain n where
    n: "fetchText (beNet (sampleEnv masterText)) (Some (bytesOf (maxBodyBytes Manifest))) None ''u'' (bNet ?s) = (Inr masterText, n)"
    by auto
  have t: "startsWith (trimStart masterText) ''#EXTM3U''" "\<not> reTest ANY_KEY_RE masterText"
    "reTest (rLit False ''#EXT-X-STREAM-INF'') masterText" by code_simp+
  have ls: "trimmedLines masterText = [''#EXTM3U'', ''#EXT-X-STREAM-INF:'', ''v'']" by code_simp
  have h: "\<not> isPrivateIpStr ''h''"
    by (subst isPrivateIpStr.simps) (simp add: unbracket_def privateV4_def)
  have g: "pickVariantUrl (beNet (sampleEnv masterText)) n masterText ''u'' = Some ''v''"
    by (simp add: pickVariantUrl_def ls variantAt_def urlGuard_def validateUrl_def sampleEnv_def h)
  have m: "manifestStep (sampleEnv masterText) None ''u'' ''/o/v.mp4'' ?s = (Inr (Variant ''v''), ?s\<lparr>bNet := n\<rparr>)"
    using n by (simp add: manifestStep_def eff_run netS_def t g)
  from variant_runs_without_timer [OF m] m show ?thesis by blast
qed

text \<open>C28: with a file system whose deletions succeed, the fallback leaves no file in the temporary
  directory it made, on success and on every error.\<close>

theorem temp_dir_removed:
  assumes "\<And>x. \<not> beRmFails env x"
  shows "let t = snd (downloadManifestFallback env auth url out s) in
     bTemps t = bTemps s
   \<or> (\<exists>x. beSuffix env (bTemps s) = Some x \<and> bTemps t = Suc (bTemps s)
        \<and> {p. isUnder p (joinPath (beTmpdir env) ''bd-hls-'' @ x) \<and> bFiles t p \<noteq> None} = {})"
  using manifestLevels_clean [OF assms, of s "Suc MAX_DEPTH" auth True url out]
  unfolding cleanAfter_def downloadManifestFallback_def tempDir_def Let_def
  by (auto simp del: manifestLevels.simps)

theorem temp_dir_removed_witness:
  "let t = snd (downloadManifestFallback (sampleEnv ''x'') None ''u'' ''/o/v.mp4'' sampleStart) in
     bTemps t = 0 \<or> (bTemps t = 1 \<and> {p. isUnder p (joinPath ''/tmp'' ''bd-hls-'' @ ''Ab'') \<and> bFiles t p \<noteq> None} = {})"
  using temp_dir_removed [of "sampleEnv ''x''" None "''u''" "''/o/v.mp4''" sampleStart]
  by (simp add: Let_def sampleStart_def) (simp add: sampleEnv_def)



end
