(* ===== verification/Tier1.thy ===== *)
theory Tier1
  imports Hls
begin

text \<open>
  \<open>tier1-cdp.js\<close>: the network interceptor. Its closure is a state (candidate responses, received
  sizes, captured request headers, timers, the settled promise and the handlers waiting for the
  browser), its callbacks are events, and a run is any sequence of events. The two patterns it
  shares with the backend (\<open>MANIFEST_RE\<close> and the two \<open>HLS_DRM\<close> expressions) are the same text.
\<close>

section \<open>Patterns\<close>

definition VIDEO_CT_RE :: re where
  "VIDEO_CT_RE = RSeq RBos (rLit True ''video/'')"

definition VIDEO_URL_RE :: re where
  "VIDEO_URL_RE = rSeqs [rLit True ''.'', rAlts (map (rLit True) [''mp4'', ''webm'', ''ts'', ''m4v'', ''m4s'']), queryOrEnd]"

definition BLOCK_RE :: re where
  "BLOCK_RE = rAlts (map (rLit True) [''just a moment'', ''access denied'', ''are you a robot'', ''captcha'',
     ''verify you are human'', ''403 forbidden''])"

definition BLOCK_TITLE_RE :: re where
  "BLOCK_TITLE_RE = rSeqs [RWordB, rAlts (map (rLit True) [''blocked'', ''forbidden'', ''unauthorized'']), RWordB]"

text \<open>\<open>/<ContentProtection[\s/>]/i\<close> and \<open>/\.mpd(\?|$)/i\<close>\<close>

definition DASH_DRM_RE :: re where
  "DASH_DRM_RE = RSeq (rLit True ''<ContentProtection'') (RCls (\<lambda>c. isSpace c \<or> c = CHR ''/'' \<or> c = CHR ''>''))"

definition MPD_RE :: re where
  "MPD_RE = RSeq (rLit True ''.mpd'') queryOrEnd"

definition AUTH_HEADER_NAMES :: "string list" where
  "AUTH_HEADER_NAMES = [''referer'', ''origin'', ''cookie'', ''authorization'']"

definition scanManifestForDrm :: "string \<Rightarrow> string \<Rightarrow> string option" where
  "scanManifestForDrm body u =
     (if reTest MPD_RE u then
        (if reTest DASH_DRM_RE body then Some ''DASH <ContentProtection> DRM'' else None)
      else if reTest HLS_DRM_RE body then Some ''HLS #EXT-X-KEY DRM method (SAMPLE-AES*)''
      else if reTest HLS_DRM_KEYFORMAT_RE body then Some ''HLS #EXT-X-KEY non-identity KEYFORMAT (DRM)''
      else None)"

section \<open>The hooks injected into the page\<close>

text \<open>\<open>window.__bd_drm\<close> and \<open>window.__bd_auth_headers\<close>; header values are texts.\<close>

record pageHooks =
  phDrm :: bool
  phAuth :: "(string, string) omap"

datatype pageCall =
    RequestMediaKeys
  | EncryptedEvent
  | PageFetch "headers option"
  | XhrSetHeader string string

definition spread :: "(string, string) omap \<Rightarrow> headers \<Rightarrow> (string, string) omap" where
  "spread m hs = foldl (\<lambda>a h. om_set (fst h) (snd h) a) m hs"

definition lowerHeaders :: "headers \<Rightarrow> (string, string) omap" where
  "lowerHeaders raw = foldl (\<lambda>a h. om_set (toLower (fst h)) (snd h) a) [] raw"

definition pickAuth :: "(string, string) omap \<Rightarrow> (string, string) omap" where
  "pickAuth h = concat (map (\<lambda>n. case om_get h n of
     Some v \<Rightarrow> if v \<noteq> [] then [(n, v)] else [] | None \<Rightarrow> []) AUTH_HEADER_NAMES)"

fun hookStep :: "pageHooks \<Rightarrow> pageCall \<Rightarrow> pageHooks" where
  "hookStep p RequestMediaKeys = p\<lparr>phDrm := True\<rparr>"
| "hookStep p EncryptedEvent = p\<lparr>phDrm := True\<rparr>"
| "hookStep p (PageFetch None) = p"
| "hookStep p (PageFetch (Some raw)) =
     (let auth = pickAuth (lowerHeaders raw) in
      if auth \<noteq> [] then p\<lparr>phAuth := spread (phAuth p) auth\<rparr> else p)"
| "hookStep p (XhrSetHeader name v) =
     (if toLower name \<in> set AUTH_HEADER_NAMES then p\<lparr>phAuth := om_set (toLower name) v (phAuth p)\<rparr> else p)"

definition hookInit :: pageHooks where
  "hookInit = \<lparr>phDrm = False, phAuth = []\<rparr>"

section \<open>The interceptor's state\<close>

record candidate =
  cdUrl :: string
  cdType :: string

datatype media =
    ManifestMedia string string "(string, string) omap option"
  | BytesMedia "byte list" extval

datatype outcome = Resolved "media option" | Rejected exn

text \<open>A suspended \<open>onLoadingFinished\<close>: waiting for the body, or for the headers of the page.\<close>

datatype waiting =
    AwaitBody string candidate
  | AwaitHeaders string candidate

record tier1 =
  t1Candidates :: "(string, candidate) omap"
  t1Received :: "(string, nat) omap"
  t1Headers :: "(string, (string, string) omap) omap"
  t1Outcome :: "outcome option"
  t1Fall :: bool
  t1Drm :: bool
  t1Listener :: bool
  t1Waiting :: "waiting list"
  t1Polls :: nat

record tier1Env =
  e1Url :: string
  e1BodyCap :: jsnum
  e1Parse :: urlParser
  e1Decode :: "byte list \<Rightarrow> string"
  e1Encode :: "string \<Rightarrow> byte list"

definition DEFAULT_BODY_CAP :: jsnum where "DEFAULT_BODY_CAP = bytesOf (500 * 1024 * 1024)"
definition MANIFEST_CAP :: jsnum where "MANIFEST_CAP = bytesOf (8 * 1024 * 1024)"
definition REQUEST_HEADERS_CAP :: nat where "REQUEST_HEADERS_CAP = 256"
definition CANDIDATES_CAP :: nat where "CANDIDATES_CAP = 256"

text \<open>\<open>getResponseBody\<close> answers a text, possibly base64; \<open>None\<close> is a rejected call.\<close>

record bodyReply =
  brText :: string
  brBase64 :: bool

datatype t1Event =
    RequestWillBeSent string "(string \<times> jsprim) list"
  | ResponseReceived string string string nat bool
  | DataReceived string "nat option"
  | LoadingFinished string "jsnum option"
  | BodyReply nat "bodyReply option"
  | HeadersReply nat "(string, string) omap option"
  | FallthroughTimer
  | DrmTick
  | DrmReply bool
  | MainResponse nat string bool
  | DomReady string string
  | Abort

section \<open>Operations\<close>

definition stopTimers :: "tier1 \<Rightarrow> tier1" where
  "stopTimers s = s\<lparr>t1Fall := False, t1Drm := False, t1Listener := False\<rparr>"

definition settle :: "outcome \<Rightarrow> tier1 \<Rightarrow> tier1" where
  "settle r s = (if t1Outcome s \<noteq> None then s else (stopTimers s)\<lparr>t1Outcome := Some r\<rparr>)"

abbreviation onFound :: "media option \<Rightarrow> tier1 \<Rightarrow> tier1" where
  "onFound m \<equiv> settle (Resolved m)"

abbreviation onTerminal :: "string \<Rightarrow> string \<Rightarrow> tier1 \<Rightarrow> tier1" where
  "onTerminal c m \<equiv> settle (Rejected (dErr c m))"

definition onAbort :: "tier1 \<Rightarrow> tier1" where
  "onAbort s = onTerminal TIMEOUT ''interception aborted'' s"

text \<open>The executor of the promise: the timers are armed after a possible immediate abort.\<close>

definition interceptStart :: "bool \<Rightarrow> bool \<Rightarrow> tier1" where
  "interceptStart hasSignal aborted =
     (let s = \<lparr>t1Candidates = [], t1Received = [], t1Headers = [], t1Outcome = None, t1Fall = False,
               t1Drm = False, t1Listener = False, t1Waiting = [], t1Polls = 0\<rparr>;
          s1 = (if hasSignal then (if aborted then onAbort s else s\<lparr>t1Listener := True\<rparr>) else s)
      in s1\<lparr>t1Fall := True, t1Drm := True\<rparr>)"

definition captureHeaders :: "(string \<times> jsprim) list \<Rightarrow> (string, string) omap" where
  "captureHeaders hs = concat (map (\<lambda>n. case map_of hs n of
     Some (Str v) \<Rightarrow> if v \<noteq> [] then [(n, v)] else [] | _ \<Rightarrow> []) AUTH_HEADER_NAMES)"

definition onRequestWillBeSent :: "string \<Rightarrow> (string \<times> jsprim) list \<Rightarrow> tier1 \<Rightarrow> tier1" where
  "onRequestWillBeSent rid hs s =
     (let captured = captureHeaders hs in
      if captured \<noteq> []
      then s\<lparr>t1Headers := om_evict REQUEST_HEADERS_CAP (om_set rid captured (t1Headers s))\<rparr> else s)"

definition isCandidate :: "string \<Rightarrow> string \<Rightarrow> bool" where
  "isCandidate u ct \<longleftrightarrow> reTest VIDEO_CT_RE ct \<or> reTest VIDEO_URL_RE u \<or> reTest MANIFEST_RE u"

definition onResponseReceived :: "tier1Env \<Rightarrow> string \<Rightarrow> string \<Rightarrow> string \<Rightarrow> nat \<Rightarrow> bool \<Rightarrow> tier1 \<Rightarrow> tier1" where
  "onResponseReceived env rid u ct status isDocument s =
     (if status = 403 then
        (if u = e1Url env \<or> isDocument then onTerminal ANTI_BOT_BLOCK (''403 on '' @ u) s else s)
      else if isCandidate u ct then
        (let m = om_set rid \<lparr>cdUrl = u, cdType = ct\<rparr> (t1Candidates s) in
         if CANDIDATES_CAP < length m then
           (case m of [] \<Rightarrow> s
            | (oldest, _) # _ \<Rightarrow> s\<lparr>t1Candidates := om_del oldest m, t1Received := om_del oldest (t1Received s)\<rparr>)
         else s\<lparr>t1Candidates := m\<rparr>)
      else s)"

definition capFor :: "tier1Env \<Rightarrow> string \<Rightarrow> jsnum" where
  "capFor env u = (if reTest MANIFEST_RE u then MANIFEST_CAP else e1BodyCap env)"

definition onDataReceived :: "tier1Env \<Rightarrow> string \<Rightarrow> nat option \<Rightarrow> tier1 \<Rightarrow> tier1" where
  "onDataReceived env rid dataLength s =
     (case om_get (t1Candidates s) rid of
        None \<Rightarrow> s
      | Some c \<Rightarrow>
          if rid = [] then s
          else let sofar = (case om_get (t1Received s) rid of Some n \<Rightarrow> n | None \<Rightarrow> 0);
                   got = sofar + (case dataLength of Some n \<Rightarrow> n | None \<Rightarrow> 0);
                   s1 = s\<lparr>t1Received := om_set rid got (t1Received s)\<rparr>
               in if capFor env (cdUrl c) < bytesOf got
                  then onTerminal NETWORK_ERROR ''response body exceeds size cap'' s1 else s1)"

text \<open>\<open>onLoadingFinished\<close> up to its first \<open>await\<close>.\<close>

definition onLoadingFinished :: "tier1Env \<Rightarrow> string \<Rightarrow> jsnum option \<Rightarrow> tier1 \<Rightarrow> tier1" where
  "onLoadingFinished env rid encLen s =
     (case om_get (t1Candidates s) rid of
        None \<Rightarrow> s
      | Some c \<Rightarrow>
          let s1 = s\<lparr>t1Candidates := om_del rid (t1Candidates s), t1Received := om_del rid (t1Received s)\<rparr>
          in if (case encLen of Some n \<Rightarrow> capFor env (cdUrl c) < n | None \<Rightarrow> False)
             then onTerminal NETWORK_ERROR ''response body exceeds size cap'' s1
             else s1\<lparr>t1Waiting := t1Waiting s1 @ [AwaitBody rid c]\<rparr>)"

definition dropAt :: "nat \<Rightarrow> 'a list \<Rightarrow> 'a list" where
  "dropAt i xs = take i xs @ drop (Suc i) xs"

definition manifestText :: "tier1Env \<Rightarrow> bodyReply \<Rightarrow> string" where
  "manifestText env r = (if brBase64 r then e1Decode env (base64Decode (brText r)) else brText r)"

definition bodyBytes :: "tier1Env \<Rightarrow> bodyReply \<Rightarrow> byte list" where
  "bodyBytes env r = (if brBase64 r then base64Decode (brText r) else e1Encode env (brText r))"

text \<open>After the body of a manifest: empty, too large, encrypted, or on to the page's headers.\<close>

definition onManifestBody :: "tier1Env \<Rightarrow> string \<Rightarrow> candidate \<Rightarrow> bodyReply \<Rightarrow> tier1 \<Rightarrow> tier1" where
  "onManifestBody env rid c r s =
     (let body = manifestText env r in
      if body = [] then s
      else if MANIFEST_CAP < bytesOf (length (e1Encode env body))
      then onTerminal NETWORK_ERROR ''manifest body exceeds size cap'' s
      else (case scanManifestForDrm body (cdUrl c) of
          Some reason \<Rightarrow> onTerminal DRM_DETECTED reason s
        | None \<Rightarrow> s\<lparr>t1Waiting := t1Waiting s @ [AwaitHeaders rid c]\<rparr>))"

definition onMediaBody :: "tier1Env \<Rightarrow> candidate \<Rightarrow> bodyReply \<Rightarrow> tier1 \<Rightarrow> tier1" where
  "onMediaBody env c r s =
     (let buf = bodyBytes env r in
      if e1BodyCap env < bytesOf (length buf)
      then onTerminal NETWORK_ERROR ''response body exceeds size cap'' s
      else if buf = [] then s
      else onFound (Some (BytesMedia buf (pickExtension (e1Parse env) (Str (cdUrl c)) (Str (cdType c))))) s)"

definition onBodyReply :: "tier1Env \<Rightarrow> nat \<Rightarrow> bodyReply option \<Rightarrow> tier1 \<Rightarrow> tier1" where
  "onBodyReply env i reply s =
     (if i < length (t1Waiting s) then
        (case t1Waiting s ! i of
           AwaitBody rid c \<Rightarrow>
             let s1 = s\<lparr>t1Waiting := dropAt i (t1Waiting s)\<rparr> in
             (case reply of
                None \<Rightarrow> s1
              | Some r \<Rightarrow> if reTest MANIFEST_RE (cdUrl c) then onManifestBody env rid c r s1
                          else onMediaBody env c r s1)
         | AwaitHeaders _ _ \<Rightarrow> s)
      else s)"

text \<open>Headers seen by the protocol override those of the page.\<close>

definition mergeHeaders ::
  "(string, string) omap option \<Rightarrow> (string, string) omap option \<Rightarrow> (string, string) omap option" where
  "mergeHeaders page cdp =
     (let p = (case page of None \<Rightarrow> [] | Some h \<Rightarrow> h);
          m = (case cdp of None \<Rightarrow> p | Some h \<Rightarrow> spread p h)
      in if m = [] then None else Some m)"

definition onHeadersReply :: "nat \<Rightarrow> (string, string) omap option \<Rightarrow> tier1 \<Rightarrow> tier1" where
  "onHeadersReply i page s =
     (if i < length (t1Waiting s) then
        (case t1Waiting s ! i of
           AwaitBody _ _ \<Rightarrow> s
         | AwaitHeaders rid c \<Rightarrow>
             onFound (Some (ManifestMedia (cdUrl c) ''mp4'' (mergeHeaders page (om_get (t1Headers s) rid))))
               (s\<lparr>t1Waiting := dropAt i (t1Waiting s), t1Headers := om_del rid (t1Headers s)\<rparr>))
      else s)"

definition isBlocked :: "string \<Rightarrow> string \<Rightarrow> bool" where
  "isBlocked titleText bodyText \<longleftrightarrow>
     reTest BLOCK_RE (titleText @ '' '' @ bodyText) \<or> reTest BLOCK_TITLE_RE titleText"

fun t1Step :: "tier1Env \<Rightarrow> t1Event \<Rightarrow> tier1 \<Rightarrow> tier1" where
  "t1Step env (RequestWillBeSent rid hs) s = onRequestWillBeSent rid hs s"
| "t1Step env (ResponseReceived rid u ct status doc) s = onResponseReceived env rid u ct status doc s"
| "t1Step env (DataReceived rid n) s = onDataReceived env rid n s"
| "t1Step env (LoadingFinished rid n) s = onLoadingFinished env rid n s"
| "t1Step env (BodyReply i r) s = onBodyReply env i r s"
| "t1Step env (HeadersReply i h) s = onHeadersReply i h s"
| "t1Step env FallthroughTimer s = (if t1Fall s then onFound None (s\<lparr>t1Fall := False\<rparr>) else s)"
| "t1Step env DrmTick s = (if t1Drm s then s\<lparr>t1Polls := t1Polls s + 1\<rparr> else s)"
| "t1Step env (DrmReply drm) s =
     (if t1Polls s = 0 then s
      else let s1 = s\<lparr>t1Polls := t1Polls s - 1\<rparr> in if drm then onTerminal DRM_DETECTED [] s1 else s1)"
| "t1Step env (MainResponse status u isNav) s =
     (if status = 403 \<and> (u = e1Url env \<or> isNav) then onTerminal ANTI_BOT_BLOCK ''403 on main document'' s else s)"
| "t1Step env (DomReady titleText bodyText) s =
     (if isBlocked titleText bodyText then onTerminal ANTI_BOT_BLOCK [] s else s)"
| "t1Step env Abort s = (if t1Listener s then onAbort (s\<lparr>t1Listener := False\<rparr>) else s)"

inductive t1Run :: "tier1Env \<Rightarrow> tier1 \<Rightarrow> t1Event list \<Rightarrow> tier1 \<Rightarrow> bool" for env s where
  start: "t1Run env s [] s"
| step: "t1Run env s evs t \<Longrightarrow> t1Run env s (evs @ [e]) (t1Step env e t)"

text \<open>
  \<open>interceptMedia\<close> as its caller sees it: the set-up of the CDP session may throw; then the events of the
  page come in some order, and at the latest the fallthrough timer answers.
\<close>

definition interceptEnd :: "tier1Env \<Rightarrow> bool \<Rightarrow> bool \<Rightarrow> t1Event list \<Rightarrow> tier1" where
  "interceptEnd env hasSignal aborted evs =
     foldl (\<lambda>s e. t1Step env e s) (interceptStart hasSignal aborted) (evs @ [FallthroughTimer])"

definition interceptMedia :: "tier1Env \<Rightarrow> bool \<Rightarrow> bool \<Rightarrow> exn + t1Event list \<Rightarrow> exn + media option" where
  "interceptMedia env hasSignal aborted page = (case page of
     Inl e \<Rightarrow> Inl e
   | Inr evs \<Rightarrow> (case t1Outcome (interceptEnd env hasSignal aborted evs) of
       Some (Rejected e) \<Rightarrow> Inl e
     | Some (Resolved m) \<Rightarrow> Inr m
     | None \<Rightarrow> Inr None))"

section \<open>Facts: settling\<close>

inductive_cases t1RunE: "t1Run env s evs t"

lemma settle_fields [simp]:
  "t1Candidates (settle r s) = t1Candidates s" "t1Received (settle r s) = t1Received s"
  "t1Headers (settle r s) = t1Headers s" "t1Waiting (settle r s) = t1Waiting s"
  "t1Polls (settle r s) = t1Polls s"
  by (simp_all add: settle_def stopTimers_def)

lemma settle_outcome [simp]: "t1Outcome (settle r s) = (case t1Outcome s of None \<Rightarrow> Some r | Some q \<Rightarrow> Some q)"
  by (simp add: settle_def stopTimers_def split: option.split)

lemma settle_timers [simp]:
  "t1Fall (settle r s) = (t1Outcome s \<noteq> None \<and> t1Fall s)" "t1Drm (settle r s) = (t1Outcome s \<noteq> None \<and> t1Drm s)"
  "t1Listener (settle r s) = (t1Outcome s \<noteq> None \<and> t1Listener s)"
  by (auto simp: settle_def stopTimers_def)

lemmas t1_ops = onRequestWillBeSent_def onResponseReceived_def onDataReceived_def onLoadingFinished_def
  onBodyReply_def onManifestBody_def onMediaBody_def onHeadersReply_def onAbort_def Let_def

lemmas t1_splits = option.splits waiting.splits list.splits prod.splits if_splits

lemma t1Step_settled: "t1Outcome s = Some r \<Longrightarrow> t1Outcome (t1Step env e s) = Some r"
  by (cases e) (auto simp: t1_ops split: t1_splits)

lemma t1Run_settled: "t1Run env s evs t \<Longrightarrow> t1Outcome s = Some r \<Longrightarrow> t1Outcome t = Some r"
  by (induction rule: t1Run.induct) (simp_all add: t1Step_settled)

lemma t1Run_foldl: "t1Run env s evs (foldl (\<lambda>t e. t1Step env e t) s evs)"
proof (induction evs rule: rev_induct)
  case (snoc e evs)
  then show ?case using t1Run.step [OF snoc] by simp
qed (simp add: t1Run.start)

section \<open>Facts: bounds\<close>

definition knownHeaders :: "(string, string) omap \<Rightarrow> bool" where
  "knownHeaders h \<longleftrightarrow> (\<forall>x\<in>set h. fst x \<in> set AUTH_HEADER_NAMES)"

definition t1Bounded :: "tier1 \<Rightarrow> bool" where
  "t1Bounded s \<longleftrightarrow> om_wf (t1Candidates s) \<and> length (t1Candidates s) \<le> CANDIDATES_CAP
     \<and> om_wf (t1Received s) \<and> set (om_keys (t1Received s)) \<subseteq> set (om_keys (t1Candidates s))
     \<and> om_wf (t1Headers s) \<and> length (t1Headers s) \<le> REQUEST_HEADERS_CAP
     \<and> (\<forall>x\<in>set (t1Headers s). knownHeaders (snd x))"

lemma om_set_elems: "x \<in> set (om_set k v m) \<Longrightarrow> x = (k, v) \<or> x \<in> set m"
  by (induction m) (auto split: if_splits)

lemma om_del_elems: "x \<in> set (om_del k m) \<Longrightarrow> x \<in> set m"
  by (simp add: om_del_def)

lemma om_evict_elems: "x \<in> set (om_evict n m) \<Longrightarrow> x \<in> set m"
  by (auto simp: om_evict_def dest: om_del_elems split: if_splits list.splits prod.splits)

lemma captureHeaders_known: "knownHeaders (captureHeaders hs)"
  by (auto simp: knownHeaders_def captureHeaders_def split: option.splits jsprim.splits if_splits)

lemma t1Bounded_cong:
  "t1Candidates s' = t1Candidates s \<Longrightarrow> t1Received s' = t1Received s \<Longrightarrow> t1Headers s' = t1Headers s \<Longrightarrow>
   t1Bounded s' = t1Bounded s"
  by (simp add: t1Bounded_def)

lemma bounded_request: "t1Bounded s \<Longrightarrow> t1Bounded (onRequestWillBeSent rid hs s)"
proof -
  assume b: "t1Bounded s"
  let ?m = "om_evict REQUEST_HEADERS_CAP (om_set rid (captureHeaders hs) (t1Headers s))"
  have "om_wf ?m" "length ?m \<le> REQUEST_HEADERS_CAP"
    using b om_put_bounded [of "t1Headers s" REQUEST_HEADERS_CAP] by (auto simp: t1Bounded_def)
  moreover have "knownHeaders (snd x)" if "x \<in> set ?m" for x
    using om_set_elems [OF om_evict_elems [OF that]] b captureHeaders_known by (auto simp: t1Bounded_def)
  ultimately show ?thesis using b by (auto simp: onRequestWillBeSent_def Let_def t1Bounded_def)
qed

lemma bounded_response: "t1Bounded s \<Longrightarrow> t1Bounded (onResponseReceived env rid u ct status doc s)"
proof -
  assume b: "t1Bounded s"
  define m where "m = om_set rid \<lparr>cdUrl = u, cdType = ct\<rparr> (t1Candidates s)"
  have wf: "om_wf m" using b by (simp add: m_def t1Bounded_def)
  have keys: "set (om_keys (t1Candidates s)) \<subseteq> set (om_keys m)" by (auto simp: m_def om_keys_set)
  have l: "length m \<le> Suc CANDIDATES_CAP" using b by (auto simp: m_def length_om_set t1Bounded_def)
  have ev: "t1Bounded (s\<lparr>t1Candidates := om_del k m, t1Received := om_del k (t1Received s)\<rparr>)"
    if "m = (k, v) # m'" for k v m'
  proof -
    have "om_del k m = m'" using length_om_del_hd [of k v m'] wf that by simp
    moreover have "om_wf m'" using wf that by (simp add: om_wf_def)
    ultimately show ?thesis using b l keys that by (auto simp: t1Bounded_def om_keys_del)
  qed
  have plain: "t1Bounded (s\<lparr>t1Candidates := m\<rparr>)" if "length m \<le> CANDIDATES_CAP"
    using b that wf keys by (auto simp: t1Bounded_def)
  have t: "t1Bounded (settle r s)" for r using b by (simp add: t1Bounded_def)
  show ?thesis using b ev plain t
    by (auto simp: onResponseReceived_def Let_def m_def [symmetric] not_less split: list.splits prod.splits)
qed

lemma bounded_data: "t1Bounded s \<Longrightarrow> t1Bounded (onDataReceived env rid n s)"
proof (cases "om_get (t1Candidates s) rid")
  case (Some c)
  assume b: "t1Bounded s"
  have "rid \<in> set (om_keys (t1Candidates s))" using Some om_get_None_iff [of "t1Candidates s" rid] by auto
  with b have "t1Bounded (s\<lparr>t1Received := om_set rid g (t1Received s)\<rparr>)" for g
    by (auto simp: t1Bounded_def om_keys_set)
  with b Some show ?thesis by (auto simp: onDataReceived_def Let_def t1Bounded_def)
qed (simp add: onDataReceived_def)

lemma bounded_finished: "t1Bounded s \<Longrightarrow> t1Bounded (onLoadingFinished env rid n s)"
proof -
  assume b: "t1Bounded s"
  have "length (om_del rid (t1Candidates s)) \<le> CANDIDATES_CAP"
    using b length_om_del_le [of rid "t1Candidates s"] by (simp add: t1Bounded_def)
  with b show ?thesis
    by (auto simp: onLoadingFinished_def Let_def t1Bounded_def om_keys_del split: option.splits)
qed

lemma bounded_headers: "t1Bounded s \<Longrightarrow> t1Bounded (onHeadersReply i h s)"
proof -
  assume b: "t1Bounded s"
  have "length (om_del rid (t1Headers s)) \<le> REQUEST_HEADERS_CAP" for rid
    using b length_om_del_le [of rid "t1Headers s"] by (simp add: t1Bounded_def)
  with b show ?thesis
    by (auto simp: onHeadersReply_def t1Bounded_def dest: om_del_elems split: waiting.splits)
qed

lemma bounded_body: "t1Bounded s \<Longrightarrow> t1Bounded (onBodyReply env i r s)"
  by (auto simp: t1_ops t1Bounded_def split: t1_splits)

lemma t1Step_bounded: "t1Bounded s \<Longrightarrow> t1Bounded (t1Step env e s)"
  by (cases e) (auto simp: bounded_request bounded_response bounded_data bounded_finished bounded_headers
      bounded_body onAbort_def Let_def intro: t1Bounded_cong [THEN iffD2])

section \<open>Facts: where an outcome comes from\<close>

text \<open>\<open>q\<close> is the body the browser gave for the candidate \<open>c\<close> in the course of the run.\<close>

definition answered :: "tier1Env \<Rightarrow> tier1 \<Rightarrow> t1Event list \<Rightarrow> candidate \<Rightarrow> bodyReply \<Rightarrow> bool" where
  "answered env s0 evs c q \<longleftrightarrow> (\<exists>pre post i p rid. evs = pre @ BodyReply i (Some q) # post \<and> t1Run env s0 pre p
     \<and> i < length (t1Waiting p) \<and> t1Waiting p ! i = AwaitBody rid c)"

definition cleanManifest :: "tier1Env \<Rightarrow> tier1 \<Rightarrow> t1Event list \<Rightarrow> string \<Rightarrow> bool" where
  "cleanManifest env s0 evs u \<longleftrightarrow> reTest MANIFEST_RE u \<and> (\<exists>c q. answered env s0 evs c q \<and> cdUrl c = u
     \<and> manifestText env q \<noteq> [] \<and> \<not> MANIFEST_CAP < bytesOf (length (e1Encode env (manifestText env q)))
     \<and> scanManifestForDrm (manifestText env q) u = None)"

definition capturedBytes :: "tier1Env \<Rightarrow> tier1 \<Rightarrow> t1Event list \<Rightarrow> byte list \<Rightarrow> extval \<Rightarrow> bool" where
  "capturedBytes env s0 evs b x \<longleftrightarrow> b \<noteq> [] \<and> \<not> e1BodyCap env < bytesOf (length b)
     \<and> (\<exists>c q. answered env s0 evs c q \<and> b = bodyBytes env q \<and> \<not> reTest MANIFEST_RE (cdUrl c)
          \<and> x = pickExtension (e1Parse env) (Str (cdUrl c)) (Str (cdType c)))"

definition t1Scanned :: "tier1Env \<Rightarrow> tier1 \<Rightarrow> t1Event list \<Rightarrow> tier1 \<Rightarrow> bool" where
  "t1Scanned env s0 evs s \<longleftrightarrow>
     (\<forall>rid c. AwaitHeaders rid c \<in> set (t1Waiting s) \<longrightarrow> cleanManifest env s0 evs (cdUrl c))"

definition explains :: "tier1Env \<Rightarrow> tier1 \<Rightarrow> t1Event list \<Rightarrow> outcome \<Rightarrow> bool" where
  "explains env s0 evs r \<longleftrightarrow> (case r of
     Resolved None \<Rightarrow> FallthroughTimer \<in> set evs
   | Resolved (Some (BytesMedia b x)) \<Rightarrow> capturedBytes env s0 evs b x
   | Resolved (Some (ManifestMedia u x h)) \<Rightarrow> x = ''mp4'' \<and> cleanManifest env s0 evs u
   | Rejected x \<Rightarrow> isDownloaderError x \<and> (exnCode x = Str ANTI_BOT_BLOCK \<or> exnCode x = Str DRM_DETECTED
       \<or> exnCode x = Str NETWORK_ERROR \<or> exnCode x = Str TIMEOUT \<and> Abort \<in> set evs))"

lemma dropAt_elems: "x \<in> set (dropAt i xs) \<Longrightarrow> x \<in> set xs"
  by (auto simp: dropAt_def dest: in_set_takeD in_set_dropD)

lemma answered_mono: "answered env s0 evs c q \<Longrightarrow> answered env s0 (evs @ [e]) c q"
  unfolding answered_def by (metis append.assoc append_Cons)

lemma cleanManifest_mono: "cleanManifest env s0 evs u \<Longrightarrow> cleanManifest env s0 (evs @ [e]) u"
  unfolding cleanManifest_def using answered_mono by blast

lemma capturedBytes_mono: "capturedBytes env s0 evs b x \<Longrightarrow> capturedBytes env s0 (evs @ [e]) b x"
  unfolding capturedBytes_def using answered_mono by blast

lemma explains_mono: "explains env s0 evs r \<Longrightarrow> explains env s0 (evs @ [e]) r"
  using cleanManifest_mono capturedBytes_mono
  by (auto simp: explains_def split: outcome.splits option.splits media.splits)

lemma answered_now:
  "t1Run env s0 evs s \<Longrightarrow> i < length (t1Waiting s) \<Longrightarrow> t1Waiting s ! i = AwaitBody rid c \<Longrightarrow>
   answered env s0 (evs @ [BodyReply i (Some q)]) c q"
  unfolding answered_def by blast

text \<open>What the two bodies can do once the browser has answered.\<close>

lemma onManifestBody_waiting:
  "w \<in> set (t1Waiting (onManifestBody env rid c q s)) \<Longrightarrow> w \<in> set (t1Waiting s) \<or> (w = AwaitHeaders rid c
     \<and> manifestText env q \<noteq> [] \<and> \<not> MANIFEST_CAP < bytesOf (length (e1Encode env (manifestText env q)))
     \<and> scanManifestForDrm (manifestText env q) (cdUrl c) = None)"
  by (auto simp: onManifestBody_def Let_def split: if_splits option.splits)

lemma onMediaBody_waiting [simp]: "t1Waiting (onMediaBody env c q s) = t1Waiting s"
  by (simp add: onMediaBody_def Let_def)

lemma onManifestBody_outcome:
  "t1Outcome s = None \<Longrightarrow> t1Outcome (onManifestBody env rid c q s) = Some r \<Longrightarrow>
   \<exists>x. r = Rejected x \<and> isDownloaderError x \<and> (exnCode x = Str NETWORK_ERROR \<or> exnCode x = Str DRM_DETECTED)"
  by (auto simp: onManifestBody_def Let_def split: if_splits option.splits)

lemma onMediaBody_outcome:
  "t1Outcome s = None \<Longrightarrow> t1Outcome (onMediaBody env c q s) = Some r \<Longrightarrow>
   (\<exists>x. r = Rejected x \<and> isDownloaderError x \<and> exnCode x = Str NETWORK_ERROR)
   \<or> r = Resolved (Some (BytesMedia (bodyBytes env q) (pickExtension (e1Parse env) (Str (cdUrl c)) (Str (cdType c)))))
     \<and> bodyBytes env q \<noteq> [] \<and> \<not> e1BodyCap env < bytesOf (length (bodyBytes env q))"
  by (auto simp: onMediaBody_def Let_def split: if_splits)

lemma t1Scanned_mono:
  "t1Scanned env s0 evs s \<Longrightarrow> set (t1Waiting s') \<subseteq> set (t1Waiting s) \<Longrightarrow> t1Scanned env s0 (evs @ [e]) s'"
  unfolding t1Scanned_def using cleanManifest_mono by blast

lemma t1Step_scanned:
  assumes run: "t1Run env s0 evs s" and sc: "t1Scanned env s0 evs s"
  shows "t1Scanned env s0 (evs @ [e]) (t1Step env e s)"
proof (cases "\<exists>i q rid c. e = BodyReply i (Some q) \<and> i < length (t1Waiting s) \<and> t1Waiting s ! i = AwaitBody rid c
    \<and> reTest MANIFEST_RE (cdUrl c)")
  case True
  then obtain i q rid c where e: "e = BodyReply i (Some q)" "i < length (t1Waiting s)"
    "t1Waiting s ! i = AwaitBody rid c" "reTest MANIFEST_RE (cdUrl c)" by blast
  let ?s = "s\<lparr>t1Waiting := dropAt i (t1Waiting s)\<rparr>"
  have ans: "answered env s0 (evs @ [e]) c q" using answered_now run e by blast
  have old: "t1Scanned env s0 (evs @ [e]) ?s" by (rule t1Scanned_mono [OF sc]) (auto dest: dropAt_elems)
  have step: "t1Step env e s = onManifestBody env rid c q ?s" using e by (simp add: onBodyReply_def Let_def)
  show ?thesis unfolding t1Scanned_def step
  proof (intro allI impI)
    fix r2 c2 assume "AwaitHeaders r2 c2 \<in> set (t1Waiting (onManifestBody env rid c q ?s))"
    from onManifestBody_waiting [OF this] show "cleanManifest env s0 (evs @ [e]) (cdUrl c2)"
      using old ans e(4) by (auto simp: t1Scanned_def cleanManifest_def)
  qed
next
  case False
  have new: "AwaitHeaders rid c \<in> set (t1Waiting s)" if "AwaitHeaders rid c \<in> set (t1Waiting (t1Step env e s))" for rid c
  proof (cases e)
    case (BodyReply i q)
    with False that show ?thesis
      by (auto simp: onBodyReply_def Let_def dest: dropAt_elems split: if_splits waiting.splits option.splits)
  next
    case (HeadersReply i h)
    with that show ?thesis
      by (auto simp: onHeadersReply_def dest: dropAt_elems split: if_splits waiting.splits)
  qed (use that in \<open>auto simp: onRequestWillBeSent_def onResponseReceived_def onDataReceived_def
        onLoadingFinished_def onAbort_def Let_def split: if_splits option.splits list.splits prod.splits\<close>)
  with sc show ?thesis unfolding t1Scanned_def using cleanManifest_mono by blast
qed

lemma t1Step_explained:
  assumes run: "t1Run env s0 evs s" and sc: "t1Scanned env s0 evs s"
    and o: "t1Outcome s = None" "t1Outcome (t1Step env e s) = Some r"
  shows "explains env s0 (evs @ [e]) r"
proof (cases e)
  case (BodyReply i reply)
  then obtain rid c q where w: "i < length (t1Waiting s)" "t1Waiting s ! i = AwaitBody rid c" "reply = Some q"
    using o by (auto simp: onBodyReply_def Let_def split: if_splits waiting.splits option.splits)
  let ?s = "s\<lparr>t1Waiting := dropAt i (t1Waiting s)\<rparr>"
  have ans: "answered env s0 (evs @ [e]) c q" using answered_now [OF run w(1,2)] BodyReply w(3) by simp
  show ?thesis
  proof (cases "reTest MANIFEST_RE (cdUrl c)")
    case True
    then show ?thesis using o w BodyReply onManifestBody_outcome [of ?s env rid c q r]
      by (auto simp: onBodyReply_def explains_def Let_def)
  next
    case False
    have cap: "capturedBytes env s0 (evs @ [e]) (bodyBytes env q) (pickExtension (e1Parse env) (Str (cdUrl c)) (Str (cdType c)))"
      if "bodyBytes env q \<noteq> []" "\<not> e1BodyCap env < bytesOf (length (bodyBytes env q))"
      using ans False that unfolding capturedBytes_def by blast
    from False have "t1Outcome ?s = None" "t1Outcome (onMediaBody env c q ?s) = Some r"
      using o w BodyReply by (simp_all add: onBodyReply_def Let_def)
    from onMediaBody_outcome [OF this] cap show ?thesis by (auto simp: explains_def)
  qed
next
  case (HeadersReply i h)
  then obtain rid c where at: "i < length (t1Waiting s)" "t1Waiting s ! i = AwaitHeaders rid c"
    and r: "r = Resolved (Some (ManifestMedia (cdUrl c) ''mp4'' (mergeHeaders h (om_get (t1Headers s) rid))))"
    using o by (auto simp: onHeadersReply_def split: if_splits waiting.splits)
  then have "AwaitHeaders rid c \<in> set (t1Waiting s)" by (metis nth_mem)
  with sc r show ?thesis unfolding explains_def t1Scanned_def using cleanManifest_mono by auto
qed (use o in \<open>auto simp: onRequestWillBeSent_def onResponseReceived_def onDataReceived_def onLoadingFinished_def
      onAbort_def explains_def Let_def split: if_splits option.splits list.splits prod.splits\<close>)

lemma t1Run_explained:
  assumes "t1Run env s0 evs s" "t1Scanned env s0 [] s0" "t1Outcome s0 = None"
  shows "t1Scanned env s0 evs s \<and> (\<forall>r. t1Outcome s = Some r \<longrightarrow> explains env s0 evs r)"
  using assms
proof (induction rule: t1Run.induct)
  case (step evs s e)
  then have "explains env s0 (evs @ [e]) r" if "t1Outcome (t1Step env e s) = Some r" for r
    using that t1Step_explained [of env s0 evs s e r] explains_mono t1Step_settled [of s _ env e]
    by (cases "t1Outcome s") auto
  with step show ?case using t1Step_scanned by blast
qed simp

text \<open>While the promise is open the fallthrough timer is armed; afterwards nothing is.\<close>

definition t1Timers :: "tier1 \<Rightarrow> bool" where
  "t1Timers s \<longleftrightarrow> (if t1Outcome s = None then t1Fall s \<and> t1Drm s
     else \<not> t1Fall s \<and> \<not> t1Drm s \<and> \<not> t1Listener s)"

lemma t1Timers_settle [simp]: "t1Timers s \<Longrightarrow> t1Timers (settle r s)"
  by (simp add: t1Timers_def settle_def stopTimers_def)

lemma t1Timers_cong:
  "t1Timers s \<Longrightarrow> t1Outcome s' = t1Outcome s \<Longrightarrow> t1Fall s' = t1Fall s \<Longrightarrow> t1Drm s' = t1Drm s \<Longrightarrow>
   t1Listener s' = t1Listener s \<Longrightarrow> t1Timers s'"
  by (simp add: t1Timers_def)

lemma t1Timers_fields [simp]:
  "t1Timers (s\<lparr>t1Candidates := a\<rparr>) = t1Timers s" "t1Timers (s\<lparr>t1Received := b\<rparr>) = t1Timers s"
  "t1Timers (s\<lparr>t1Headers := c\<rparr>) = t1Timers s" "t1Timers (s\<lparr>t1Waiting := d\<rparr>) = t1Timers s"
  "t1Timers (s\<lparr>t1Polls := e\<rparr>) = t1Timers s"
  by (simp_all add: t1Timers_def)

lemma t1Timers_body: "t1Timers s \<Longrightarrow> t1Timers (onManifestBody env rid c r s)" "t1Timers s \<Longrightarrow> t1Timers (onMediaBody env c r s)"
  by (simp_all add: onManifestBody_def onMediaBody_def Let_def split: option.split)

lemma t1Step_timers: "t1Timers s \<Longrightarrow> t1Timers (t1Step env e s)"
proof (cases e)
  case (BodyReply i r)
  assume "t1Timers s"
  then show ?thesis unfolding BodyReply
    by (simp add: onBodyReply_def Let_def t1Timers_body split: waiting.split option.split)
next
  case FallthroughTimer
  assume "t1Timers s"
  then show ?thesis unfolding FallthroughTimer
    by (auto simp: t1Timers_def settle_def stopTimers_def split: if_splits)
next
  case Abort
  assume "t1Timers s"
  then show ?thesis unfolding Abort
    by (auto simp: t1Timers_def settle_def stopTimers_def onAbort_def split: if_splits)
qed (simp_all add: onRequestWillBeSent_def onResponseReceived_def onDataReceived_def onLoadingFinished_def
      onHeadersReply_def Let_def split: option.split waiting.split list.split prod.split)

lemma interceptStart_inv:
  "t1Bounded (interceptStart sg ab)" "t1Scanned env (interceptStart sg ab) [] (interceptStart sg ab)"
  "sg \<and> ab \<or> t1Timers (interceptStart sg ab) \<and> t1Outcome (interceptStart sg ab) = None"
  by (auto simp: interceptStart_def Let_def t1Bounded_def t1Scanned_def t1Timers_def onAbort_def om_keys_def)

lemma t1Run_inv:
  assumes "t1Run env s evs t"
  shows "t1Bounded s \<Longrightarrow> t1Bounded t" "t1Timers s \<Longrightarrow> t1Timers t"
  using assms
  by (induction rule: t1Run.induct) (auto simp: t1Step_bounded t1Step_timers)

section \<open>Properties\<close>

definition sampleT1 :: tier1Env where
  "sampleT1 = \<lparr>e1Url = ''http://a/'', e1BodyCap = bytesOf 100, e1Parse = (\<lambda>u. None),
     e1Decode = map (\<lambda>b. char_of (unat b)), e1Encode = map (\<lambda>c. of_nat (of_char c))\<rparr>"

definition sampleT1Events :: "t1Event list" where
  "sampleT1Events =
     [RequestWillBeSent ''1'' [(''cookie'', Str ''k''), (''accept'', Str ''x'')],
      ResponseReceived ''1'' ''http://a/v.m3u8'' '''' 200 False, LoadingFinished ''1'' None,
      BodyReply 0 (Some \<lparr>brText = ''#EXTM3U'', brBase64 = False\<rparr>), HeadersReply 0 None]"

definition sampleT1End :: tier1 where
  "sampleT1End = foldl (\<lambda>t e. t1Step sampleT1 e t) (interceptStart False False) sampleT1Events"

lemma sampleT1_run: "t1Run sampleT1 (interceptStart False False) sampleT1Events sampleT1End"
  unfolding sampleT1End_def by (rule t1Run_foldl)

lemma sampleT1_re: "isCandidate ''http://a/v.m3u8'' ''''" "reTest MANIFEST_RE ''http://a/v.m3u8''"
  "scanManifestForDrm ''#EXTM3U'' ''http://a/v.m3u8'' = None"
  by code_simp+

lemma sampleT1_outcome:
  "t1Outcome sampleT1End = Some (Resolved (Some (ManifestMedia ''http://a/v.m3u8'' ''mp4'' (Some [(''cookie'', ''k'')]))))"
  by (simp add: sampleT1End_def sampleT1Events_def interceptStart_def sampleT1_re t1_ops captureHeaders_def
      AUTH_HEADER_NAMES_def om_evict_def REQUEST_HEADERS_CAP_def CANDIDATES_CAP_def manifestText_def sampleT1_def
      MANIFEST_CAP_def bytesOf_def dropAt_def om_del_def mergeHeaders_def spread_def)

text \<open>C16: Whatever the browser does, in whatever order, the interceptor's answer is accounted for. It answers
  "nothing found" (and so hands over to the second tier) only after its own fallthrough timer; bytes are
  non-empty, within the cap, and are the body the browser gave for a tracked candidate; a manifest URL is
  handed on only when a body for it was read, was not empty or too large, and carried no DRM marker; a
  rejection is one of four codes, and \<open>timeout\<close> only after an abort.\<close>

theorem intercept_outcome_explained:
  assumes "t1Run env (interceptStart sg False) evs s" "t1Outcome s = Some r"
  shows "explains env (interceptStart sg False) evs r"
  using t1Run_explained [OF assms(1) interceptStart_inv(2)] interceptStart_inv(3) [of sg False] assms(2) by auto

theorem intercept_outcome_explained_witness:
  "explains sampleT1 (interceptStart False False) sampleT1Events
     (Resolved (Some (ManifestMedia ''http://a/v.m3u8'' ''mp4'' (Some [(''cookie'', ''k'')]))))"
  by (rule intercept_outcome_explained [OF sampleT1_run sampleT1_outcome])

text \<open>C18: The state the interceptor keeps about a page is bounded whatever the page does: at most 256 tracked
  candidates and 256 header sets, a byte count only for a tracked candidate, and of the request headers
  only the four that are replayed.\<close>

theorem intercept_bounded:
  assumes "t1Run env (interceptStart sg ab) evs s"
  shows "length (t1Candidates s) \<le> 256 \<and> length (t1Headers s) \<le> 256
    \<and> set (om_keys (t1Received s)) \<subseteq> set (om_keys (t1Candidates s))
    \<and> (\<Union>h\<in>set (t1Headers s). set (om_keys (snd h))) \<subseteq> {''referer'', ''origin'', ''cookie'', ''authorization''}"
  using t1Run_inv(1) [OF assms interceptStart_inv(1)]
  by (auto simp: t1Bounded_def CANDIDATES_CAP_def REQUEST_HEADERS_CAP_def knownHeaders_def AUTH_HEADER_NAMES_def om_keys_def)

theorem intercept_bounded_witness:
  "length (t1Candidates sampleT1End) \<le> 256 \<and> length (t1Headers sampleT1End) \<le> 256
    \<and> set (om_keys (t1Received sampleT1End)) \<subseteq> set (om_keys (t1Candidates sampleT1End))
    \<and> (\<Union>h\<in>set (t1Headers sampleT1End). set (om_keys (snd h))) \<subseteq> {''referer'', ''origin'', ''cookie'', ''authorization''}"
  by (rule intercept_bounded [OF sampleT1_run])



text \<open>The last branch of \<open>interceptMedia\<close> is never taken: the fallthrough timer answers.\<close>

lemma interceptEnd_settled: "t1Outcome (interceptEnd env sg ab evs) \<noteq> None"
proof (cases "sg \<and> ab")
  case True
  then have "t1Outcome (interceptStart sg ab) = Some (Rejected (dErr TIMEOUT ''interception aborted''))"
    by (simp add: interceptStart_def Let_def onAbort_def)
  from t1Run_settled [OF t1Run_foldl this] show ?thesis by (simp add: interceptEnd_def del: foldl_append)
next
  case False
  have "t1Timers (foldl (\<lambda>s e. t1Step env e s) (interceptStart sg ab) evs)"
    using t1Run_inv(2) [OF t1Run_foldl] interceptStart_inv(3) [of sg ab] False by blast
  then show ?thesis by (auto simp: interceptEnd_def t1Timers_def split: if_splits)
qed

text \<open>With a signal that is already aborted the promise is rejected first and the timers are armed afterwards;
  only their own firing ends them.\<close>

lemma intercept_aborted_leaves_timers:
  "t1Run env (interceptStart True True) evs s \<Longrightarrow> FallthroughTimer \<notin> set evs \<Longrightarrow> t1Outcome s \<noteq> None \<and> t1Fall s \<and> t1Drm s"
proof (induction rule: t1Run.induct)
  case start
  show ?case by (simp add: interceptStart_def Let_def onAbort_def)
next
  case (step evs t e)
  then have t: "t1Outcome t \<noteq> None" "t1Fall t" "t1Drm t" "e \<noteq> FallthroughTimer" by auto
  then obtain r where o: "t1Outcome t = Some r" by blast
  have "t1Fall (t1Step env e t) = t1Fall t \<and> t1Drm (t1Step env e t) = t1Drm t"
    using o t(4) by (cases e) (auto simp: t1_ops settle_def split: t1_splits)
  with t t1Step_settled [OF o] show ?case by simp
qed

end
