(* ===== verification/Tier2.thy ===== *)
theory Tier2
  imports Tier1
begin

text \<open>
  \<open>tier2-dom.js\<close>: media played from a blob URL. The hook in the page is a state with a bounded
  list; the in-page fetch is a function of the response it reads; the polling loop reads one
  observation of the page per iteration and, since only the clock ends it, is a partial function.
  The block-page patterns repeat those of \<open>tier1-cdp.js\<close>.
\<close>

section \<open>The hook in the page\<close>

definition BLOB_CAP :: nat where "BLOB_CAP = 64"
definition POLL_INTERVAL :: nat where "POLL_INTERVAL = 250"

text \<open>\<open>arr.shift()\<close> on an empty list does nothing, as \<open>drop 1\<close> does.\<close>

definition pushBlobUrl :: "string list \<Rightarrow> bool \<Rightarrow> string \<Rightarrow> nat \<Rightarrow> string list" where
  "pushBlobUrl arr isBlob u cap =
     (if \<not> isBlob then arr else (if cap \<le> length arr then drop 1 arr else arr) @ [u])"

record blobHook =
  bhBlobs :: "string list"
  bhDrm :: bool

datatype hookCall = CreateObjectURL string bool | EmeRequested | EncryptedMedia

definition hookSrc :: "bool \<Rightarrow> blobHook" where
  "hookSrc drm = \<lparr>bhBlobs = [], bhDrm = drm\<rparr>"

text \<open>The original \<open>createObjectURL\<close> made \<open>u\<close>; the caller gets it back whatever is recorded.\<close>

fun hookCallStep :: "nat \<Rightarrow> blobHook \<Rightarrow> hookCall \<Rightarrow> string option \<times> blobHook" where
  "hookCallStep cap h (CreateObjectURL u isBlob) =
     (Some u, if isBlob then h\<lparr>bhBlobs := (if cap \<le> length (bhBlobs h) then drop 1 (bhBlobs h) else bhBlobs h) @ [u]\<rparr> else h)"
| "hookCallStep cap h EmeRequested = (None, h\<lparr>bhDrm := True\<rparr>)"
| "hookCallStep cap h EncryptedMedia = (None, h\<lparr>bhDrm := True\<rparr>)"

section \<open>Starting playback\<close>

datatype clickResult = NoHandle | ClickFails | Clicked

definition PLAY_SELECTORS :: "string list" where
  "PLAY_SELECTORS =
     [''[aria-label=\"Play\"]'', ''[data-testid=\"play\"]'', ''video'',
      ''button[aria-label*=\"play\" i]'', ''button[title*=\"play\" i]'']"

fun clickLoop :: "(string \<Rightarrow> clickResult) \<Rightarrow> string list \<Rightarrow> string option" where
  "clickLoop page [] = None"
| "clickLoop page (sel # sels) = (if page sel = Clicked then Some sel else clickLoop page sels)"

definition tryClickPlay :: "(string \<Rightarrow> clickResult) \<Rightarrow> string option" where
  "tryClickPlay page = clickLoop page PLAY_SELECTORS"

section \<open>The fetch in the page\<close>

text \<open>
  A response: content type and length headers, and the chunks its reader gives; \<open>None\<close> among them is
  a rejected read (the abort timer included).
\<close>

record blobResp =
  brType :: "string option"
  brLength :: "string option"
  brBody :: "byte list option list option"

datatype payload = TooLarge string jsnum | Encoded string string nat

datatype parts = ReadFails | OverCap nat | Parts "byte list list"

fun readParts :: "jsnum \<Rightarrow> nat \<Rightarrow> byte list list \<Rightarrow> byte list option list \<Rightarrow> parts" where
  "readParts cap sz ps [] = Parts ps"
| "readParts cap sz ps (None # cs) = ReadFails"
| "readParts cap sz ps (Some c # cs) =
     (let sz' = sz + length c in
      if cap < bytesOf sz' then OverCap sz' else readParts cap sz' (ps @ [c]) cs)"

text \<open>The binary string is built in slices of \<open>0x8000\<close> bytes; \<open>None\<close> is a rejected evaluation.\<close>

function binarySlices :: "byte list \<Rightarrow> byte list" where
  "binarySlices bs = (if bs = [] then [] else take 32768 bs @ binarySlices (drop 32768 bs))"
  by auto
termination by (relation "measure length") auto

definition numberOfHeader :: "string option \<Rightarrow> jsnum" where
  "numberOfHeader h = toNumber (case h of None \<Rightarrow> Null | Some s \<Rightarrow> Str s)"

definition inPageFetch :: "jsnum \<Rightarrow> blobResp option \<Rightarrow> payload option" where
  "inPageFetch cap reply = (case reply of None \<Rightarrow> None
   | Some r \<Rightarrow>
       let ty = (case brType r of None \<Rightarrow> [] | Some t \<Rightarrow> t); cl = numberOfHeader (brLength r) in
       if isFiniteNum cl \<and> cap < cl then Some (TooLarge ty cl)
       else (case brBody r of None \<Rightarrow> Some (TooLarge ty (bytesOf 0))
         | Some chunks \<Rightarrow> (case readParts cap 0 [] chunks of
             ReadFails \<Rightarrow> None
           | OverCap n \<Rightarrow> Some (TooLarge ty (bytesOf n))
           | Parts ps \<Rightarrow>
               let ab = concat ps in
               if cap < bytesOf (length ab) then Some (TooLarge ty (bytesOf (length ab)))
               else Some (Encoded (btoa (binarySlices ab)) ty (length ab)))))"

section \<open>Polling\<close>

text \<open>
  What one iteration sees: the clock, the signal, the page's video source with the recorded blobs,
  the responses of the blob URLs, the DRM flag, and the page's title and text. \<open>None\<close> is an
  evaluation that fails.
\<close>

record blobObs =
  boNow :: int
  boAborted :: bool
  boPage :: "(string option \<times> string list) option"
  boFetch :: "string \<Rightarrow> blobResp option"
  boDrm :: "bool option"
  boText :: "(string \<times> string) option"

record tier2Env =
  e2Timeout :: "jsnum option"
  e2BodyCap :: "jsnum option"
  e2Parse :: urlParser
  e2Drm :: "bool option"
  e2Text :: "(string \<times> string) option"
  e2Click :: "string \<Rightarrow> clickResult"
  e2Start :: int
  e2Obs :: "nat \<Rightarrow> blobObs"

definition t2Cap :: "tier2Env \<Rightarrow> jsnum" where
  "t2Cap env = (case e2BodyCap env of Some c \<Rightarrow> c | None \<Rightarrow> DEFAULT_BODY_CAP)"

definition beforeDeadline :: "tier2Env \<Rightarrow> int \<Rightarrow> bool" where
  "beforeDeadline env now = (case (case e2Timeout env of Some t \<Rightarrow> t | None \<Rightarrow> Fin 30000) of
     Fin t \<Rightarrow> Fin (of_int now) < Fin (of_int (e2Start env) + t)
   | t \<Rightarrow> Fin (of_int now) < t)"

definition pickBlob :: "(string option \<times> string list) option \<Rightarrow> string option" where
  "pickBlob page = (case page of None \<Rightarrow> None
   | Some (src, blobs) \<Rightarrow>
       (case src of
          Some v \<Rightarrow> if prefix ''blob:'' v then Some v else if blobs \<noteq> [] then Some (last blobs) else None
        | None \<Rightarrow> if blobs \<noteq> [] then Some (last blobs) else None))"

definition payloadResult :: "tier2Env \<Rightarrow> string \<Rightarrow> payload option \<Rightarrow> (exn + media) option" where
  "payloadResult env u p = (case p of
     None \<Rightarrow> None
   | Some (TooLarge ty n) \<Rightarrow> Some (Inl (dErr NETWORK_ERROR ''blob body exceeds size cap''))
   | Some (Encoded b64 ty n) \<Rightarrow>
       if t2Cap env < bytesOf n then Some (Inl (dErr NETWORK_ERROR ''blob body exceeds size cap''))
       else if 0 < n then Some (Inr (BytesMedia (base64Decode b64) (pickExtension (e2Parse env) (Str u) (Str ty))))
       else None)"

definition showsBlock :: "(string \<times> string) option \<Rightarrow> bool" where
  "showsBlock t = (case t of None \<Rightarrow> False | Some (titleText, bodyText) \<Rightarrow> isBlocked titleText bodyText)"

text \<open>When the DRM flag cannot be read the text of the page is not looked at either.\<close>

definition lateTerminal :: "blobObs \<Rightarrow> (exn + media) option" where
  "lateTerminal ob = (case boDrm ob of
     None \<Rightarrow> None
   | Some True \<Rightarrow> Some (Inl (dErr DRM_DETECTED []))
   | Some False \<Rightarrow> if showsBlock (boText ob) then Some (Inl (dErr ANTI_BOT_BLOCK [])) else None)"

definition blobRound :: "tier2Env \<Rightarrow> blobObs \<Rightarrow> (exn + media) option" where
  "blobRound env ob =
     (if boAborted ob then Some (Inl (dErr TIMEOUT ''aborted during blob detection''))
      else (case (case pickBlob (boPage ob) of
                Some u \<Rightarrow> if u \<noteq> [] then payloadResult env u (inPageFetch (t2Cap env) (boFetch ob u)) else None
              | None \<Rightarrow> None) of
          Some r \<Rightarrow> Some r
        | None \<Rightarrow> lateTerminal ob))"

text \<open>\<open>None\<close> is a loop that does not end.\<close>

partial_function (option) blobLoop :: "tier2Env \<Rightarrow> nat \<Rightarrow> (exn + media) option" where
  [code]: "blobLoop env i =
     (if beforeDeadline env (boNow (e2Obs env i))
      then (case blobRound env (e2Obs env i) of Some r \<Rightarrow> Some r | None \<Rightarrow> blobLoop env (Suc i))
      else Some (Inl (dErr NO_MEDIA_FOUND [])))"

text \<open>The selector that was clicked, and the result.\<close>

definition detectBlob :: "tier2Env \<Rightarrow> string option \<times> (exn + media) option" where
  "detectBlob env =
     (if e2Drm env = Some True then (None, Some (Inl (dErr DRM_DETECTED [])))
      else if showsBlock (e2Text env) then (None, Some (Inl (dErr ANTI_BOT_BLOCK [])))
      else (tryClickPlay (e2Click env), blobLoop env 0))"

section \<open>Facts: the hook\<close>

definition blobUrls :: "hookCall list \<Rightarrow> string list" where
  "blobUrls cs = concat (map (\<lambda>c. case c of CreateObjectURL u True \<Rightarrow> [u] | _ \<Rightarrow> []) cs)"

lemma hookCallStep_push: "hookCallStep cap h (CreateObjectURL u b) = (Some u, h\<lparr>bhBlobs := pushBlobUrl (bhBlobs h) b u cap\<rparr>)"
  by (cases h) (simp add: pushBlobUrl_def)

lemma push_suffix:
  assumes "0 < cap" "xs = drop (length us - cap) us"
  shows "pushBlobUrl xs True u cap = drop (length (us @ [u]) - cap) (us @ [u])"
proof (cases "cap \<le> length us")
  case True
  then have "length xs = cap" using assms by simp
  moreover have "drop 1 xs = drop (Suc (length us) - cap) us"
    using True assms by (simp add: drop_drop Suc_diff_le)
  ultimately show ?thesis using True assms(1) by (simp add: pushBlobUrl_def)
next
  case False
  then show ?thesis using assms by (simp add: pushBlobUrl_def)
qed

lemma hook_run:
  "0 < cap \<Longrightarrow> bhBlobs (foldl (\<lambda>h c. snd (hookCallStep cap h c)) (hookSrc d) cs)
     = drop (length (blobUrls cs) - cap) (blobUrls cs)"
proof (induction cs rule: rev_induct)
  case (snoc c cs)
  show ?case
  proof (cases c)
    case (CreateObjectURL u b)
    then show ?thesis
    proof (cases b)
      case True
      have "blobUrls (cs @ [c]) = blobUrls cs @ [u]" using CreateObjectURL True by (simp add: blobUrls_def)
      then show ?thesis using CreateObjectURL True push_suffix [OF snoc.prems snoc.IH [OF snoc.prems], of u]
        by (simp add: hookCallStep_push del: hookCallStep.simps(1))
    next
      case False
      then show ?thesis using CreateObjectURL snoc
        by (simp add: blobUrls_def pushBlobUrl_def hookCallStep_push del: hookCallStep.simps(1))
    qed
  qed (use snoc in \<open>simp_all add: blobUrls_def\<close>)
qed (simp add: hookSrc_def blobUrls_def)

section \<open>Facts: the in-page fetch\<close>

declare binarySlices.simps [simp del]

lemma binarySlices_id: "binarySlices bs = bs"
  by (induction bs rule: binarySlices.induct) (subst binarySlices.simps, simp)

lemma readParts_ok: "readParts cap n ps cs = Parts qs \<Longrightarrow> qs = ps @ map the cs \<and> None \<notin> set cs"
  by (induction cap n ps cs rule: readParts.induct) (auto simp: Let_def split: if_splits)

text \<open>What a response's reader gives in full.\<close>

definition wholeBody :: "blobResp \<Rightarrow> byte list \<Rightarrow> bool" where
  "wholeBody r b \<longleftrightarrow> (\<exists>chunks. brBody r = Some chunks \<and> None \<notin> set chunks \<and> b = concat (map the chunks))"

lemma inPageFetch_encoded:
  "inPageFetch cap reply = Some (Encoded b64 ty n) \<Longrightarrow>
   \<exists>r b. reply = Some r \<and> wholeBody r b \<and> b64 = btoa b \<and> n = length b \<and> \<not> cap < bytesOf (length b)
     \<and> ty = (case brType r of None \<Rightarrow> [] | Some t \<Rightarrow> t)"
  by (auto simp: inPageFetch_def Let_def wholeBody_def binarySlices_id dest!: readParts_ok
      split: option.splits if_splits parts.splits)

definition capturedBlob :: "tier2Env \<Rightarrow> blobObs \<Rightarrow> byte list \<Rightarrow> extval \<Rightarrow> bool" where
  "capturedBlob env ob b x \<longleftrightarrow> b \<noteq> [] \<and> \<not> t2Cap env < bytesOf (length b)
     \<and> (\<exists>u r. pickBlob (boPage ob) = Some u \<and> boFetch ob u = Some r \<and> wholeBody r b
          \<and> x = pickExtension (e2Parse env) (Str u) (Str (case brType r of None \<Rightarrow> [] | Some t \<Rightarrow> t)))"

lemma payloadResult_ok:
  assumes "payloadResult env u (inPageFetch (t2Cap env) (boFetch ob u)) = Some (Inr m)" "pickBlob (boPage ob) = Some u"
  shows "\<exists>b x. m = BytesMedia b x \<and> capturedBlob env ob b x"
proof -
  from assms(1) obtain b64 ty n where p: "inPageFetch (t2Cap env) (boFetch ob u) = Some (Encoded b64 ty n)"
    and n: "0 < n" and m: "m = BytesMedia (base64Decode b64) (pickExtension (e2Parse env) (Str u) (Str ty))"
    by (auto simp: payloadResult_def split: option.splits payload.splits if_splits)
  from inPageFetch_encoded [OF p] m n assms(2) show ?thesis
    by (fastforce simp: capturedBlob_def base64_roundtrip)
qed

lemma payloadResult_err: "payloadResult env u p = Some (Inl e) \<Longrightarrow> e = dErr NETWORK_ERROR ''blob body exceeds size cap''"
  by (auto simp: payloadResult_def split: option.splits payload.splits if_splits)

section \<open>Facts: the loop\<close>

definition terminalSeen :: "blobObs \<Rightarrow> bool" where
  "terminalSeen ob \<longleftrightarrow> boDrm ob = Some True \<or> boDrm ob = Some False \<and> showsBlock (boText ob)"

lemma lateTerminal_cases:
  "lateTerminal ob = None \<longleftrightarrow> \<not> terminalSeen ob" "lateTerminal ob \<noteq> Some (Inr m)"
  "lateTerminal ob = Some (Inl e) \<Longrightarrow> e = dErr DRM_DETECTED [] \<or> e = dErr ANTI_BOT_BLOCK []"
  by (auto simp: lateTerminal_def terminalSeen_def split: option.splits bool.splits if_splits)

lemma blobRound_None: "blobRound env ob = None \<Longrightarrow> \<not> boAborted ob \<and> \<not> terminalSeen ob"
  by (auto simp: blobRound_def lateTerminal_cases split: option.splits if_splits)

lemma blobRound_ok: "blobRound env ob = Some (Inr m) \<Longrightarrow> \<exists>b x. m = BytesMedia b x \<and> capturedBlob env ob b x"
  by (auto simp: blobRound_def lateTerminal_cases dest: payloadResult_ok split: option.splits if_splits)

lemma blobRound_err: "blobRound env ob = Some (Inl e) \<Longrightarrow>
   isDownloaderError e \<and> (exnCode e = Str TIMEOUT \<and> boAborted ob \<or> exnCode e = Str NETWORK_ERROR
     \<or> exnCode e = Str DRM_DETECTED \<or> exnCode e = Str ANTI_BOT_BLOCK)"
  by (auto simp: blobRound_def dest!: payloadResult_err lateTerminal_cases(3) split: option.splits if_splits)

definition polledTo :: "tier2Env \<Rightarrow> nat \<Rightarrow> nat \<Rightarrow> bool" where
  "polledTo env i n \<longleftrightarrow> i \<le> n \<and> (\<forall>k. i \<le> k \<and> k < n \<longrightarrow>
     beforeDeadline env (boNow (e2Obs env k)) \<and> blobRound env (e2Obs env k) = None)"

lemma polledTo_step:
  "beforeDeadline env (boNow (e2Obs env i)) \<Longrightarrow> blobRound env (e2Obs env i) = None \<Longrightarrow> polledTo env (Suc i) n \<Longrightarrow> polledTo env i n"
  unfolding polledTo_def by (metis Suc_leD le_antisym not_less_eq_eq)

text \<open>The loop ends in the round that answers, or at the deadline.\<close>

definition endsAt :: "tier2Env \<Rightarrow> nat \<Rightarrow> exn + media \<Rightarrow> nat \<Rightarrow> bool" where
  "endsAt env i r n \<longleftrightarrow> polledTo env i n \<and>
     (if beforeDeadline env (boNow (e2Obs env n)) then blobRound env (e2Obs env n) = Some r
      else r = Inl (dErr NO_MEDIA_FOUND []))"

lemma blobLoop_ends:
  assumes "blobLoop env i = Some r"
  shows "\<exists>n. endsAt env i r n"
proof (rule blobLoop.raw_induct [where P = "\<lambda>env i r. \<exists>n. endsAt env i r n", OF _ assms])
  fix loop env i r
  assume ih: "\<And>env i r. loop env i = Some r \<Longrightarrow> \<exists>n. endsAt env i r n"
    and r: "(if beforeDeadline env (boNow (e2Obs env i))
       then case blobRound env (e2Obs env i) of None \<Rightarrow> loop env (Suc i) | Some r \<Rightarrow> Some r
       else Some (Inl (dErr NO_MEDIA_FOUND []))) = Some r"
  show "\<exists>n. endsAt env i r n"
  proof (cases "beforeDeadline env (boNow (e2Obs env i)) \<and> blobRound env (e2Obs env i) = None")
    case True
    with r have "loop env (Suc i) = Some r" by simp
    from ih [OF this] obtain n where "endsAt env (Suc i) r n" by blast
    with True polledTo_step [of env i n] show ?thesis unfolding endsAt_def by blast
  next
    case False
    have "polledTo env i i" by (auto simp: polledTo_def)
    with False r have "endsAt env i r i" by (auto simp: endsAt_def split: if_splits option.splits)
    then show ?thesis by blast
  qed
qed

lemma blobLoop_returns:
  assumes tick: "\<And>k. boNow (e2Obs env k) < boNow (e2Obs env (Suc k))" and t: "e2Timeout env = Some (Fin t)"
  shows "blobLoop env i \<noteq> None"
proof (induction "nat (e2Start env + \<lceil>t\<rceil> - boNow (e2Obs env i))" arbitrary: i rule: less_induct)
  case less
  show ?case
  proof (cases "beforeDeadline env (boNow (e2Obs env i))")
    case True
    then have "of_int (boNow (e2Obs env i)) < of_int (e2Start env) + t"
      by (simp add: beforeDeadline_def t less_jsnum_def less_eq_jsnum_def)
    then have "boNow (e2Obs env i) < e2Start env + \<lceil>t\<rceil>" by linarith
    then have "blobLoop env (Suc i) \<noteq> None" using less tick [of i] by simp
    then show ?thesis by (subst blobLoop.simps) (auto split: option.split)
  qed (subst blobLoop.simps, simp)
qed

section \<open>Properties\<close>

text \<open>The page's hook records exactly the most recent blob URLs: after any calls, the list holds the last 64
  URLs made for real blobs, in order, and nothing made for a media source.\<close>

theorem blobHook_keeps_last:
  "bhBlobs (foldl (\<lambda>h c. snd (hookCallStep BLOB_CAP h c)) (hookSrc d) cs)
     = drop (length (blobUrls cs) - 64) (blobUrls cs)"
  using hook_run [of BLOB_CAP d cs] by (simp add: BLOB_CAP_def)

text \<open>C19: What the blob detector returns is the whole body of a response the page gave for the blob URL it had at
  that time: non-empty, within the cap, undamaged by the base64 trip out of the page, before the deadline,
  with no terminal condition seen in an earlier round.\<close>

theorem detectBlob_bytes:
  assumes "snd (detectBlob env) = Some (Inr m)"
  shows "\<exists>b x n. m = BytesMedia b x \<and> capturedBlob env (e2Obs env n) b x
    \<and> beforeDeadline env (boNow (e2Obs env n)) \<and> \<not> boAborted (e2Obs env n)
    \<and> (\<forall>k<n. \<not> terminalSeen (e2Obs env k) \<and> \<not> boAborted (e2Obs env k))"
proof -
  from assms have "blobLoop env 0 = Some (Inr m)" by (auto simp: detectBlob_def split: if_splits)
  then obtain n where e: "endsAt env 0 (Inr m) n" using blobLoop_ends by blast
  then have r: "beforeDeadline env (boNow (e2Obs env n))" "blobRound env (e2Obs env n) = Some (Inr m)"
    by (auto simp: endsAt_def split: if_splits)
  then have "\<not> boAborted (e2Obs env n)" by (auto simp: blobRound_def)
  with r e blobRound_ok [OF r(2)] blobRound_None show ?thesis
    unfolding endsAt_def polledTo_def by blast
qed

definition sampleObs :: "nat \<Rightarrow> blobObs" where
  "sampleObs n = \<lparr>boNow = 1000 + 250 * int n, boAborted = False,
     boPage = Some (if n = 0 then None else Some ''blob:1'', []),
     boFetch = (\<lambda>u. Some \<lparr>brType = Some ''video/webm'', brLength = None, brBody = Some [Some [1, 2], Some [3]]\<rparr>),
     boDrm = Some False, boText = Some (''Movies'', ''page body'')\<rparr>"

definition sampleT2 :: tier2Env where
  "sampleT2 = \<lparr>e2Timeout = Some (Fin 1000), e2BodyCap = Some (Fin 100), e2Parse = (\<lambda>u. None), e2Drm = Some False,
     e2Text = Some (''Movies'', ''page body''), e2Click = (\<lambda>s. if s = ''video'' then Clicked else NoHandle),
     e2Start = 1000, e2Obs = sampleObs\<rparr>"

lemma sample_page [simp]: "showsBlock (Some (''Movies'', ''page body'')) = False"
  by code_simp

lemma sampleT2_fields [simp]:
  "beforeDeadline sampleT2 (boNow (sampleObs n)) = (n < 4)" "t2Cap sampleT2 = Fin 100"
  "e2Timeout sampleT2 = Some (Fin 1000)" "e2Obs sampleT2 = sampleObs" "e2Drm sampleT2 = Some False" "showsBlock (e2Text sampleT2) = False"
  by (simp_all add: sampleT2_def sampleObs_def beforeDeadline_def t2Cap_def less_jsnum_def less_eq_jsnum_def not_le)

lemma sampleT2_payload:
  "payloadResult sampleT2 ''blob:1'' (Some (Encoded (btoa [1, 2, 3]) ''video/webm'' 3))
     = Some (Inr (BytesMedia [1, 2, 3] (ExtString ''webm'')))"
proof -
  have "pickExtension (\<lambda>u. None) (Str ''blob:1'') (Str ''video/webm'') = ExtString ''webm''" by code_simp
  moreover have "e2Parse sampleT2 = (\<lambda>u. None)" by (simp add: sampleT2_def)
  ultimately show ?thesis by (simp add: payloadResult_def base64_roundtrip bytesOf_def del: btoa.simps)
qed

lemma sampleT2_fetch:
  "inPageFetch (Fin 100) (boFetch (sampleObs n) u) = Some (Encoded (btoa [1, 2, 3]) ''video/webm'' 3)"
  by (simp add: inPageFetch_def sampleObs_def numberOfHeader_def bytesOf_def binarySlices_id isFiniteNum_def del: btoa.simps)

lemma sampleT2_rounds: "blobRound sampleT2 (sampleObs n) =
    (if n = 0 then None else Some (Inr (BytesMedia [1, 2, 3] (ExtString ''webm''))))"
proof -
  have "pickBlob (boPage (sampleObs n)) = (if n = 0 then None else Some ''blob:1'')"
    "\<not> boAborted (sampleObs n)" "lateTerminal (sampleObs n) = None"
    by (simp_all add: sampleObs_def pickBlob_def lateTerminal_def)
  then show ?thesis by (cases n) (simp_all add: blobRound_def sampleT2_fetch sampleT2_payload del: btoa.simps)
qed

lemma sampleT2_result: "snd (detectBlob sampleT2) = Some (Inr (BytesMedia [1, 2, 3] (ExtString ''webm'')))"
proof -
  have "blobLoop sampleT2 (Suc 0) = Some (Inr (BytesMedia [1, 2, 3] (ExtString ''webm'')))"
    by (subst blobLoop.simps) (simp add: sampleT2_rounds)
  then have "blobLoop sampleT2 0 = Some (Inr (BytesMedia [1, 2, 3] (ExtString ''webm'')))"
    by (subst blobLoop.simps) (simp add: sampleT2_rounds)
  then show ?thesis by (simp add: detectBlob_def)
qed

theorem detectBlob_bytes_witness:
  "\<exists>b x n. BytesMedia [1, 2, 3] (ExtString ''webm'') = BytesMedia b x \<and> capturedBlob sampleT2 (e2Obs sampleT2 n) b x
    \<and> beforeDeadline sampleT2 (boNow (e2Obs sampleT2 n)) \<and> \<not> boAborted (e2Obs sampleT2 n)
    \<and> (\<forall>k<n. \<not> terminalSeen (e2Obs sampleT2 k) \<and> \<not> boAborted (e2Obs sampleT2 k))"
  by (rule detectBlob_bytes [OF sampleT2_result])

text \<open>C20: A terminal condition is never masked: \<open>no_media_found\<close> is reported only when the deadline passed with every
  round showing neither DRM nor a block page, nor the page before polling; \<open>timeout\<close> only when the signal
  was aborted; any other rejection is DRM, a block page or the size cap.\<close>

theorem detectBlob_errors:
  assumes "snd (detectBlob env) = Some (Inl e)"
  shows "isDownloaderError e \<and>
    (exnCode e = Str NO_MEDIA_FOUND \<and> e2Drm env \<noteq> Some True \<and> \<not> showsBlock (e2Text env)
       \<and> (\<exists>n. \<not> beforeDeadline env (boNow (e2Obs env n)) \<and> (\<forall>k<n. \<not> terminalSeen (e2Obs env k)))
     \<or> exnCode e = Str TIMEOUT \<and> (\<exists>n. boAborted (e2Obs env n))
     \<or> exnCode e = Str DRM_DETECTED \<or> exnCode e = Str ANTI_BOT_BLOCK \<or> exnCode e = Str NETWORK_ERROR)"
proof (cases "e2Drm env = Some True \<or> showsBlock (e2Text env)")
  case True
  with assms show ?thesis by (auto simp: detectBlob_def split: if_splits)
next
  case False
  with assms have "blobLoop env 0 = Some (Inl e)" by (auto simp: detectBlob_def)
  then obtain n where e: "endsAt env 0 (Inl e) n" using blobLoop_ends by blast
  show ?thesis
  proof (cases "beforeDeadline env (boNow (e2Obs env n))")
    case True
    with e have "blobRound env (e2Obs env n) = Some (Inl e)" by (simp add: endsAt_def)
    from blobRound_err [OF this] show ?thesis by blast
  next
    case past: False
    with e have "e = dErr NO_MEDIA_FOUND []" "\<forall>k<n. \<not> terminalSeen (e2Obs env k)"
      using blobRound_None by (auto simp: endsAt_def polledTo_def)
    with False past show ?thesis by auto
  qed
qed

definition drmT2 :: tier2Env where
  "drmT2 = sampleT2\<lparr>e2Obs := (\<lambda>n. (sampleObs n)\<lparr>boPage := None, boDrm := Some (n = 1)\<rparr>)\<rparr>"

lemma drmT2_result: "snd (detectBlob drmT2) = Some (Inl (dErr DRM_DETECTED []))"
proof -
  have f: "e2Obs drmT2 n = (sampleObs n)\<lparr>boPage := None, boDrm := Some (n = 1)\<rparr>" "e2Drm drmT2 = Some False"
    "showsBlock (e2Text drmT2) = False" "e2Start drmT2 = 1000" "e2Timeout drmT2 = Some (Fin 1000)" for n
    using sampleT2_fields by (simp_all add: drmT2_def sampleT2_def)
  have b: "beforeDeadline drmT2 (boNow (e2Obs drmT2 n))" if "n < 4" for n
    using that by (simp add: beforeDeadline_def f sampleObs_def less_jsnum_def less_eq_jsnum_def)
  have "blobRound drmT2 (e2Obs drmT2 1) = Some (Inl (dErr DRM_DETECTED []))"
    by (simp add: blobRound_def f sampleObs_def pickBlob_def lateTerminal_def)
  then have "blobLoop drmT2 1 = Some (Inl (dErr DRM_DETECTED []))"
    using b [of 1] by (subst blobLoop.simps) simp
  moreover have "blobRound drmT2 (e2Obs drmT2 0) = None"
    by (simp add: blobRound_def f sampleObs_def pickBlob_def lateTerminal_def)
  ultimately have "blobLoop drmT2 0 = Some (Inl (dErr DRM_DETECTED []))"
    using b [of 0] by (subst blobLoop.simps) simp
  then show ?thesis by (simp add: detectBlob_def f)
qed

theorem detectBlob_errors_witness:
  "isDownloaderError (dErr DRM_DETECTED []) \<and> exnCode (dErr DRM_DETECTED []) \<noteq> Str NO_MEDIA_FOUND"
  using detectBlob_errors [OF drmT2_result] by (auto simp: error_code_defs)

text \<open>With a finite timeout the detector returns on every page as long as the clock advances between two rounds
  (each round sleeps 250 ms).\<close>

theorem detectBlob_returns:
  assumes "\<And>k. boNow (e2Obs env k) < boNow (e2Obs env (Suc k))" "e2Timeout env = Some (Fin t)"
  shows "snd (detectBlob env) \<noteq> None"
  using blobLoop_returns [OF assms] by (simp add: detectBlob_def)

theorem detectBlob_returns_witness: "snd (detectBlob sampleT2) \<noteq> None"
  by (rule detectBlob_returns [where t = 1000]) (simp_all, simp add: sampleObs_def)

end
