(* ===== verification/Downloader.thy ===== *)
theory Downloader
  imports Backend Tier2
begin

text \<open>
  \<open>downloader.js\<close>: validation, the disk check, the browser and the order of the tiers. The state is
  the backend's, the variables of the routine that its \<open>catch\<close> and \<open>finally\<close> read, and a log of what the
  routine did to the browser. A polling loop that does not end is the result \<open>Hangs\<close>: no
  \<open>catch\<close> or \<open>finally\<close> runs then.
\<close>

datatype stop = Hangs | Throws exn

datatype dlEvent =
    EvLaunch | EvClose | EvContext | EvContextClose | EvPage | EvListen | EvUnlisten
  | EvPhase string | EvIntercept jsnum | EvDetect jsnum | EvStream jsnum

record dl =
  dBack :: backend
  dTier :: nat
  dOut :: "string option"
  dListening :: bool
  dContext :: bool
  dLog :: "dlEvent list"

datatype dlResult = Success string nat | Failed jsprim nat

record dlOpts =
  doTier1 :: jsprim
  doTier2 :: jsprim
  doDownload :: jsprim
  doBodyCap :: "jsnum option"
  doSignal :: bool
  doProgress :: bool

text \<open>
  The outside: the backend's oracles, the resolver of the first URL check, the file system of the
  output directory and its free blocks and block size, the environment variables, the name drawn,
  when the signal is aborted (by stage), the browser calls that may throw, what the page does under
  interception and under polling, and the call stack left to \<open>classifyError\<close>.
\<close>

record dlEnv =
  deBack :: backendEnv
  deLookup :: resolver
  deFs :: fsEnv
  deStat :: "string \<Rightarrow> (int \<times> int) option"
  deMinFree :: jsprim
  deTimeoutMs :: jsprim
  deUuid :: string
  deAborted :: "nat \<Rightarrow> bool"
  deLaunch :: "exn option"
  deContext :: "exn option"
  dePage :: "exn option"
  deEvents :: "exn + t1Event list"
  dePoll :: tier2Env
  deStack :: nat

type_synonym 'a dff = "(dl, stop, 'a) eff"

definition DEFAULT_TIER1_TIMEOUT_MS :: jsnum where "DEFAULT_TIER1_TIMEOUT_MS = Fin 30000"
definition DEFAULT_TIER2_TIMEOUT_MS :: jsnum where "DEFAULT_TIER2_TIMEOUT_MS = Fin 30000"
definition DEFAULT_DOWNLOAD_TIMEOUT_MS :: jsnum where "DEFAULT_DOWNLOAD_TIMEOUT_MS = Fin 120000"
definition DEFAULT_MIN_FREE_BYTES :: jsnum where "DEFAULT_MIN_FREE_BYTES = bytesOf (1024 * 1024 * 1024)"

text \<open>The message of the second error also quotes the two numbers, which nothing reads.\<close>

definition verifyDiskSpace :: "dlEnv \<Rightarrow> string \<Rightarrow> exn + unit" where
  "verifyDiskSpace env dir =
     (let minFree = parseTimeout (deMinFree env) DEFAULT_MIN_FREE_BYTES in
      case deStat env dir of
        None \<Rightarrow> Inl (dErr STORAGE_ERROR (''cannot stat output filesystem: '' @ dir))
      | Some (bavail, bsize) \<Rightarrow>
          if Fin (of_int (bavail * bsize)) < minFree
          then Inl (dErr STORAGE_ERROR ''insufficient disk space'') else Inr ())"

section \<open>Steps\<close>

definition logS :: "dlEvent \<Rightarrow> unit dff" where
  "logS e = doS (\<lambda>s. s\<lparr>dLog := dLog s @ [e]\<rparr>)"

definition throwing :: "exn + 'a \<Rightarrow> 'a dff" where
  "throwing r = liftS (mapErr Throws r)"

definition failing :: "exn option \<Rightarrow> unit dff" where
  "failing r = liftS (case r of None \<Rightarrow> Inr () | Some e \<Rightarrow> Inl (Throws e))"

definition backS :: "'a beff \<Rightarrow> 'a dff" where
  "backS m = (\<lambda>s. case m (dBack s) of (r, b) \<Rightarrow> (mapErr Throws r, s\<lparr>dBack := b\<rparr>))"

text \<open>\<open>try .. catch\<close> and \<open>try .. finally\<close>; a routine that hangs reaches neither.\<close>

definition catchD :: "'a dff \<Rightarrow> (exn \<Rightarrow> 'a dff) \<Rightarrow> 'a dff" where
  "catchD m h = (\<lambda>s. case m s of (Inl (Throws e), s') \<Rightarrow> h e s' | (r, s') \<Rightarrow> (r, s'))"

definition finallyD :: "'a dff \<Rightarrow> (dl \<Rightarrow> dl) \<Rightarrow> 'a dff" where
  "finallyD m f = (\<lambda>s. case m s of (Inl Hangs, s') \<Rightarrow> (Inl Hangs, s') | (r, s') \<Rightarrow> (r, f s'))"

text \<open>The abort listener (\<open>once\<close>): at stage \<open>n\<close> the signal may have fired.\<close>

definition abortNow :: "dlEnv \<Rightarrow> nat \<Rightarrow> dl \<Rightarrow> dl" where
  "abortNow env n s = (if dListening s \<and> deAborted env n
     then s\<lparr>dListening := False, dLog := dLog s @ [EvClose]\<rparr> else s)"

definition abortPoint :: "dlEnv \<Rightarrow> nat \<Rightarrow> unit dff" where
  "abortPoint env n = doS (abortNow env n)"

definition phaseS :: "dlOpts \<Rightarrow> string \<Rightarrow> unit dff" where
  "phaseS opts p = (if doProgress opts then logS (EvPhase p) else returnS ())"

definition bodyCapOf :: "dlOpts \<Rightarrow> jsnum" where
  "bodyCapOf opts = (case doBodyCap opts of Some c \<Rightarrow> c | None \<Rightarrow> DEFAULT_BODY_CAP)"

definition tier1Of :: "dlEnv \<Rightarrow> dlOpts \<Rightarrow> string \<Rightarrow> tier1Env" where
  "tier1Of env opts u = \<lparr>e1Url = u, e1BodyCap = bodyCapOf opts, e1Parse = parseUrl (beNet (deBack env)),
     e1Decode = utf8Decode (beNet (deBack env)), e1Encode = beEncode (deBack env)\<rparr>"

definition tier2Of :: "dlEnv \<Rightarrow> dlOpts \<Rightarrow> tier2Env" where
  "tier2Of env opts = (dePoll env)\<lparr>e2Timeout := Some (parseTimeout (doTier2 opts) DEFAULT_TIER2_TIMEOUT_MS),
     e2BodyCap := Some (bodyCapOf opts), e2Parse := parseUrl (beNet (deBack env))\<rparr>"

definition backOf :: "dlEnv \<Rightarrow> dlOpts \<Rightarrow> backendEnv" where
  "backOf env opts = (deBack env)\<lparr>beBodyCap := Some (bodyCapOf opts), beHasSignal := doSignal opts,
     beOnProgress := doProgress opts\<rparr>"

definition intercept :: "dlEnv \<Rightarrow> dlOpts \<Rightarrow> string \<Rightarrow> exn + media option" where
  "intercept env opts u =
     interceptMedia (tier1Of env opts u) (doSignal opts) (deAborted env 3) (deEvents env)"

section \<open>The tiers\<close>

definition detectS :: "dlEnv \<Rightarrow> dlOpts \<Rightarrow> media dff" where
  "detectS env opts = liftS (case snd (detectBlob (tier2Of env opts)) of
     None \<Rightarrow> Inl Hangs | Some (Inl e) \<Rightarrow> Inl (Throws e) | Some (Inr m) \<Rightarrow> Inr m)"

definition tiersS :: "dlEnv \<Rightarrow> dlOpts \<Rightarrow> string \<Rightarrow> media dff" where
  "tiersS env opts u =
     thenS (phaseS opts ''intercepting'') (\<lambda>_.
     thenS (logS (EvIntercept (parseTimeout (doTier1 opts) DEFAULT_TIER1_TIMEOUT_MS))) (\<lambda>_.
     thenS (throwing (intercept env opts u)) (\<lambda>r.
     thenS (abortPoint env 4) (\<lambda>_.
     case r of
       Some m \<Rightarrow> returnS m
     | None \<Rightarrow>
         thenS (doS (\<lambda>s. s\<lparr>dTier := 2\<rparr>)) (\<lambda>_.
         thenS (logS (EvDetect (parseTimeout (doTier2 opts) DEFAULT_TIER2_TIMEOUT_MS))) (\<lambda>_.
           detectS env opts))))))"

definition mediaExt :: "media \<Rightarrow> extval" where
  "mediaExt m = (case m of BytesMedia _ x \<Rightarrow> x | ManifestMedia _ x _ \<Rightarrow> ExtString x)"

text \<open>The results of the tiers have no other \<open>kind\<close>, so the code's last \<open>else\<close> has no counterpart.\<close>

definition saveS :: "dlEnv \<Rightarrow> dlOpts \<Rightarrow> string \<Rightarrow> media \<Rightarrow> unit dff" where
  "saveS env opts dir m =
     (let ext = safeExt (mediaExt m); out = joinPath dir (deUuid env @ ''.'' @ ext) in
      if ext \<notin> set VIDEO_EXTS then throwing (Inl (dErr NETWORK_ERROR ''unwhitelisted extension''))
      else thenS (doS (\<lambda>s. s\<lparr>dOut := Some out\<rparr>)) (\<lambda>_.
        case m of
          BytesMedia b x \<Rightarrow>
            thenS (phaseS opts ''saving'') (\<lambda>_. backS (writeS (deBack env) out b))
        | ManifestMedia u x auth \<Rightarrow>
            thenS (logS (EvStream (parseTimeout (coalesce (doDownload opts) (deTimeoutMs env)) DEFAULT_DOWNLOAD_TIMEOUT_MS))) (\<lambda>_.
            thenS (backS (downloadStream (backOf env opts) auth u out)) (\<lambda>_. returnS ()))))"

definition bodyS :: "dlEnv \<Rightarrow> dlOpts \<Rightarrow> string \<Rightarrow> string \<Rightarrow> dlResult dff" where
  "bodyS env opts u dir =
     thenS (failing (deContext env)) (\<lambda>_.
     thenS (doS (\<lambda>s. s\<lparr>dContext := True, dLog := dLog s @ [EvContext]\<rparr>)) (\<lambda>_.
     thenS (failing (dePage env)) (\<lambda>_.
     thenS (logS EvPage) (\<lambda>_.
     thenS (abortPoint env 2) (\<lambda>_.
     thenS (tiersS env opts u) (\<lambda>m.
     thenS (saveS env opts dir m) (\<lambda>_.
     thenS (abortPoint env 5) (\<lambda>_.
     thenS (readS dOut) (\<lambda>out.
     thenS (readS dTier) (\<lambda>t.
       returnS (Success (case out of Some p \<Rightarrow> p | None \<Rightarrow> []) t)))))))))))"

text \<open>The \<open>catch\<close> clause; a bug is rethrown, an exhausted stack is the engine's \<open>RangeError\<close>.\<close>

definition stackErr :: exn where
  "stackErr = mkExn RangeErrorC ''RangeError'' ''Maximum call stack size exceeded'' Undefined"

definition failS :: "dlEnv \<Rightarrow> exn \<Rightarrow> dlResult dff" where
  "failS env e =
     thenS (doS (\<lambda>s. case dOut s of None \<Rightarrow> s | Some p \<Rightarrow> s\<lparr>dBack := unlinkFile (deBack env) p (dBack s)\<rparr>)) (\<lambda>_.
     thenS (readS dTier) (\<lambda>t.
     if isDownloaderError e then returnS (Failed (exnCode e) t)
     else (case classifyExn (deStack env) e of
         Inr c \<Rightarrow> returnS (Failed c t)
       | Inl StackOverflow \<Rightarrow> throwing (Inl stackErr)
       | Inl (Thrown v) \<Rightarrow> throwing (Inl e))))"

definition closeAll :: "dlOpts \<Rightarrow> dl \<Rightarrow> dl" where
  "closeAll opts s = s\<lparr>dListening := False, dLog := dLog s @ (if doSignal opts then [EvUnlisten] else [])
     @ (if dContext s then [EvContextClose] else []) @ [EvClose]\<rparr>"

section \<open>The whole download\<close>

definition launchS :: "dlEnv \<Rightarrow> dlOpts \<Rightarrow> unit dff" where
  "launchS env opts =
     thenS (failing (deLaunch env)) (\<lambda>_.
     thenS (logS EvLaunch) (\<lambda>_.
     if \<not> doSignal opts then returnS ()
     else if deAborted env 1 then logS EvClose
     else doS (\<lambda>s. s\<lparr>dListening := True, dLog := dLog s @ [EvListen]\<rparr>)))"

definition admit :: "dlEnv \<Rightarrow> dlOpts \<Rightarrow> jsprim \<Rightarrow> jsprim \<Rightarrow> exn + string" where
  "admit env opts rawUrl rawDir =
     bindR (mapErr plainErr (validateUrl (parseUrl (beNet (deBack env))) (deLookup env) rawUrl)) (\<lambda>_.
     bindR (mapErr plainErr (snd (validateOutputDir (deFs env) rawDir Undefined))) (\<lambda>dir.
     bindR (verifyDiskSpace env dir) (\<lambda>_.
     if doSignal opts \<and> deAborted env 0 then Inl (dErr TIMEOUT ''aborted before browser launch'') else Inr dir)))"

definition download :: "dlEnv \<Rightarrow> dlOpts \<Rightarrow> jsprim \<Rightarrow> jsprim \<Rightarrow> dlResult dff" where
  "download env opts rawUrl rawDir =
     thenS (throwing (admit env opts rawUrl rawDir)) (\<lambda>dir.
     thenS (doS (\<lambda>s. s\<lparr>dTier := 1, dOut := None, dListening := False, dContext := False\<rparr>)) (\<lambda>_.
     thenS (launchS env opts) (\<lambda>_.
       finallyD (catchD (bodyS env opts (strOf rawUrl) dir) (failS env)) (closeAll opts))))"

section \<open>Facts: what a run logs\<close>

text \<open>
  The interface of a relation every step of the routine keeps after the launch: the log grows by
  anything but a launch, the variables change, the backend writes, streams and unlinks.
\<close>

locale dl_log = log_rel R for R :: "dl \<Rightarrow> dl \<Rightarrow> bool" +
  fixes env :: dlEnv and opts :: dlOpts
  assumes step_log: "e \<noteq> EvLaunch \<Longrightarrow> e \<noteq> EvContext \<Longrightarrow> R s (s\<lparr>dLog := dLog s @ [e]\<rparr>)"
    and step_context: "R s (s\<lparr>dContext := True, dLog := dLog s @ [EvContext]\<rparr>)"
    and step_vars: "R s (s\<lparr>dTier := n\<rparr>)" "R s (s\<lparr>dOut := p\<rparr>)" "R s (s\<lparr>dListening := b\<rparr>)"
    and step_write: "keeps R (backS (writeS (deBack env) q bytes))"
    and step_stream: "keeps R (backS (downloadStream (backOf env opts) auth u q))"
    and step_unlink: "R s (s\<lparr>dBack := unlinkFile (deBack env) q (dBack s)\<rparr>)"
begin

lemma keeps_catchD: "keeps R m \<Longrightarrow> (\<And>e. keeps R (h e)) \<Longrightarrow> keeps R (catchD m h)"
  unfolding keeps_def catchD_def
  by (auto split: prod.splits sum.splits stop.splits) (metis snd_conv trans_log)+

lemma keeps_results: "keeps R (failing r)" "keeps R (throwing q)" "keeps R (detectS env' opts')"
  by (simp_all add: failing_def throwing_def detectS_def keeps_pure)

lemma keeps_logS: "e \<noteq> EvLaunch \<Longrightarrow> e \<noteq> EvContext \<Longrightarrow> keeps R (logS e)"
  by (simp add: logS_def keeps_doS step_log)

lemma keeps_phaseS: "keeps R (phaseS opts' p)"
  by (simp add: phaseS_def keeps_logS keeps_pure)

lemma keeps_abortPoint: "keeps R (abortPoint env' n)"
proof -
  have "R s (s\<lparr>dListening := False, dLog := dLog s @ [EvClose]\<rparr>)" for s
    using trans_log [OF step_vars(3) step_log, of EvClose s False] by simp
  then show ?thesis by (simp add: abortPoint_def abortNow_def keeps_doS refl_log)
qed

lemma keeps_tiersS: "keeps R (tiersS env' opts' u)"
  unfolding tiersS_def
  by (intro keeps_thenS keeps_phaseS keeps_logS keeps_results keeps_abortPoint)
    (auto intro!: keeps_thenS keeps_doS keeps_logS keeps_results keeps_pure step_vars split: option.split)

lemma keeps_saveS: "keeps R (saveS env opts dir m)"
  by (auto simp: saveS_def Let_def intro!: keeps_thenS keeps_doS keeps_logS keeps_phaseS keeps_results keeps_pure
      step_vars step_write step_stream split: media.split)

lemma keeps_bodyS: "keeps R (bodyS env opts u dir)"
  unfolding bodyS_def
  by (intro keeps_thenS keeps_results keeps_logS keeps_doS keeps_abortPoint keeps_tiersS keeps_saveS keeps_pure
      step_context) simp_all

lemma keeps_failS: "keeps R (failS env e)"
  unfolding failS_def
  by (intro keeps_thenS keeps_doS keeps_pure)
    (auto simp: keeps_pure keeps_results refl_log step_unlink split: option.split sum.split thrown.split)

lemma keeps_handled: "keeps R (catchD (bodyS env opts u dir) (failS env))"
  by (intro keeps_catchD keeps_bodyS keeps_failS)

end

lemma backS_snd: "snd (backS m s) = s\<lparr>dBack := snd (m (dBack s))\<rparr>"
  by (simp add: backS_def split: prod.split)

text \<open>The log of the browser, after the launch: it only grows, by anything but a launch.\<close>

definition browserLog :: "dl \<Rightarrow> dl \<Rightarrow> bool" where
  "browserLog s t \<longleftrightarrow> (\<exists>mid. dLog t = dLog s @ mid \<and> EvLaunch \<notin> set mid
     \<and> (dContext t \<longleftrightarrow> dContext s \<or> EvContext \<in> set mid))"

lemma browserLog_same: "dLog t = dLog s \<Longrightarrow> dContext t = dContext s \<Longrightarrow> browserLog s t"
  by (simp add: browserLog_def)

interpretation browser: dl_log browserLog env opts for env opts
proof unfold_locales
  show "browserLog s s" for s by (rule browserLog_same) simp_all
  show "browserLog s u" if "browserLog s t" "browserLog t u" for s t u
    using that unfolding browserLog_def by (metis Un_iff append.assoc set_append)
qed (simp_all add: browserLog_same keeps_def backS_snd, simp_all add: browserLog_def)

text \<open>The network log: only requests the guard accepted.\<close>

definition networkLog :: "backendEnv \<Rightarrow> dl \<Rightarrow> dl \<Rightarrow> bool" where
  "networkLog be s t \<longleftrightarrow> guardedLog be (dBack s) (dBack t)"

lemma networkLog_same: "bNet (dBack t) = bNet (dBack s) \<Longrightarrow> networkLog be s t"
  by (simp add: networkLog_def guardedLog_same)

interpretation network: dl_log "networkLog (backOf env opts)" env opts for env opts
proof unfold_locales
  show "networkLog (backOf env opts) s u"
    if "networkLog (backOf env opts) s t" "networkLog (backOf env opts) t u" for s t u
    using that ssrf.trans_log unfolding networkLog_def by blast
  show "keeps (networkLog (backOf env opts)) (backS (writeS (deBack env) q bytes))" for q bytes
    by (auto simp: keeps_def backS_snd writeS_def intro!: networkLog_same split: sum.split)
  show "keeps (networkLog (backOf env opts)) (backS (downloadStream (backOf env opts) auth u q))" for auth u q
    using ssrf.keeps_downloadStream [of "backOf env opts" auth u q] by (simp add: keeps_def networkLog_def backS_snd)
qed (simp_all add: networkLog_same unlinkFile_def)

section \<open>Facts: the run\<close>

definition freshVars :: "dl \<Rightarrow> dl" where
  "freshVars s = s\<lparr>dTier := 1, dOut := None, dListening := False, dContext := False\<rparr>"

definition afterLaunch :: "dlEnv \<Rightarrow> dlOpts \<Rightarrow> dl \<Rightarrow> dl" where
  "afterLaunch env opts s = snd (launchS env opts (freshVars s))"

lemma admit_ok:
  assumes "admit env opts rawUrl rawDir = Inr dir"
  shows "\<exists>v a b. validateUrl (parseUrl (beNet (deBack env))) (deLookup env) rawUrl = Inr v
      \<and> snd (validateOutputDir (deFs env) rawDir Undefined) = Inr dir \<and> deStat env dir = Some (a, b)
      \<and> \<not> Fin (of_int (a * b)) < parseTimeout (deMinFree env) DEFAULT_MIN_FREE_BYTES
      \<and> \<not> (doSignal opts \<and> deAborted env 0)"
proof -
  from assms obtain v d where d: "validateUrl (parseUrl (beNet (deBack env))) (deLookup env) rawUrl = Inr v"
    "snd (validateOutputDir (deFs env) rawDir Undefined) = Inr d" "verifyDiskSpace env d = Inr ()"
    "\<not> (doSignal opts \<and> deAborted env 0)" "d = dir"
    by (auto simp: admit_def bindR_Inr_iff mapErr_Inr_iff split: if_splits)
  from d(3) obtain a b where "deStat env d = Some (a, b)"
      "\<not> Fin (of_int (a * b)) < parseTimeout (deMinFree env) DEFAULT_MIN_FREE_BYTES"
    by (auto simp: verifyDiskSpace_def Let_def split: option.splits if_splits)
  with d show ?thesis by blast
qed

lemma launchS_run:
  "launchS env opts s = (case deLaunch env of Some e \<Rightarrow> (Inl (Throws e), s)
     | None \<Rightarrow> (Inr (), snd (launchS env opts s)))"
  by (simp add: launchS_def failing_def logS_def eff_run split: option.split)

lemma download_run:
  "download env opts rawUrl rawDir s = (case admit env opts rawUrl rawDir of
     Inl e \<Rightarrow> (Inl (Throws e), s)
   | Inr dir \<Rightarrow> (case deLaunch env of
       Some e \<Rightarrow> (Inl (Throws e), freshVars s)
     | None \<Rightarrow> finallyD (catchD (bodyS env opts (strOf rawUrl) dir) (failS env)) (closeAll opts) (afterLaunch env opts s)))"
proof (cases "admit env opts rawUrl rawDir")
  case (Inr dir)
  have l: "launchS env opts (freshVars s) = (case deLaunch env of Some e \<Rightarrow> (Inl (Throws e), freshVars s)
     | None \<Rightarrow> (Inr (), afterLaunch env opts s))"
    using launchS_run [of env opts "freshVars s"] by (simp add: afterLaunch_def split: option.splits)
  from Inr have "download env opts rawUrl rawDir s = (case launchS env opts (freshVars s) of
      (Inl e, s') \<Rightarrow> (Inl e, s')
    | (Inr y, s') \<Rightarrow> finallyD (catchD (bodyS env opts (strOf rawUrl) dir) (failS env)) (closeAll opts) s')"
    by (simp add: download_def throwing_def eff_run freshVars_def)
  with Inr l show ?thesis by (simp split: option.split)
qed (simp add: download_def throwing_def eff_run)

lemma afterLaunch_simps:
  "deLaunch env = None \<Longrightarrow> dBack (afterLaunch env opts s) = dBack s \<and> dTier (afterLaunch env opts s) = 1
     \<and> dOut (afterLaunch env opts s) = None \<and> \<not> dContext (afterLaunch env opts s)
     \<and> (\<exists>mid. dLog (afterLaunch env opts s) = dLog s @ EvLaunch # mid \<and> EvLaunch \<notin> set mid \<and> EvContext \<notin> set mid)"
  by (simp add: afterLaunch_def launchS_def freshVars_def failing_def logS_def eff_run)

text \<open>How the body and its handler can end.\<close>

lemma handled_cases:
  assumes "catchD m h s = (r, t)"
  shows "(\<exists>x. r = Inr x \<and> m s = (Inr x, t)) \<or> (\<exists>e s'. m s = (Inl (Throws e), s') \<and> h e s' = (r, t)) \<or> r = Inl Hangs \<and> m s = (Inl Hangs, t)"
  using assms by (auto simp: catchD_def split: prod.splits sum.splits stop.splits)

lemma finallyD_run: "finallyD m f s = (r, t) \<Longrightarrow> \<exists>u. m s = (r, u) \<and> t = (if r = Inl Hangs then u else f u)"
  by (auto simp: finallyD_def split: prod.splits sum.splits stop.splits)

section \<open>Facts: the tiers, the file and the handler\<close>

lemma detectS_run: "detectS env opts s = (case snd (detectBlob (tier2Of env opts)) of
    None \<Rightarrow> (Inl Hangs, s) | Some (Inl e) \<Rightarrow> (Inl (Throws e), s) | Some (Inr m) \<Rightarrow> (Inr m, s))"
  by (simp add: detectS_def liftS_def split: option.split sum.split)

lemma phaseS_run: "phaseS opts p s = (Inr (), if doProgress opts then s\<lparr>dLog := dLog s @ [EvPhase p]\<rparr> else s)"
  by (simp add: phaseS_def logS_def eff_run)

lemma abortNow_simps [simp]:
  "dTier (abortNow env n s) = dTier s" "dOut (abortNow env n s) = dOut s" "dBack (abortNow env n s) = dBack s"
  by (simp_all add: abortNow_def)

text \<open>What both tiers produce, and the tier they leave behind.\<close>

lemma tiersS_run:
  assumes "tiersS env opts u s = (r, t)"
  shows "dOut t = dOut s \<and> dBack t = dBack s
    \<and> (case intercept env opts u of
         Inl e \<Rightarrow> r = Inl (Throws e) \<and> dTier t = dTier s
       | Inr (Some m) \<Rightarrow> r = Inr m \<and> dTier t = dTier s
       | Inr None \<Rightarrow> dTier t = 2 \<and> (\<forall>m. r = Inr m \<longrightarrow> snd (detectBlob (tier2Of env opts)) = Some (Inr m)))"
  using assms
  by (auto simp: tiersS_def eff_run phaseS_run logS_def throwing_def abortPoint_def abortNow_simps detectS_run
      split: sum.splits option.splits if_splits)

lemma saveS_run:
  assumes "saveS env opts dir m s = (r, t)"
  shows "dTier t = dTier s
    \<and> (r = Inr () \<longrightarrow> dOut t = Some (joinPath dir (deUuid env @ ''.'' @ safeExt (mediaExt m)))
         \<and> (\<forall>b x. m = BytesMedia b x \<longrightarrow> bFiles (dBack t) (joinPath dir (deUuid env @ ''.'' @ safeExt x)) = Some b))"
  using assms
  by (cases m) (auto simp: saveS_def Let_def eff_run phaseS_run logS_def throwing_def backS_def writeS_def
      safeExt_whitelisted writeFileAt_def mediaExt_def split: sum.splits option.splits if_splits prod.splits)

definition mediaFrom :: "dlEnv \<Rightarrow> dlOpts \<Rightarrow> string \<Rightarrow> media \<Rightarrow> nat \<Rightarrow> bool" where
  "mediaFrom env opts u m tier \<longleftrightarrow> intercept env opts u = Inr (Some m) \<and> tier = 1
     \<or> intercept env opts u = Inr None \<and> tier = 2 \<and> snd (detectBlob (tier2Of env opts)) = Some (Inr m)"

definition bodyStart :: "dlEnv \<Rightarrow> dl \<Rightarrow> dl" where
  "bodyStart env s = abortNow env 2 (s\<lparr>dContext := True, dLog := dLog s @ [EvContext, EvPage]\<rparr>)"

lemma bodyStart_simps [simp]:
  "dTier (bodyStart env s) = dTier s" "dOut (bodyStart env s) = dOut s" "dBack (bodyStart env s) = dBack s"
  by (simp_all add: bodyStart_def)

lemma bodyS_run:
  "deContext env = None \<Longrightarrow> dePage env = None \<Longrightarrow>
   bodyS env opts u dir s = (case tiersS env opts u (bodyStart env s) of
       (Inl e, b) \<Rightarrow> (Inl e, b)
     | (Inr m, b) \<Rightarrow> (case saveS env opts dir m b of
           (Inl e, c) \<Rightarrow> (Inl e, c)
         | (Inr _, c) \<Rightarrow> (Inr (Success (case dOut c of Some p \<Rightarrow> p | None \<Rightarrow> []) (dTier c)), abortNow env 5 c)))"
  by (simp add: bodyS_def eff_run failing_def logS_def abortPoint_def bodyStart_def split: sum.split prod.split)

lemma bodyS_ok:
  assumes "bodyS env opts u dir s = (Inr x, t)" "dTier s = 1"
  shows "\<exists>m p tier. x = Success p tier \<and> mediaFrom env opts u m tier
     \<and> p = joinPath dir (deUuid env @ ''.'' @ safeExt (mediaExt m))
     \<and> (\<forall>b e. m = BytesMedia b e \<longrightarrow> bFiles (dBack t) p = Some b)"
proof -
  have up: "deContext env = None" "dePage env = None"
    using assms(1) by (auto simp: bodyS_def eff_run failing_def logS_def split: option.splits)
  then obtain m b c where t1: "tiersS env opts u (bodyStart env s) = (Inr m, b)"
    and sv: "saveS env opts dir m b = (Inr (), c)" and t: "t = abortNow env 5 c"
    and x: "x = Success (case dOut c of Some p \<Rightarrow> p | None \<Rightarrow> []) (dTier c)"
    using assms(1) by (auto simp: bodyS_run split: prod.splits sum.splits)
  have "mediaFrom env opts u m (dTier b)" using tiersS_run [OF t1] assms(2)
    by (auto simp: mediaFrom_def split: sum.splits option.splits)
  with saveS_run [OF sv] t x show ?thesis
    by (intro exI [of _ m]) (auto simp: mediaExt_def)
qed

lemma bodyS_tier:
  assumes "bodyS env opts u dir s = (r, t)"
  shows "dTier t = dTier s \<or> dTier t = 2 \<and> intercept env opts u = Inr None"
proof (cases "deContext env = None \<and> dePage env = None")
  case True
  obtain q b where q: "tiersS env opts u (bodyStart env s) = (q, b)" by (cases "tiersS env opts u (bodyStart env s)")
  have b: "dTier b = dTier s \<or> dTier b = 2 \<and> intercept env opts u = Inr None"
    using tiersS_run [OF q] by (auto split: sum.splits option.splits)
  show ?thesis
  proof (cases q)
    case (Inr m)
    obtain w c where c: "saveS env opts dir m b = (w, c)" by (cases "saveS env opts dir m b")
    have "dTier t = dTier c" using assms True q Inr c by (auto simp: bodyS_run split: sum.splits)
    with b saveS_run [OF c] show ?thesis by simp
  qed (use assms True q b in \<open>simp add: bodyS_run\<close>)
qed (use assms in \<open>auto simp: bodyS_def eff_run failing_def logS_def split: option.splits\<close>)

lemma failS_run:
  assumes "failS env e s = (r, t)"
  shows "dTier t = dTier s \<and> dOut t = dOut s
    \<and> (\<forall>p. dOut s = Some p \<and> \<not> beRmFails (deBack env) p \<longrightarrow> bFiles (dBack t) p = None)
    \<and> (\<forall>x. r = Inr x \<longrightarrow> (\<exists>c. x = Failed c (dTier s)) \<and> (isDownloaderError e \<longrightarrow> x = Failed (exnCode e) (dTier s)))"
  using assms
  by (auto simp: failS_def eff_run throwing_def unlinkFile_def split: option.splits sum.splits thrown.splits if_splits)

section \<open>Properties\<close>

text \<open>C3: Nothing starts before the checks: unless the URL passed the guard, the output directory was resolved
  under its base, the file system reported the required free space and the signal was not aborted, a
  download throws with its state (files, network, children, browser) untouched.\<close>

theorem download_admission:
  "(\<exists>e. download env opts rawUrl rawDir s = (Inl (Throws e), s)) \<or>
   (\<exists>v dir a b. validateUrl (parseUrl (beNet (deBack env))) (deLookup env) rawUrl = Inr v
      \<and> snd (validateOutputDir (deFs env) rawDir Undefined) = Inr dir
      \<and> deStat env dir = Some (a, b)
      \<and> \<not> Fin (of_int (a * b)) < parseTimeout (deMinFree env) DEFAULT_MIN_FREE_BYTES
      \<and> \<not> (doSignal opts \<and> deAborted env 0))"
proof (cases "admit env opts rawUrl rawDir")
  case (Inl e)
  then show ?thesis by (auto simp: download_run)
next
  case (Inr dir)
  from admit_ok [OF this] show ?thesis by blast
qed

text \<open>C4: The browser never leaks: a download that returns or throws has launched at most one browser, and if it
  launched one, the last thing it did was to close it, after closing the context if one was opened.\<close>

theorem download_closes_browser:
  assumes "download env opts rawUrl rawDir s = (r, t)" "r \<noteq> Inl Hangs"
  shows "dLog t = dLog s \<or> (\<exists>mid. EvLaunch \<notin> set mid \<and>
     dLog t = dLog s @ EvLaunch # mid @ (if EvContext \<in> set mid then [EvContextClose] else []) @ [EvClose])"
proof (cases "\<exists>dir. admit env opts rawUrl rawDir = Inr dir \<and> deLaunch env = None")
  case False
  with assms show ?thesis by (auto simp: download_run freshVars_def split: sum.splits option.splits)
next
  case True
  then obtain dir where d: "admit env opts rawUrl rawDir = Inr dir" "deLaunch env = None" by blast
  let ?s = "afterLaunch env opts s" and ?m = "catchD (bodyS env opts (strOf rawUrl) dir) (failS env)"
  obtain u where u: "?m ?s = (r, u)" "t = closeAll opts u"
    using assms d finallyD_run by (fastforce simp: download_run)
  have "browserLog ?s u" using browser.keeps_handled [of env opts] u(1) by (metis keeps_def snd_conv)
  then obtain m2 where m2: "dLog u = dLog ?s @ m2" "EvLaunch \<notin> set m2" "dContext u \<longleftrightarrow> dContext ?s \<or> EvContext \<in> set m2"
    by (auto simp: browserLog_def)
  from afterLaunch_simps [OF d(2), of opts s] obtain m1 where m1: "dLog ?s = dLog s @ EvLaunch # m1"
    "EvLaunch \<notin> set m1" "EvContext \<notin> set m1" "\<not> dContext ?s" by blast
  let ?mid = "m1 @ m2 @ (if doSignal opts then [EvUnlisten] else [])"
  have "EvLaunch \<notin> set ?mid \<and>
     dLog t = dLog s @ EvLaunch # ?mid @ (if EvContext \<in> set ?mid then [EvContextClose] else []) @ [EvClose]"
    using m1 m2 u(2) by (simp add: closeAll_def)
  then show ?thesis by blast
qed

text \<open>C1: End to end, every HTTP request a download sends through the backend goes, without automatic redirects,
  to a host for which the guard accepted a URL, whatever the browser reported and however it ends.\<close>

theorem download_requests_guarded:
  "\<exists>qs. sent (bNet (dBack (snd (download env opts rawUrl rawDir s)))) = sent (bNet (dBack s)) @ qs
     \<and> list_all (\<lambda>q. rqRedirect q = ''manual''
          \<and> (\<exists>k t v. guardStr (parseUrl (beNet (deBack env))) (lookupAt (beNet (deBack env)) k) t = Inr v
                 \<and> hostname v = urlHost (beNet (deBack env)) (rqUrl q))) qs"
proof -
  have "networkLog (backOf env opts) s (snd (download env opts rawUrl rawDir s))"
  proof (cases "\<exists>dir. admit env opts rawUrl rawDir = Inr dir \<and> deLaunch env = None")
    case False
    then show ?thesis
      by (auto simp: download_run freshVars_def networkLog_def guardedLog_same split: sum.split option.split)
  next
    case True
    then obtain dir where d: "admit env opts rawUrl rawDir = Inr dir" "deLaunch env = None" by blast
    let ?m = "catchD (bodyS env opts (strOf rawUrl) dir) (failS env)" and ?s = "afterLaunch env opts s"
    obtain r u where u: "?m ?s = (r, u)" by (cases "?m ?s")
    have "networkLog (backOf env opts) ?s u" using network.keeps_handled [of env opts] u by (metis keeps_def snd_conv)
    then show ?thesis using d u afterLaunch_simps [OF d(2), of opts s]
      by (auto simp: download_run finallyD_def networkLog_def closeAll_def split: sum.split stop.split)
  qed
  then show ?thesis by (auto simp: networkLog_def guardedLog_def backOf_def safeHost_def list_all_iff)
qed

text \<open>C2: What a download answers. A success names a file directly in the resolved output directory, with a
  whitelisted extension, and the tier is 1 when the interceptor found the media and 2 when it found nothing
  and the blob detector did; captured bytes are in that file. A failure has removed the file it had begun,
  and names tier 2 only when the interceptor had found nothing.\<close>

theorem download_result:
  assumes "download env opts rawUrl rawDir s = (Inr r, t)"
  shows "\<exists>dir. snd (validateOutputDir (deFs env) rawDir Undefined) = Inr dir \<and> (case r of
     Success p tier \<Rightarrow> \<exists>m ext. ext \<in> set VIDEO_EXTS \<and> p = joinPath dir (deUuid env @ ''.'' @ ext)
         \<and> mediaFrom env opts (strOf rawUrl) m tier
         \<and> (\<forall>b x. m = BytesMedia b x \<longrightarrow> bFiles (dBack t) p = Some b)
   | Failed c tier \<Rightarrow> (tier = 1 \<or> tier = 2 \<and> intercept env opts (strOf rawUrl) = Inr None)
         \<and> (\<forall>p. dOut t = Some p \<and> \<not> beRmFails (deBack env) p \<longrightarrow> bFiles (dBack t) p = None))"
proof -
  from assms obtain dir where d: "admit env opts rawUrl rawDir = Inr dir" and l: "deLaunch env = None"
    by (auto simp: download_run split: sum.splits option.splits)
  let ?s = "afterLaunch env opts s" and ?u = "strOf rawUrl"
  obtain c where c: "catchD (bodyS env opts ?u dir) (failS env) ?s = (Inr r, c)" "t = closeAll opts c"
    using assms d l finallyD_run by (fastforce simp: download_run)
  have out: "dBack t = dBack c" "dOut t = dOut c" by (simp_all add: c(2) closeAll_def)
  have tier: "dTier ?s = 1" using afterLaunch_simps [OF l] by blast
  have dir: "snd (validateOutputDir (deFs env) rawDir Undefined) = Inr dir" using admit_ok [OF d] by blast
  from handled_cases [OF c(1)] consider (ok) "bodyS env opts ?u dir ?s = (Inr r, c)"
    | (failed) e b where "bodyS env opts ?u dir ?s = (Inl (Throws e), b)" "failS env e b = (Inr r, c)" by auto
  then show ?thesis
  proof cases
    case ok
    from bodyS_ok [OF this tier] dir out safeExt_whitelisted show ?thesis by fastforce
  next
    case failed
    from failS_run [OF failed(2)] bodyS_tier [OF failed(1)] tier dir out show ?thesis by auto
  qed
qed

text \<open>C5: A terminal condition of the first tier is final: when interception rejects (DRM, a block page, an oversized
  body, an abort), the download answers that very code for tier 1 and the blob detector is never started.\<close>

theorem download_tier1_terminal:
  assumes "admit env opts rawUrl rawDir = Inr dir" "deLaunch env = None" "deContext env = None" "dePage env = None"
    and "intercept env opts (strOf rawUrl) = Inl e" "isDownloaderError e"
  shows "\<exists>t mid. download env opts rawUrl rawDir s = (Inr (Failed (exnCode e) 1), t)
    \<and> dLog t = dLog s @ mid \<and> (\<forall>n. EvDetect n \<notin> set mid) \<and> (\<forall>n. EvStream n \<notin> set mid)"
proof -
  let ?s = "afterLaunch env opts s" and ?u = "strOf rawUrl"
  have s: "dTier ?s = 1" "dOut ?s = None" using afterLaunch_simps [OF assms(2)] by blast+
  obtain b where tiers: "tiersS env opts ?u (bodyStart env ?s) = (Inl (Throws e), b)"
    using assms(5) by (simp add: tiersS_def eff_run phaseS_run logS_def throwing_def)
  let ?b = b
  have b: "dTier b = 1" "dOut b = None" using tiersS_run [OF tiers] s assms(5) by auto
  have "bodyS env opts ?u dir ?s = (Inl (Throws e), b)"
    using tiers assms(3,4) by (simp add: bodyS_run)
  then have "catchD (bodyS env opts ?u dir) (failS env) ?s = (Inr (Failed (exnCode e) 1), ?b)"
    using b assms(6) by (simp add: catchD_def failS_def eff_run)
  then have d: "download env opts rawUrl rawDir s = (Inr (Failed (exnCode e) 1), closeAll opts ?b)"
    using assms(1,2) by (simp add: download_run finallyD_def)
  have "\<exists>mid. dLog ?s = dLog s @ mid \<and> set mid \<subseteq> {EvLaunch, EvClose, EvListen}"
    using assms(2) by (simp add: afterLaunch_def launchS_def freshVars_def failing_def logS_def eff_run)
  moreover have "\<exists>mid. dLog ?b = dLog ?s @ mid \<and> (\<forall>n. EvDetect n \<notin> set mid \<and> EvStream n \<notin> set mid)"
    using assms(5) tiers by (auto simp: tiersS_def eff_run phaseS_run logS_def throwing_def bodyStart_def abortNow_def)
  ultimately obtain m1 m2 where m: "dLog ?s = dLog s @ m1" "set m1 \<subseteq> {EvLaunch, EvClose, EvListen}"
    "dLog ?b = dLog ?s @ m2" "\<forall>n. EvDetect n \<notin> set m2 \<and> EvStream n \<notin> set m2" by blast
  let ?mid = "m1 @ m2 @ (if doSignal opts then [EvUnlisten] else []) @ (if dContext ?b then [EvContextClose] else []) @ [EvClose]"
  have "dLog (closeAll opts ?b) = dLog s @ ?mid" using m by (simp add: closeAll_def)
  moreover have "\<forall>n. EvDetect n \<notin> set ?mid" "\<forall>n. EvStream n \<notin> set ?mid" using m by auto
  ultimately show ?thesis using d by blast
qed

section \<open>A sample run\<close>

definition sampleDl :: "t1Event list \<Rightarrow> dlEnv" where
  "sampleDl evs =
     \<lparr>deBack = sampleEnv [], deLookup = (\<lambda>_. Some (DnsList [])), deFs = sampleFs,
      deStat = (\<lambda>_. Some (1000000, 4096)), deMinFree = Undefined, deTimeoutMs = Undefined, deUuid = ''id'',
      deAborted = (\<lambda>_. False), deLaunch = None, deContext = None, dePage = None, deEvents = Inr evs,
      dePoll = sampleT2, deStack = 100\<rparr>"

definition sampleOpts :: dlOpts where
  "sampleOpts = \<lparr>doTier1 = Undefined, doTier2 = Undefined, doDownload = Undefined, doBodyCap = Some (Fin 100),
     doSignal = True, doProgress = True\<rparr>"

definition sampleDlStart :: dl where
  "sampleDlStart = \<lparr>dBack = sampleStart, dTier = 1, dOut = None, dListening = False, dContext = False, dLog = []\<rparr>"

definition videoEvents :: "t1Event list" where
  "videoEvents =
     [ResponseReceived ''7'' ''https://h/v'' ''video/webm'' 200 False, LoadingFinished ''7'' None,
      BodyReply 0 (Some \<lparr>brText = ''abc'', brBase64 = False\<rparr>)]"

lemma sampleDl_admit: "admit (sampleDl evs) sampleOpts (Str ''https://h/'') (Str ''/output/job'') = Inr ''/output/job''"
proof -
  have u: "\<exists>v. validateUrl (parseUrl (beNet (sampleEnv []))) (\<lambda>_. Some (DnsList [])) (Str ''https://h/'') = Inr v"
    by (simp add: validateUrl_Inr sampleEnv_def publicUrl_def) code_simp
  have o: "snd (validateOutputDir sampleFs (Str ''/output/job'') Undefined) = Inr ''/output/job''"
    by code_simp
  have m: "parseTimeout Undefined DEFAULT_MIN_FREE_BYTES = DEFAULT_MIN_FREE_BYTES"
    by (simp add: parseTimeout_def isInteger_def)
  have "verifyDiskSpace (sampleDl evs) d = Inr ()" for d
    by (simp add: verifyDiskSpace_def sampleDl_def m) (simp add: DEFAULT_MIN_FREE_BYTES_def bytesOf_def less_jsnum_def)
  with u o show ?thesis by (auto simp: admit_def sampleDl_def)
qed

lemma sampleDl_fields [simp]:
  "deLaunch (sampleDl evs) = None" "deContext (sampleDl evs) = None" "dePage (sampleDl evs) = None"
  "deAborted (sampleDl evs) n = False" "deBack (sampleDl evs) = sampleEnv []" "deUuid (sampleDl evs) = ''id''"
  by (simp_all add: sampleDl_def)

lemma sampleDl_video:
  "intercept (sampleDl videoEvents) sampleOpts ''https://h/'' = Inr (Some (BytesMedia [97, 98, 99] (ExtString ''webm'')))"
proof -
  have c: "isCandidate ''https://h/v'' ''video/webm''" "\<not> reTest MANIFEST_RE ''https://h/v''" by code_simp+
  have x: "pickExtension p (Str ''https://h/v'') (Str ''video/webm'') = ExtString ''webm''" for p
  proof -
    have "contentTypeLookup (mediaType ''video/webm'') = Some (ExtString ''webm'')" by code_simp
    then show ?thesis by (simp add: pickExtension_def)
  qed
  show ?thesis
    by (simp add: intercept_def interceptMedia_def interceptEnd_def videoEvents_def sampleDl_def interceptStart_def c x t1_ops
      tier1Of_def sampleOpts_def CANDIDATES_CAP_def bodyBytes_def toBytes_def code_def bytesOf_def dropAt_def om_del_def bodyCapOf_def)
qed

lemma sampleDl_run:
  "\<exists>t. download (sampleDl videoEvents) sampleOpts (Str ''https://h/'') (Str ''/output/job'') sampleDlStart
     = (Inr (Success ''/output/job/id.webm'' 1), t)"
proof -
  have j: "joinPath ''/output/job'' ''id.webm'' = ''/output/job/id.webm''" "safeExt (ExtString ''webm'') = ''webm''"
    "''webm'' \<in> set VIDEO_EXTS" by code_simp+
  let ?s = "afterLaunch (sampleDl videoEvents) sampleOpts sampleDlStart"
  have s: "dTier ?s = 1" using afterLaunch_simps [of "sampleDl videoEvents" sampleOpts sampleDlStart] by simp
  obtain b where b: "tiersS (sampleDl videoEvents) sampleOpts ''https://h/'' (bodyStart (sampleDl videoEvents) ?s)
      = (Inr (BytesMedia [97, 98, 99] (ExtString ''webm'')), b)" "dTier b = 1"
    using s by (simp add: tiersS_def eff_run phaseS_run logS_def throwing_def sampleDl_video abortPoint_def)
  obtain c where "saveS (sampleDl videoEvents) sampleOpts ''/output/job'' (BytesMedia [97, 98, 99] (ExtString ''webm'')) b = (Inr (), c)"
      "dOut c = Some ''/output/job/id.webm''" "dTier c = 1"
    using b(2) by (simp add: saveS_def Let_def eff_run phaseS_run backS_def writeS_def writeFileAt_def mediaExt_def j)
  with b show ?thesis
    by (simp add: download_run sampleDl_admit bodyS_run catchD_def finallyD_def)
qed

theorem download_closes_browser_witness:
  "\<exists>r t. download (sampleDl videoEvents) sampleOpts (Str ''https://h/'') (Str ''/output/job'') sampleDlStart = (r, t)
    \<and> (dLog t = dLog sampleDlStart \<or> (\<exists>mid. EvLaunch \<notin> set mid \<and>
     dLog t = dLog sampleDlStart @ EvLaunch # mid @ (if EvContext \<in> set mid then [EvContextClose] else []) @ [EvClose]))"
  using sampleDl_run download_closes_browser by blast

theorem download_result_witness:
  "\<exists>m ext. ext \<in> set VIDEO_EXTS \<and> ''/output/job/id.webm'' = joinPath ''/output/job'' (''id.'' @ ext)
     \<and> mediaFrom (sampleDl videoEvents) sampleOpts ''https://h/'' m 1"
proof -
  obtain t where t: "download (sampleDl videoEvents) sampleOpts (Str ''https://h/'') (Str ''/output/job'') sampleDlStart
     = (Inr (Success ''/output/job/id.webm'' 1), t)" using sampleDl_run by blast
  have "snd (validateOutputDir (deFs (sampleDl videoEvents)) (Str ''/output/job'') Undefined) = Inr ''/output/job''"
    using admit_ok [OF sampleDl_admit] by blast
  with download_result [OF t] show ?thesis by auto
qed

lemma sampleDl_drm:
  "intercept (sampleDl [DrmTick, DrmReply True]) sampleOpts ''https://h/'' = Inl (dErr DRM_DETECTED [])"
  by (simp add: intercept_def interceptMedia_def interceptEnd_def sampleDl_def interceptStart_def onAbort_def sampleOpts_def)

theorem download_tier1_terminal_witness:
  "\<exists>t mid. download (sampleDl [DrmTick, DrmReply True]) sampleOpts (Str ''https://h/'') (Str ''/output/job'') sampleDlStart
      = (Inr (Failed (Str DRM_DETECTED) 1), t)
    \<and> dLog t = dLog sampleDlStart @ mid \<and> (\<forall>n. EvDetect n \<notin> set mid) \<and> (\<forall>n. EvStream n \<notin> set mid)"
  using download_tier1_terminal [where rawUrl = "Str ''https://h/''", OF sampleDl_admit _ _ _ _ dErr_simps(1)]
  by (simp add: sampleDl_drm)

end
