(* ===== verification/Json.thy ===== *)
theory Json
  imports JsNumber
begin

text \<open>
  JSON values as the scripts and the server build them: the truth and the fields of a value,
  \<open>JSON.stringify\<close> and \<open>String\<close>. The text of a number is a parameter.
\<close>

section \<open>Values\<close>

datatype json = JNull | JBool bool | JNum jsnum | JStr string | JArr "json list" | JObj "(string \<times> json) list"

definition truthyJson :: "json \<Rightarrow> bool" where
  "truthyJson v = (case v of JNull \<Rightarrow> False | JBool b \<Rightarrow> b | JNum n \<Rightarrow> n \<noteq> NaN \<and> n \<noteq> Fin 0
     | JStr s \<Rightarrow> s \<noteq> [] | JArr _ \<Rightarrow> True | JObj _ \<Rightarrow> True)"

text \<open>\<open>v.k\<close> for the names the code asks for; \<open>None\<close> is \<open>undefined\<close>.\<close>

definition jget :: "string \<Rightarrow> json \<Rightarrow> json option" where
  "jget k v = (case v of JObj kvs \<Rightarrow> map_of kvs k | _ \<Rightarrow> None)"

definition truthyField :: "json option \<Rightarrow> bool" where
  "truthyField v \<longleftrightarrow> (case v of None \<Rightarrow> False | Some x \<Rightarrow> truthyJson x)"

text \<open>\<open>JSON.stringify\<close>\<close>

definition escapeChar :: "char \<Rightarrow> string" where
  "escapeChar c = (let n = code c in
     if n = 34 then [char_of (92::nat), c] else if n = 92 then [c, c]
     else if n = 8 then [char_of (92::nat), CHR ''b''] else if n = 12 then [char_of (92::nat), CHR ''f'']
     else if n = 10 then [char_of (92::nat), CHR ''n''] else if n = 13 then [char_of (92::nat), CHR ''r'']
     else if n = 9 then [char_of (92::nat), CHR ''t'']
     else if n < 32 then char_of (92::nat) # CHR ''u'' # padStart 4 (CHR ''0'') (showHex n) else [c])"

definition quoteJson :: "string \<Rightarrow> string" where
  "quoteJson s = CHR 34 # concat (map escapeChar s) @ [CHR 34]"

fun stringify :: "(jsnum \<Rightarrow> string) \<Rightarrow> json \<Rightarrow> string" where
  "stringify showN JNull = ''null''"
| "stringify showN (JBool b) = (if b then ''true'' else ''false'')"
| "stringify showN (JNum n) = (if isFiniteNum n then showN n else ''null'')"
| "stringify showN (JStr s) = quoteJson s"
| "stringify showN (JArr vs) = ''['' @ joinWith '','' (map (stringify showN) vs) @ '']''"
| "stringify showN (JObj kvs) =
     CHR ''{'' # joinWith '','' (map (\<lambda>kv. quoteJson (fst kv) @ '':'' @ stringify showN (snd kv)) kvs) @ ''}''"

text \<open>\<open>String(v)\<close>; in an array \<open>null\<close> is empty.\<close>

fun toText :: "(jsnum \<Rightarrow> string) \<Rightarrow> json \<Rightarrow> string" where
  "toText showN JNull = ''null''"
| "toText showN (JBool b) = (if b then ''true'' else ''false'')"
| "toText showN (JNum n) = showN n"
| "toText showN (JStr s) = s"
| "toText showN (JArr vs) = joinWith '','' (map (\<lambda>v. if v = JNull then [] else toText showN v) vs)"
| "toText showN (JObj kvs) = ''[object Object]''"

section \<open>Facts: the text of a value\<close>

lemma joinWith_avoids: "c \<notin> set d \<Longrightarrow> (\<And>w. w \<in> set ws \<Longrightarrow> c \<notin> set w) \<Longrightarrow> c \<notin> set (joinWith d ws)"
  using joinWith_chars [of d ws] by auto

lemma escapeChar_one_line: "CHR 10 \<notin> set (escapeChar c)"
proof -
  have "\<not> isRadixDigit 16 (CHR 10)" by code_simp
  then have h: "x \<in> set (showHex n) \<Longrightarrow> x \<noteq> CHR 10" for x n
    using showRadix_digits [of 16 x n] by auto
  have "x \<in> set (padStart 4 CHR ''0'' (showHex n)) \<Longrightarrow> x \<noteq> CHR 10" for x n
    using h by (auto simp: padStart_def)
  moreover have "char_of (92::nat) \<noteq> CHR 10" by code_simp
  ultimately show ?thesis by (auto simp: escapeChar_def Let_def code_def)
qed

lemma quoteJson_one_line: "CHR 10 \<notin> set (quoteJson s)"
  using escapeChar_one_line by (auto simp: quoteJson_def)

text \<open>The text of a value never contains a line feed.\<close>

lemma stringify_one_line:
  assumes "\<And>n. CHR 10 \<notin> set (showN n)"
  shows "CHR 10 \<notin> set (stringify showN v)"
proof (induction v)
  case (JArr vs)
  then have "CHR 10 \<notin> set (joinWith '','' (map (stringify showN) vs))" by (intro joinWith_avoids) auto
  then show ?case by simp
next
  case (JObj kvs)
  then have "CHR 10 \<notin> set (joinWith '','' (map (\<lambda>kv. quoteJson (fst kv) @ '':'' @ stringify showN (snd kv)) kvs))"
    using quoteJson_one_line by (intro joinWith_avoids) fastforce+
  then show ?case by simp
qed (use assms quoteJson_one_line in auto)

end
