(* ===== verification/Server.thy ===== *)
theory Server
  imports Downloader Concurrency Metrics Json
begin

text \<open>
  \<open>server.js\<close>: the handler of \<open>POST /download\<close> as a state machine over all requests. A request is
  checked, takes a slot of the limiter, runs, and is finished by whichever comes first of its
  download and its timer; the client may go away at any time. The state holds the limiter, the
  requests and the calls of \<open>recordDownload\<close>.
\<close>

section \<open>Requests and answers\<close>

text \<open>The parsed body: not an object, or the two fields where they are strings.\<close>

datatype reqBody = NotObject | Fields "string option" "string option"

datatype answer =
    InvalidRequest string
  | ConcurrencyLimit
  | Result dlResult
  | FailedWith jsprim
  | ServerFailure jsprim
  | ProgressLine json

datatype wireItem = JsonResponse nat answer | Line answer | EndOfStream

datatype phase = Checking | Running nat | Finished

record req =
  hrPhase :: phase
  hrUrl :: string
  hrDir :: string
  hrNdjson :: bool
  hrStreamOpen :: bool
  hrTypeSet :: bool
  hrCancelled :: bool
  hrTimer :: "jsnum option"
  hrEnded :: bool
  hrGone :: bool
  hrOut :: "wireItem list"
  hrStart :: rat

text \<open>One call \<open>recordDownload(status, tier, error, startMs)\<close>, with the request it was made for.\<close>

record recordCall =
  rcReq :: nat
  rcStatus :: string
  rcTier :: "nat option"
  rcError :: jsprim
  rcStart :: rat

record server =
  svSem :: semaphore
  svReqs :: "nat \<rightharpoonup> req"
  svRecords :: "recordCall list"

record svEnv =
  seParse :: urlParser
  seMaxConcurrency :: jsprim
  seRequestTimeout :: jsprim
  seStack :: nat

text \<open>
  What happens to the server: a request arrives, its two checks end (with the answers of the
  resolver and of the file system at that time), its download reports progress or settles, its
  timer fires, its client closes the connection or the response fails.
\<close>

datatype svEvent =
    Post nat reqBody string rat
  | Checked nat resolver fsEnv
  | Progress nat json
  | Settled nat "exn + dlResult"
  | TimeoutFires nat
  | ClientCloses nat
  | ResponseError nat

definition DEFAULT_REQUEST_TIMEOUT_MS :: jsnum where "DEFAULT_REQUEST_TIMEOUT_MS = Fin 300000"

definition svInit :: "svEnv \<Rightarrow> server option" where
  "svInit env = map_option (\<lambda>sem. \<lparr>svSem = sem, svReqs = (\<lambda>_. None), svRecords = []\<rparr>)
     (createSemaphore (Num (parseTimeout (seMaxConcurrency env) (Fin 2))))"

section \<open>Pieces of the handler\<close>

definition putReq :: "nat \<Rightarrow> req \<Rightarrow> server \<Rightarrow> server" where
  "putReq i r s = s\<lparr>svReqs := (svReqs s)(i \<mapsto> r)\<rparr>"

definition recordFor :: "nat \<Rightarrow> string \<Rightarrow> nat option \<Rightarrow> jsprim \<Rightarrow> req \<Rightarrow> server \<Rightarrow> server" where
  "recordFor i st tier err r s = s\<lparr>svRecords := svRecords s @
     [\<lparr>rcReq = i, rcStatus = st, rcTier = tier, rcError = err, rcStart = hrStart r\<rparr>]\<rparr>"

definition canRespond :: "req \<Rightarrow> bool" where
  "canRespond r \<longleftrightarrow> \<not> (hrGone r \<or> hrEnded r)"

text \<open>\<open>res.status(n).json(a)\<close> ends the response; so does \<open>res.end()\<close>.\<close>

definition jsonReply :: "nat \<Rightarrow> answer \<Rightarrow> req \<Rightarrow> req" where
  "jsonReply n a r = r\<lparr>hrOut := hrOut r @ [JsonResponse n a], hrEnded := True\<rparr>"

definition writeEvent :: "answer \<Rightarrow> req \<Rightarrow> req" where
  "writeEvent a r = (if hrStreamOpen r \<and> canRespond r then r\<lparr>hrOut := hrOut r @ [Line a]\<rparr> else r)"

definition endStream :: "req \<Rightarrow> req" where
  "endStream r = r\<lparr>hrStreamOpen := False, hrOut := hrOut r @ [EndOfStream], hrEnded := True\<rparr>"

definition finished :: "req \<Rightarrow> req" where
  "finished r = r\<lparr>hrPhase := Finished\<rparr>"

text \<open>An early return: recorded, answered, and no slot was taken.\<close>

definition refuse :: "nat \<Rightarrow> nat \<Rightarrow> string \<Rightarrow> answer \<Rightarrow> req \<Rightarrow> server \<Rightarrow> server" where
  "refuse i n err a r s =
     putReq i (finished (jsonReply n a r)) (recordFor i ''failed'' None (Str err) r s)"

definition newReq :: "string \<Rightarrow> string \<Rightarrow> string \<Rightarrow> rat \<Rightarrow> req" where
  "newReq url dir accept start =
     \<lparr>hrPhase = Checking, hrUrl = url, hrDir = dir, hrNdjson = strIncludes accept ''application/x-ndjson'',
      hrStreamOpen = False, hrTypeSet = False, hrCancelled = False, hrTimer = None, hrEnded = False, hrGone = False,
      hrOut = [], hrStart = start\<rparr>"

definition onPost :: "nat \<Rightarrow> reqBody \<Rightarrow> string \<Rightarrow> rat \<Rightarrow> server \<Rightarrow> server" where
  "onPost i body accept start s =
     (if svReqs s i \<noteq> None then s
      else (case body of
          NotObject \<Rightarrow> refuse i 400 ''invalid_request'' (InvalidRequest ''request body must be JSON object'') (newReq [] [] accept start) s
        | Fields (Some url) (Some dir) \<Rightarrow> putReq i (newReq url dir accept start) s
        | Fields _ _ \<Rightarrow> refuse i 400 ''invalid_request''
            (InvalidRequest ''url and output_dir are required strings'') (newReq [] [] accept start) s))"

text \<open>The two checks of the handler, on what the resolver and the file system answered.\<close>

definition checkInputs :: "svEnv \<Rightarrow> resolver \<Rightarrow> fsEnv \<Rightarrow> req \<Rightarrow> string + unit" where
  "checkInputs env lookup fs r =
     bindR (validateUrl (seParse env) lookup (Str (hrUrl r))) (\<lambda>_.
     bindR (snd (validateOutputDir fs (Str (hrDir r)) Undefined)) (\<lambda>_. Inr ()))"

text \<open>From the content type to the start of the download; the timer is armed with the request timeout.\<close>

definition startRequest :: "svEnv \<Rightarrow> nat \<Rightarrow> req \<Rightarrow> server \<Rightarrow> server" where
  "startRequest env i r s =
     (let r1 = r\<lparr>hrTypeSet := hrNdjson r, hrStreamOpen := hrNdjson r\<rparr> in
      case acquire (svSem s) of
        Inl _ \<Rightarrow> refuse i 503 ''concurrency_limit'' ConcurrencyLimit r1 s
      | Inr (t, sem) \<Rightarrow> putReq i (r1\<lparr>hrPhase := Running t,
            hrTimer := Some (parseTimeout (seRequestTimeout env) DEFAULT_REQUEST_TIMEOUT_MS)\<rparr>) (s\<lparr>svSem := sem\<rparr>))"

definition onChecked :: "svEnv \<Rightarrow> nat \<Rightarrow> resolver \<Rightarrow> fsEnv \<Rightarrow> server \<Rightarrow> server" where
  "onChecked env i lookup fs s = (case svReqs s i of
     None \<Rightarrow> s
   | Some r \<Rightarrow>
       if hrPhase r \<noteq> Checking then s
       else (case checkInputs env lookup fs r of
           Inl msg \<Rightarrow> refuse i 400 ''invalid_request'' (InvalidRequest msg) r s
         | Inr _ \<Rightarrow> startRequest env i r s))"

text \<open>The answer to a settled race; \<open>final\<close> is the body and \<open>n\<close> the status of the plain form.\<close>

definition respond :: "nat \<Rightarrow> answer \<Rightarrow> req \<Rightarrow> req" where
  "respond n final r =
     (if \<not> canRespond r then r
      else if hrNdjson r then endStream (writeEvent final r)
      else jsonReply n final r)"

text \<open>The \<open>finally\<close> block: the timer is cleared, the download cancelled, the slot released.\<close>

definition windUp :: "nat \<Rightarrow> nat \<Rightarrow> req \<Rightarrow> server \<Rightarrow> server" where
  "windUp i t r s = putReq i (finished (r\<lparr>hrTimer := None, hrCancelled := True\<rparr>)) (s\<lparr>svSem := release t (svSem s)\<rparr>)"

definition safeClassifyExn :: "nat \<Rightarrow> exn \<Rightarrow> jsprim" where
  "safeClassifyExn fuel e = safeClassify fuel (xHeap e @ [xObj e]) (TRef (length (xHeap e)))"

definition settleRace :: "svEnv \<Rightarrow> nat \<Rightarrow> nat \<Rightarrow> exn + dlResult \<Rightarrow> req \<Rightarrow> server \<Rightarrow> server" where
  "settleRace env i t outcome r s = (case outcome of
     Inr (Success p tier) \<Rightarrow>
       windUp i t (respond 200 (Result (Success p tier)) r) (recordFor i ''success'' (Some tier) Null r s)
   | Inr (Failed c tier) \<Rightarrow>
       windUp i t (respond 502 (Result (Failed c tier)) r) (recordFor i ''failed'' (Some tier) (coalesce c Null) r s)
   | Inl e \<Rightarrow>
       (let c = safeClassifyExn (seStack env) e in
        windUp i t (respond 502 (FailedWith c) r) (recordFor i ''failed'' None c r s)))"

definition onSettled :: "svEnv \<Rightarrow> nat \<Rightarrow> exn + dlResult \<Rightarrow> server \<Rightarrow> server" where
  "onSettled env i outcome s = (case svReqs s i of
     None \<Rightarrow> s
   | Some r \<Rightarrow> (case hrPhase r of Running t \<Rightarrow> settleRace env i t outcome r s | _ \<Rightarrow> s))"

text \<open>The timer aborts the download and rejects the race.\<close>

definition onTimeout :: "svEnv \<Rightarrow> nat \<Rightarrow> server \<Rightarrow> server" where
  "onTimeout env i s = (case svReqs s i of
     None \<Rightarrow> s
   | Some r \<Rightarrow> (case hrPhase r of
        Running t \<Rightarrow>
          if hrTimer r = None then s
          else settleRace env i t (Inl (dErr TIMEOUT ''request timeout exceeded'')) (r\<lparr>hrCancelled := True\<rparr>) s
      | _ \<Rightarrow> s))"

text \<open>The \<open>close\<close> and \<open>error\<close> listeners exist once the slot is taken.\<close>

definition onClose :: "nat \<Rightarrow> server \<Rightarrow> server" where
  "onClose i s = (case svReqs s i of
     None \<Rightarrow> s
   | Some r \<Rightarrow>
       let listening = (case hrPhase r of Running _ \<Rightarrow> True | _ \<Rightarrow> False) in
       putReq i (r\<lparr>hrGone := True, hrCancelled := hrCancelled r \<or> listening \<and> \<not> hrEnded r\<rparr>) s)"

definition onResponseError :: "nat \<Rightarrow> server \<Rightarrow> server" where
  "onResponseError i s = (case svReqs s i of
     None \<Rightarrow> s
   | Some r \<Rightarrow> (case hrPhase r of Running _ \<Rightarrow> putReq i (r\<lparr>hrCancelled := True\<rparr>) s | _ \<Rightarrow> s))"

text \<open>Only a streaming request passes \<open>writeEvent\<close> to the download; it may report after the end.\<close>

definition onProgress :: "nat \<Rightarrow> json \<Rightarrow> server \<Rightarrow> server" where
  "onProgress i ev s = (case svReqs s i of
     None \<Rightarrow> s
   | Some r \<Rightarrow> if hrNdjson r \<and> hrPhase r \<noteq> Checking then putReq i (writeEvent (ProgressLine ev) r) s else s)"

fun svStep :: "svEnv \<Rightarrow> svEvent \<Rightarrow> server \<Rightarrow> server" where
  "svStep env (Post i body accept start) s = onPost i body accept start s"
| "svStep env (Checked i lookup fs) s = onChecked env i lookup fs s"
| "svStep env (Progress i ev) s = onProgress i ev s"
| "svStep env (Settled i outcome) s = onSettled env i outcome s"
| "svStep env (TimeoutFires i) s = onTimeout env i s"
| "svStep env (ClientCloses i) s = onClose i s"
| "svStep env (ResponseError i) s = onResponseError i s"

inductive svReach :: "svEnv \<Rightarrow> server \<Rightarrow> bool" for env where
  init: "svInit env = Some s \<Longrightarrow> svReach env s"
| step: "svReach env s \<Longrightarrow> svReach env (svStep env e s)"

section \<open>Error middleware and metrics\<close>

text \<open>An error of the body parser; what it does not handle goes on to the final handler.\<close>

record httpError =
  heType :: string
  heStatus :: nat
  heExn :: exn

definition onBodyError :: "httpError \<Rightarrow> (nat \<times> answer) option" where
  "onBodyError e =
     (if heType e = ''entity.parse.failed'' \<or> heType e = ''entity.too.large'' \<or> heStatus e = 400 \<or> heStatus e = 413
      then Some (400, InvalidRequest (exnMessage (heExn e))) else None)"

definition onFinalError :: "nat \<Rightarrow> httpError \<Rightarrow> nat \<times> answer" where
  "onFinalError fuel e = (502, ServerFailure (safeClassifyExn fuel (heExn e)))"

definition onServerError :: "nat \<Rightarrow> httpError \<Rightarrow> nat \<times> answer" where
  "onServerError fuel e = (case onBodyError e of Some a \<Rightarrow> a | None \<Rightarrow> onFinalError fuel e)"

text \<open>What the calls did to the metrics, with the clock at the end of each.\<close>

definition errorText :: "jsprim \<Rightarrow> string option" where
  "errorText p = (case p of Str c \<Rightarrow> Some c | _ \<Rightarrow> None)"

definition metricsOf ::
  "('m \<Rightarrow> metricLabels \<Rightarrow> 'm option) \<Rightarrow> ('m \<Rightarrow> string \<Rightarrow> rat \<Rightarrow> 'm option) \<Rightarrow> (recordCall \<times> rat) list \<Rightarrow> 'm \<Rightarrow> 'm" where
  "metricsOf inc obs calls m = foldl (\<lambda>m (c, now).
     recordDownload inc obs (rcStatus c) (rcTier c) (errorText (rcError c)) (rcStart c) now m) m calls"

section \<open>Facts: one request\<close>

definition progressOnly :: "wireItem list \<Rightarrow> bool" where
  "progressOnly xs \<longleftrightarrow> (\<forall>x\<in>set xs. \<exists>p. x = Line (ProgressLine p))"

definition finalAnswer :: "answer \<Rightarrow> bool" where
  "finalAnswer a \<longleftrightarrow> (\<forall>p. a \<noteq> ProgressLine p)"

text \<open>A complete response: one JSON body, or progress lines, one final line and the end.\<close>

definition completeOut :: "wireItem list \<Rightarrow> bool" where
  "completeOut xs \<longleftrightarrow> (\<exists>n a. xs = [JsonResponse n a] \<and> finalAnswer a)
     \<or> (\<exists>ps a. xs = ps @ [Line a, EndOfStream] \<and> progressOnly ps \<and> finalAnswer a)"

definition reqInv :: "req \<Rightarrow> bool" where
  "reqInv r \<longleftrightarrow> (case hrPhase r of
     Checking \<Rightarrow> hrOut r = [] \<and> \<not> hrEnded r \<and> hrTimer r = None \<and> \<not> hrStreamOpen r \<and> \<not> hrCancelled r
   | Running t \<Rightarrow> progressOnly (hrOut r) \<and> (hrNdjson r \<or> hrOut r = []) \<and> \<not> hrEnded r \<and> hrTimer r \<noteq> None
       \<and> hrStreamOpen r = hrNdjson r
   | Finished \<Rightarrow> hrTimer r = None \<and> (if hrEnded r then completeOut (hrOut r) else hrGone r \<and> progressOnly (hrOut r)))"

lemma reqInv_cancel: "hrPhase r \<noteq> Checking \<or> hrCancelled r = b \<Longrightarrow> reqInv (r\<lparr>hrCancelled := b\<rparr>) = reqInv r"
  by (cases "hrPhase r") (auto simp: reqInv_def)

lemma reqInv_gone: "reqInv r \<Longrightarrow> reqInv (r\<lparr>hrGone := True\<rparr>)"
  by (cases "hrPhase r") (simp_all add: reqInv_def)

lemma finalAnswer_simps [simp]:
  "finalAnswer (InvalidRequest m)" "finalAnswer ConcurrencyLimit" "finalAnswer (Result d)" "finalAnswer (FailedWith c)"
  "finalAnswer (ServerFailure c)"
  by (simp_all add: finalAnswer_def)

lemma progressOnly_simps [simp]: "progressOnly []" "progressOnly (xs @ [Line (ProgressLine p)]) = progressOnly xs"
  by (auto simp: progressOnly_def)

lemma completeOut_json [simp]: "finalAnswer a \<Longrightarrow> completeOut [JsonResponse n a]"
  by (simp add: completeOut_def)

lemma completeOut_stream: "progressOnly ps \<Longrightarrow> finalAnswer a \<Longrightarrow> completeOut (ps @ [Line a, EndOfStream])"
  unfolding completeOut_def by blast

lemma respond_inv:
  assumes "reqInv r" "hrPhase r = Running t" "finalAnswer a"
  shows "reqInv (finished ((respond n a r)\<lparr>hrTimer := None, hrCancelled := True\<rparr>))"
  using assms completeOut_stream [of "hrOut r" a]
  by (auto simp: reqInv_def respond_def canRespond_def jsonReply_def writeEvent_def endStream_def finished_def)

lemma writeEvent_inv: "reqInv r \<Longrightarrow> hrNdjson r \<Longrightarrow> hrPhase r \<noteq> Checking \<Longrightarrow> reqInv (writeEvent (ProgressLine p) r)"
  by (cases "hrPhase r") (auto simp: reqInv_def writeEvent_def canRespond_def)

lemma writeEvent_phase [simp]: "hrPhase (writeEvent a r) = hrPhase r"
  by (simp add: writeEvent_def)

lemma respond_phase [simp]: "hrPhase (respond n a r) = hrPhase r"
  by (simp add: respond_def jsonReply_def endStream_def)

section \<open>Facts: one step of the server\<close>

text \<open>
  The moves a step can make: nothing, an arrival, a refusal, a start (which takes a slot), a finish
  (which gives it back), or a change of one request that keeps its phase.
\<close>

inductive svMove :: "server \<Rightarrow> server \<Rightarrow> bool" for s where
  stay: "svMove s s"
| arrive: "svReqs s i = None \<Longrightarrow> hrPhase r = Checking \<Longrightarrow> reqInv r \<Longrightarrow> svMove s (putReq i r s)"
| refused: "(\<And>q. svReqs s i = Some q \<Longrightarrow> hrPhase q = Checking) \<Longrightarrow> hrPhase r = Finished \<Longrightarrow> reqInv r \<Longrightarrow> rcReq c = i \<Longrightarrow>
    svMove s (putReq i r (s\<lparr>svRecords := svRecords s @ [c]\<rparr>))"
| begun: "svReqs s i = Some q \<Longrightarrow> hrPhase q = Checking \<Longrightarrow> acquire (svSem s) = Inr (t, sm) \<Longrightarrow>
    hrPhase r = Running t \<Longrightarrow> reqInv r \<Longrightarrow> svMove s (putReq i r (s\<lparr>svSem := sm\<rparr>))"
| ended: "svReqs s i = Some q \<Longrightarrow> hrPhase q = Running t \<Longrightarrow> hrPhase r = Finished \<Longrightarrow> reqInv r \<Longrightarrow> hrCancelled r \<Longrightarrow>
    rcReq c = i \<Longrightarrow> svMove s (putReq i r (s\<lparr>svRecords := svRecords s @ [c], svSem := release t (svSem s)\<rparr>))"
| touch: "svReqs s i = Some q \<Longrightarrow> hrPhase r = hrPhase q \<Longrightarrow> reqInv r \<Longrightarrow> svMove s (putReq i r s)"

inductive_cases svMoveE: "svMove s t"

definition reqsOk :: "server \<Rightarrow> bool" where
  "reqsOk s \<longleftrightarrow> (\<forall>i r. svReqs s i = Some r \<longrightarrow> reqInv r)"

lemma newReq_inv [simp]: "reqInv (newReq u d a st)" "hrPhase (newReq u d a st) = Checking"
  by (simp_all add: newReq_def reqInv_def)

lemma refuse_move:
  assumes "\<And>q. svReqs s i = Some q \<Longrightarrow> hrPhase q = Checking" "hrOut r = []" "hrTimer r = None" "finalAnswer a"
  shows "svMove s (refuse i n err a r s)"
proof -
  have "reqInv (finished (jsonReply n a r))"
    using assms(2-4) by (simp add: reqInv_def finished_def jsonReply_def)
  then show ?thesis unfolding refuse_def recordFor_def
    by (intro svMove.refused assms(1)) (simp_all add: finished_def)
qed

lemma onPost_move: "svMove s (onPost i body accept start s)"
proof (cases "svReqs s i = None")
  case True
  then show ?thesis
    by (auto simp: onPost_def intro!: refuse_move svMove.arrive split: reqBody.split option.split)
      (simp_all add: newReq_def)
qed (simp add: onPost_def svMove.stay)

lemma startRequest_move:
  assumes "svReqs s i = Some r" "hrPhase r = Checking" "reqInv r"
  shows "svMove s (startRequest env i r s)"
proof (cases "acquire (svSem s)")
  case (Inl e)
  then show ?thesis using assms
    by (auto simp: startRequest_def Let_def reqInv_def intro!: refuse_move)
next
  case (Inr ts)
  obtain t sm where "ts = (t, sm)" by (cases ts)
  with Inr assms show ?thesis
    by (auto simp: startRequest_def Let_def reqInv_def intro!: svMove.begun)
qed

lemma onChecked_move:
  assumes "reqsOk s"
  shows "svMove s (onChecked env i lookup fs s)"
proof (cases "svReqs s i")
  case (Some r)
  then have inv: "reqInv r" using assms by (auto simp: reqsOk_def)
  show ?thesis
  proof (cases "hrPhase r = Checking")
    case True
    have "svMove s (refuse i 400 e (InvalidRequest m) r s)" for e m
      using inv True Some by (intro refuse_move) (auto simp: reqInv_def)
    then show ?thesis using Some True inv startRequest_move by (simp add: onChecked_def split: sum.split)
  qed (simp add: onChecked_def Some svMove.stay)
qed (simp add: onChecked_def svMove.stay)

lemma settleRace_move:
  assumes "svReqs s i = Some q" "hrPhase q = Running t" "reqInv r" "hrPhase r = Running t"
  shows "svMove s (settleRace env i t outcome r s)"
proof -
  have "svMove s (windUp i t (respond n a r) (recordFor i st tier err r s))" if "finalAnswer a" for n a st tier err
  proof -
    have "svMove s (putReq i (finished ((respond n a r)\<lparr>hrTimer := None, hrCancelled := True\<rparr>))
        (s\<lparr>svRecords := svRecords s @ [\<lparr>rcReq = i, rcStatus = st, rcTier = tier, rcError = err, rcStart = hrStart r\<rparr>],
            svSem := release t (svSem s)\<rparr>))"
      by (rule svMove.ended [OF assms(1,2) _ respond_inv [OF assms(3,4) that]]) (simp_all add: finished_def)
    then show ?thesis by (simp add: windUp_def recordFor_def)
  qed
  then show ?thesis by (simp add: settleRace_def Let_def split: sum.split dlResult.split)
qed

lemma svStep_move:
  assumes "reqsOk s"
  shows "svMove s (svStep env e s)"
proof -
  have inv: "reqInv r" if "svReqs s i = Some r" for i r using assms that by (auto simp: reqsOk_def)
  show ?thesis
  proof (cases e)
    case (Settled i outcome)
    then show ?thesis using inv
      by (auto simp: onSettled_def svMove.stay intro: settleRace_move split: option.split phase.split)
  next
    case (TimeoutFires i)
    then show ?thesis using TimeoutFires inv
      by (auto simp: onTimeout_def svMove.stay reqInv_cancel intro!: settleRace_move split: option.split phase.split)
  next
    case (ClientCloses i)
    have "reqInv (r\<lparr>hrGone := True, hrCancelled := hrCancelled r \<or> (case hrPhase r of Running t \<Rightarrow> True | _ \<Rightarrow> False) \<and> \<not> hrEnded r\<rparr>)"
      if "reqInv r" for r
      using reqInv_gone [OF that] by (subst reqInv_cancel) (auto split: phase.splits)
    then show ?thesis using ClientCloses inv
      by (auto simp: onClose_def Let_def svMove.stay intro!: svMove.touch split: option.split)
  next
    case (ResponseError i)
    then show ?thesis using ResponseError inv
      by (auto simp: onResponseError_def svMove.stay reqInv_cancel intro!: svMove.touch split: option.split phase.split)
  next
    case (Progress i ev)
    then show ?thesis using inv writeEvent_inv
      by (auto simp: onProgress_def svMove.stay intro!: svMove.touch split: option.split)
  qed (use assms onPost_move onChecked_move in simp_all)
qed

section \<open>Facts: reachable servers\<close>

definition runningReqs :: "server \<Rightarrow> nat set" where
  "runningReqs s = {i. \<exists>r t. svReqs s i = Some r \<and> hrPhase r = Running t}"

definition ticketOf :: "server \<Rightarrow> nat \<Rightarrow> nat option" where
  "ticketOf s i = (case svReqs s i of Some r \<Rightarrow> (case hrPhase r of Running t \<Rightarrow> Some t | _ \<Rightarrow> None) | None \<Rightarrow> None)"

definition recordCount :: "server \<Rightarrow> nat \<Rightarrow> nat" where
  "recordCount s i = length (filter (\<lambda>c. rcReq c = i) (svRecords s))"

definition isFinished :: "server \<Rightarrow> nat \<Rightarrow> bool" where
  "isFinished s i \<longleftrightarrow> (case svReqs s i of Some r \<Rightarrow> hrPhase r = Finished | None \<Rightarrow> False)"

text \<open>Slots: the held tickets are those of the running requests, and no two requests share one.\<close>

definition slotsOk :: "server \<Rightarrow> bool" where
  "slotsOk s \<longleftrightarrow> semInv (svSem s) \<and> heldTickets (svSem s) = {t. \<exists>i. ticketOf s i = Some t}
     \<and> (\<forall>i j t. ticketOf s i = Some t \<longrightarrow> ticketOf s j = Some t \<longrightarrow> i = j)"

definition recordsOk :: "server \<Rightarrow> bool" where
  "recordsOk s \<longleftrightarrow> (\<forall>i. recordCount s i = (if isFinished s i then 1 else 0))"

lemma runningReqs_ticket: "runningReqs s = {i. ticketOf s i \<noteq> None}"
proof -
  have "(\<exists>r t. svReqs s i = Some r \<and> hrPhase r = Running t) = (ticketOf s i \<noteq> None)" for i
    by (cases "svReqs s i") (auto simp: ticketOf_def split: phase.split)
  then show ?thesis by (simp add: runningReqs_def)
qed

lemma ticketOf_put [simp]:
  "ticketOf (putReq i r s) j = (if j = i then (case hrPhase r of Running t \<Rightarrow> Some t | _ \<Rightarrow> None) else ticketOf s j)"
  by (simp add: ticketOf_def putReq_def)

lemma ticketOf_frame [simp]: "ticketOf (s\<lparr>svSem := sm\<rparr>) = ticketOf s" "ticketOf (s\<lparr>svRecords := rc\<rparr>) = ticketOf s"
  by (simp_all add: ticketOf_def fun_eq_iff)

lemma putReq_fields [simp]:
  "svSem (putReq i r s) = svSem s" "svRecords (putReq i r s) = svRecords s"
  "svReqs (putReq i r s) = (svReqs s)(i \<mapsto> r)"
  by (simp_all add: putReq_def)

lemma isFinished_put [simp]: "isFinished (putReq i r s) j = (if j = i then hrPhase r = Finished else isFinished s j)"
  by (simp add: isFinished_def)

lemma isFinished_frame [simp]: "isFinished (s\<lparr>svSem := sm\<rparr>) = isFinished s" "isFinished (s\<lparr>svRecords := rc\<rparr>) = isFinished s"
  by (simp_all add: isFinished_def fun_eq_iff)

lemma ticketOf_Some: "svReqs s i = Some q \<Longrightarrow> ticketOf s i = (case hrPhase q of Running t \<Rightarrow> Some t | _ \<Rightarrow> None)"
  by (simp add: ticketOf_def)

lemma svMove_reqs: "svMove s t \<Longrightarrow> reqsOk s \<Longrightarrow> reqsOk t"
  by (induction rule: svMove.induct) (auto simp: reqsOk_def)

lemma svMove_records: "svMove s t \<Longrightarrow> recordsOk s \<Longrightarrow> recordsOk t"
proof (induction rule: svMove.induct)
  case (refused i r c)
  then have "\<not> isFinished s i" by (auto simp: isFinished_def split: option.splits)
  with refused show ?case by (auto simp: recordsOk_def recordCount_def)
next
  case (ended i q tk r c)
  then have "\<not> isFinished s i" by (auto simp: isFinished_def)
  with ended show ?case by (auto simp: recordsOk_def recordCount_def)
next
  case (touch i q r)
  then have "isFinished s i = (hrPhase r = Finished)" by (simp add: isFinished_def)
  with touch show ?case by (auto simp: recordsOk_def recordCount_def)
qed (auto simp: recordsOk_def recordCount_def isFinished_def split: option.splits)

text \<open>A start and an end of a run; every other move leaves the slots alone.\<close>

lemma slotsOk_begun:
  assumes ok: "slotsOk s" and a: "acquire (svSem s) = Inr (t, sm)" and free: "ticketOf s i = None"
    and sem: "svSem u = sm" and tk: "\<And>j. ticketOf u j = (if j = i then Some t else ticketOf s j)"
  shows "slotsOk u"
proof -
  have acq: "t \<notin> heldTickets (svSem s)" "heldTickets sm = insert t (heldTickets (svSem s))" "semInv sm"
    using sem.acq_ok [OF _ a] ok by (auto simp: slotsOk_def)
  have "heldTickets (svSem s) = {x. \<exists>j. ticketOf s j = Some x}" using ok by (simp add: slotsOk_def)
  then have "insert t (heldTickets (svSem s)) = {x. \<exists>j. ticketOf u j = Some x}" using free by (force simp: tk)
  moreover have "\<forall>j k x. ticketOf u j = Some x \<longrightarrow> ticketOf u k = Some x \<longrightarrow> j = k"
    using ok acq(1) by (auto simp: tk slotsOk_def)
  ultimately show ?thesis using acq sem by (simp add: slotsOk_def)
qed

lemma slotsOk_ended:
  assumes ok: "slotsOk s" and run: "ticketOf s i = Some t"
    and sem: "svSem u = release t (svSem s)" and tk: "\<And>j. ticketOf u j = (if j = i then None else ticketOf s j)"
  shows "slotsOk u"
proof -
  have rel: "heldTickets (svSem u) = heldTickets (svSem s) - {t}" "semInv (svSem u)"
    using sem.rel_ok [of "svSem s" t] ok sem by (auto simp: slotsOk_def)
  have inj: "j = k" if "ticketOf s j = Some x" "ticketOf s k = Some x" for j k x
    using ok that by (auto simp: slotsOk_def)
  have "(\<exists>j. ticketOf u j = Some x) = (x \<noteq> t \<and> (\<exists>j. ticketOf s j = Some x))" for x
  proof
    assume "\<exists>j. ticketOf u j = Some x"
    then obtain j where "j \<noteq> i" "ticketOf s j = Some x" by (auto simp: tk split: if_splits)
    with run inj [of j t i] show "x \<noteq> t \<and> (\<exists>j. ticketOf s j = Some x)" by auto
  next
    assume "x \<noteq> t \<and> (\<exists>j. ticketOf s j = Some x)"
    then obtain j where j: "x \<noteq> t" "ticketOf s j = Some x" by blast
    then have "ticketOf u j = Some x" using run by (auto simp: tk)
    then show "\<exists>j. ticketOf u j = Some x" by blast
  qed
  then have "heldTickets (svSem s) - {t} = {x. \<exists>j. ticketOf u j = Some x}"
    using ok by (auto simp: slotsOk_def)
  moreover have "\<forall>j k x. ticketOf u j = Some x \<longrightarrow> ticketOf u k = Some x \<longrightarrow> j = k"
    using inj by (auto simp: tk)
  ultimately show ?thesis using rel by (simp add: slotsOk_def)
qed

lemma svMove_slots: "svMove s t \<Longrightarrow> slotsOk s \<Longrightarrow> slotsOk t"
proof (induction rule: svMove.induct)
  case (arrive i r)
  then have "ticketOf (putReq i r s) j = ticketOf s j" for j by (simp add: ticketOf_def putReq_def)
  with arrive show ?case by (simp add: slotsOk_def del: ticketOf_put)
next
  case (refused i r c)
  have "ticketOf s i = None" using refused.hyps(1) by (auto simp: ticketOf_def split: option.split)
  with refused have "ticketOf (putReq i r (s\<lparr>svRecords := svRecords s @ [c]\<rparr>)) j = ticketOf s j" for j by simp
  with refused show ?case by (simp add: slotsOk_def del: ticketOf_put)
next
  case (begun i q tk sm r)
  show ?case by (rule slotsOk_begun [of s tk sm i]) (use begun in \<open>simp_all add: ticketOf_Some\<close>)
next
  case (ended i q tk r c)
  show ?case by (rule slotsOk_ended [of s i tk]) (use ended in \<open>simp_all add: ticketOf_Some\<close>)
next
  case (touch i q r)
  then have "ticketOf (putReq i r s) j = ticketOf s j" for j by (simp add: ticketOf_Some)
  with touch show ?case by (simp add: slotsOk_def del: ticketOf_put)
qed simp

lemma svMove_max: "svMove s t \<Longrightarrow> semMax (svSem t) = semMax (svSem s)"
  by (induction rule: svMove.induct) (auto simp: acquire_def split: if_splits)

lemma svInit_ok: "svInit env = Some s \<Longrightarrow> reqsOk s \<and> recordsOk s \<and> slotsOk s \<and> 0 < semMax (svSem s)"
  by (auto simp: svInit_def reqsOk_def recordsOk_def recordCount_def isFinished_def slotsOk_def ticketOf_def
      createSemaphore_def heldTickets_def semInv_def isInteger_def split: jsnum.splits if_splits)

lemma svReach_ok: "svReach env s \<Longrightarrow> reqsOk s \<and> recordsOk s \<and> slotsOk s \<and> 0 < semMax (svSem s)"
proof (induction rule: svReach.induct)
  case (init s)
  then show ?case by (rule svInit_ok)
next
  case (step s e)
  then have m: "svMove s (svStep env e s)" by (intro svStep_move) simp
  from step m svMove_reqs [OF m] svMove_records [OF m] svMove_slots [OF m] svMove_max [OF m] show ?case by simp
qed

lemma active_running:
  assumes ok: "slotsOk s"
  shows "semActive (svSem s) = card (runningReqs s)" "finite (runningReqs s)"
proof -
  let ?f = "\<lambda>i. the (ticketOf s i)"
  have inj: "inj_on ?f (runningReqs s)" using ok by (auto simp: runningReqs_ticket inj_on_def slotsOk_def)
  have img: "?f ` runningReqs s = heldTickets (svSem s)"
    using ok by (force simp: runningReqs_ticket slotsOk_def image_def)
  have "finite (?f ` runningReqs s)" unfolding img by simp
  then show "finite (runningReqs s)" using inj by (rule finite_imageD)
  have "semActive (svSem s) = card (heldTickets (svSem s))" using ok by (simp add: slotsOk_def semInv_def)
  also have "\<dots> = card (runningReqs s)" unfolding img [symmetric] by (rule card_image [OF inj])
  finally show "semActive (svSem s) = card (runningReqs s)" .
qed

section \<open>The abstract limiter\<close>

text \<open>What the handler promises: a set of running requests, entered by a checked request when there is room.\<close>

record admission =
  adCapacity :: nat
  adRunning :: "nat set"

datatype admEvent = Enter nat | Leave nat | Elsewhere

fun admStep :: "admEvent \<Rightarrow> admission \<Rightarrow> admission" where
  "admStep (Enter i) a = (if card (adRunning a) < adCapacity a then a\<lparr>adRunning := insert i (adRunning a)\<rparr> else a)"
| "admStep (Leave i) a = a\<lparr>adRunning := adRunning a - {i}\<rparr>"
| "admStep Elsewhere a = a"

definition absServer :: "server \<Rightarrow> admission" where
  "absServer s = \<lparr>adCapacity = semMax (svSem s), adRunning = runningReqs s\<rparr>"

definition admits :: "svEnv \<Rightarrow> server \<Rightarrow> nat \<Rightarrow> resolver \<Rightarrow> fsEnv \<Rightarrow> bool" where
  "admits env s i lookup fs \<longleftrightarrow> (case svReqs s i of
     Some r \<Rightarrow> hrPhase r = Checking \<and> isOk (checkInputs env lookup fs r) | None \<Rightarrow> False)"

fun absEvent :: "svEnv \<Rightarrow> server \<Rightarrow> svEvent \<Rightarrow> admEvent" where
  "absEvent env s (Checked i lookup fs) = (if admits env s i lookup fs then Enter i else Elsewhere)"
| "absEvent env s (Settled i outcome) = Leave i"
| "absEvent env s (TimeoutFires i) = Leave i"
| "absEvent env s e = Elsewhere"

lemma runningReqs_put:
  "runningReqs (putReq i r s) = (case hrPhase r of Running t \<Rightarrow> insert i (runningReqs s) | _ \<Rightarrow> runningReqs s - {i})"
  by (auto simp: runningReqs_ticket split: phase.split)

lemma runningReqs_frame [simp]:
  "runningReqs (s\<lparr>svSem := sm\<rparr>) = runningReqs s" "runningReqs (s\<lparr>svRecords := rc\<rparr>) = runningReqs s"
  by (simp_all add: runningReqs_def)

lemma running_iff: "svReqs s i = Some r \<Longrightarrow> i \<in> runningReqs s \<longleftrightarrow> (\<exists>t. hrPhase r = Running t)"
  by (simp add: runningReqs_def)

lemma running_None: "svReqs s i = None \<Longrightarrow> i \<notin> runningReqs s"
  by (simp add: runningReqs_def)

lemma acquire_iff: "slotsOk s \<Longrightarrow> (\<exists>t sm. acquire (svSem s) = Inr (t, sm)) \<longleftrightarrow> card (runningReqs s) < semMax (svSem s)"
  using active_running(1) [of s] by (simp add: acquire_def)

lemma abs_refuse: "i \<notin> runningReqs s \<Longrightarrow> absServer (refuse i n err a r s) = absServer s"
  by (simp add: refuse_def absServer_def runningReqs_put finished_def recordFor_def)

lemma abs_windUp: "absServer (windUp i t r (recordFor i st tier err q s)) = admStep (Leave i) (absServer s)"
  by (simp add: windUp_def absServer_def runningReqs_put finished_def recordFor_def)

lemma abs_settle: "absServer (settleRace env i t outcome r s) = admStep (Leave i) (absServer s)"
  by (simp add: settleRace_def Let_def abs_windUp split: sum.split dlResult.split)

lemma abs_start:
  assumes "slotsOk s" "svReqs s i = Some r" "hrPhase r = Checking"
  shows "absServer (startRequest env i r s) = admStep (Enter i) (absServer s)"
proof (cases "acquire (svSem s)")
  case (Inl e)
  then have "\<not> card (runningReqs s) < semMax (svSem s)" using acquire_iff [OF assms(1)] by auto
  moreover have "i \<notin> runningReqs s" using running_iff [OF assms(2)] assms(3) by simp
  ultimately show ?thesis using Inl by (simp add: startRequest_def Let_def abs_refuse) (simp add: absServer_def)
next
  case (Inr ts)
  obtain t sm where ts: "ts = (t, sm)" by (cases ts)
  have "card (runningReqs s) < semMax (svSem s)" using acquire_iff [OF assms(1)] Inr ts by blast
  moreover have "semMax sm = semMax (svSem s)" using Inr ts by (auto simp: acquire_def split: if_splits)
  ultimately show ?thesis using Inr ts by (simp add: startRequest_def Let_def absServer_def runningReqs_put)
qed

lemma leave_other: "i \<notin> runningReqs s \<Longrightarrow> admStep (Leave i) (absServer s) = absServer s"
  by (simp add: absServer_def)

lemma abs_touch: "svReqs s i = Some q \<Longrightarrow> hrPhase r = hrPhase q \<Longrightarrow> absServer (putReq i r s) = absServer s"
  using running_iff [of s i q] by (auto simp: absServer_def runningReqs_put split: phase.split)

lemma abs_step:
  assumes "slotsOk s" "reqsOk s"
  shows "absServer (svStep env e s) = admStep (absEvent env s e) (absServer s)"
proof (cases e)
  case (Post i body accept start)
  then show ?thesis
    by (auto simp: onPost_def abs_refuse running_None split: reqBody.split option.split)
      (simp add: absServer_def runningReqs_put running_None)
next
  case (Checked i lookup fs)
  show ?thesis
  proof (cases "svReqs s i")
    case (Some r)
    show ?thesis
    proof (cases "hrPhase r = Checking")
      case True
      then have "i \<notin> runningReqs s" using running_iff [OF Some] by simp
      then show ?thesis using Checked Some True abs_start [OF assms(1) Some True]
        by (cases "checkInputs env lookup fs r") (simp_all add: onChecked_def admits_def abs_refuse)
    qed (simp add: Checked onChecked_def admits_def Some)
  qed (simp add: Checked onChecked_def admits_def)
next
  case (Settled i outcome)
  show ?thesis
  proof (cases "svReqs s i")
    case (Some r)
    then show ?thesis using Settled running_iff [OF Some] leave_other [of i s]
      by (cases "hrPhase r") (auto simp: onSettled_def abs_settle)
  next
    case None
    with Settled leave_other [OF running_None [OF None]] show ?thesis by (simp add: onSettled_def)
  qed
next
  case (TimeoutFires i)
  show ?thesis
  proof (cases "svReqs s i")
    case (Some r)
    then have "reqInv r" using assms(2) by (simp add: reqsOk_def)
    then show ?thesis using TimeoutFires Some running_iff [OF Some] leave_other [of i s]
      by (cases "hrPhase r") (auto simp: onTimeout_def abs_settle reqInv_def)
  next
    case None
    with TimeoutFires leave_other [OF running_None [OF None]] show ?thesis by (simp add: onTimeout_def)
  qed
next
  case (ClientCloses i)
  then show ?thesis by (auto simp: onClose_def Let_def abs_touch split: option.split)
next
  case (ResponseError i)
  then show ?thesis by (auto simp: onResponseError_def abs_touch split: option.split phase.split)
next
  case (Progress i ev)
  then show ?thesis by (auto simp: onProgress_def abs_touch split: option.split)
qed

section \<open>A sample server\<close>

definition sampleSv :: svEnv where
  "sampleSv = \<lparr>seParse = parseUrl (beNet (sampleEnv [])), seMaxConcurrency = Str ''1'', seRequestTimeout = Undefined, seStack = 100\<rparr>"

definition sampleDns :: resolver where "sampleDns = (\<lambda>_. Some (DnsList []))"

definition sampleSv0 :: server where
  "sampleSv0 = \<lparr>svSem = \<lparr>semMax = 1, semActive = 0, tickets = []\<rparr>, svReqs = (\<lambda>_. None), svRecords = []\<rparr>"

definition sampleSv1 :: server where
  "sampleSv1 = svStep sampleSv (Checked 7 sampleDns sampleFs)
     (svStep sampleSv (Post 7 (Fields (Some ''https://h/'') (Some ''/output/job'')) '''' 0) sampleSv0)"

definition sampleSv2 :: server where
  "sampleSv2 = svStep sampleSv (Settled 7 (Inr (Success ''/output/job/id.webm'' 1))) sampleSv1"

lemma sampleSv_init: "svInit sampleSv = Some sampleSv0"
proof -
  have "showNat 1 = ''1''" by code_simp
  then have "stringToNumber ''1'' = Fin 1" using stringToNumber_showNat [of 1] by simp
  then have "parseTimeout (Str ''1'') (Fin 2) = Fin 1"
    by (simp add: parseTimeout_def isInteger_def less_jsnum_def)
  then show ?thesis by (simp add: svInit_def sampleSv_def sampleSv0_def createSemaphore_def isInteger_def)
qed

lemma sampleSv_reach: "svReach sampleSv sampleSv0" "svReach sampleSv sampleSv1" "svReach sampleSv sampleSv2"
proof -
  show "svReach sampleSv sampleSv0" by (rule svReach.init [OF sampleSv_init])
  then show "svReach sampleSv sampleSv1" unfolding sampleSv1_def by (intro svReach.step)
  then show "svReach sampleSv sampleSv2" unfolding sampleSv2_def by (rule svReach.step)
qed

lemma sampleSv_checks: "checkInputs sampleSv sampleDns sampleFs (newReq ''https://h/'' ''/output/job'' [] 0) = Inr ()"
proof -
  from admit_ok [OF sampleDl_admit, of "[]"] obtain v where
    "validateUrl (parseUrl (beNet (sampleEnv []))) (\<lambda>_. Some (DnsList [])) (Str ''https://h/'') = Inr v"
    "snd (validateOutputDir sampleFs (Str ''/output/job'') Undefined) = Inr ''/output/job''"
    by (auto simp: sampleDl_def)
  then show ?thesis by (simp add: checkInputs_def sampleSv_def sampleDns_def newReq_def)
qed

lemma sampleSv1_req: "\<exists>r. svReqs sampleSv1 7 = Some r \<and> hrPhase r = Running 0 \<and> \<not> hrNdjson r \<and> \<not> hrGone r"
proof -
  have n: "hrNdjson (newReq u d [] st) = False" "hrGone (newReq u d a st) = False" for u d a st
    by (simp_all add: newReq_def)
  have "svReqs (svStep sampleSv (Post 7 (Fields (Some ''https://h/'') (Some ''/output/job'')) '''' 0) sampleSv0) 7
      = Some (newReq ''https://h/'' ''/output/job'' [] 0)"
    by (simp add: onPost_def sampleSv0_def)
  then show ?thesis using sampleSv_checks
    by (simp add: sampleSv1_def onChecked_def startRequest_def Let_def acquire_def sampleSv0_def onPost_def putReq_def n)
qed

section \<open>Properties\<close>

text \<open>C10: The handler, with all its races, implements an abstract limiter: under the abstraction to the set of
  running requests, every step is the abstract step; a request enters only when its checks passed and fewer
  than the maximum run, leaves when its download settles or its timer fires, and nothing else moves anyone.\<close>

theorem server_refines_limiter:
  assumes "svReach env s"
  shows "absServer (svStep env e s) = admStep (absEvent env s e) (absServer s)"
  using svReach_ok [OF assms] by (intro abs_step) simp_all

theorem server_refines_limiter_witness:
  "absServer sampleSv2 = admStep (Leave 7) (absServer sampleSv1)"
  using server_refines_limiter [OF sampleSv_reach(2), of "Settled 7 (Inr (Success ''/output/job/id.webm'' 1))"]
  by (simp add: sampleSv2_def)

text \<open>In every reachable state of the server the limiter's count is the number of requests that are running and
  is at most the configured maximum, whatever clients, timers and downloads do; every slot taken belongs to
  a running request, so none is lost.\<close>

theorem server_slots:
  assumes "svReach env s"
  shows "semActive (svSem s) = card (runningReqs s) \<and> card (runningReqs s) \<le> semMax (svSem s)
    \<and> (\<forall>t\<in>heldTickets (svSem s). \<exists>i r. svReqs s i = Some r \<and> hrPhase r = Running t)"
proof -
  have ok: "slotsOk s" using svReach_ok [OF assms] by simp
  have "\<exists>r. svReqs s i = Some r \<and> hrPhase r = Running t" if "ticketOf s i = Some t" for i t
    using that by (auto simp: ticketOf_def split: option.splits phase.splits)
  then have "\<forall>t\<in>heldTickets (svSem s). \<exists>i r. svReqs s i = Some r \<and> hrPhase r = Running t"
    using ok unfolding slotsOk_def by blast
  moreover have "semActive (svSem s) \<le> semMax (svSem s)" using ok unfolding slotsOk_def semInv_def by blast
  ultimately show ?thesis using active_running [OF ok] by simp
qed

theorem server_slots_witness:
  "semActive (svSem sampleSv1) = card (runningReqs sampleSv1) \<and> card (runningReqs sampleSv1) \<le> semMax (svSem sampleSv1)"
  using server_slots [OF sampleSv_reach(2)] by simp

text \<open>C12: The metrics count every request exactly once: a request that is over has one recorded outcome, on every
  path through the handler, and one that is not over has none.\<close>

theorem server_records_once:
  assumes "svReach env s"
  shows "recordCount s i = (if isFinished s i then 1 else 0)"
  using svReach_ok [OF assms] by (simp add: recordsOk_def)

theorem server_records_once_witness: "recordCount sampleSv2 7 = (if isFinished sampleSv2 7 then 1 else 0)"
  by (rule server_records_once [OF sampleSv_reach(3)])

text \<open>C11: A client that stays gets exactly one answer: a finished request has sent either one JSON body, or progress
  lines, one final line and the end of the stream; before that only progress lines, and none at all without
  the streaming mode; and once a request is finished no event adds anything.\<close>

theorem server_answers_once:
  assumes "svReach env s" "svReqs s i = Some r"
  shows "(if hrPhase r = Finished then hrGone r \<or> completeOut (hrOut r)
          else progressOnly (hrOut r) \<and> (hrNdjson r \<or> hrOut r = []))
    \<and> (hrPhase r = Finished \<longrightarrow> (\<exists>q. svReqs (svStep env e s) i = Some q \<and> hrOut q = hrOut r))"
proof -
  have inv: "reqInv r" using svReach_ok [OF assms(1)] assms(2) by (simp add: reqsOk_def)
  then have shape: "if hrPhase r = Finished then hrGone r \<or> completeOut (hrOut r)
          else progressOnly (hrOut r) \<and> (hrNdjson r \<or> hrOut r = [])"
    by (cases "hrPhase r") (auto simp: reqInv_def split: if_splits)
  have mute: "hrOut (writeEvent a r) = hrOut r" if "hrPhase r = Finished" for a
    using inv that by (auto simp: reqInv_def writeEvent_def canRespond_def split: if_splits)
  have "\<exists>q. svReqs (svStep env e s) i = Some q \<and> hrOut q = hrOut r" if "hrPhase r = Finished"
    using that assms(2) mute
    by (cases e) (auto simp: onPost_def onChecked_def onSettled_def onTimeout_def onClose_def onResponseError_def
        onProgress_def refuse_def startRequest_def settleRace_def windUp_def recordFor_def Let_def
        split: option.split reqBody.split phase.split sum.split dlResult.split prod.split)
  with shape show ?thesis by blast
qed

theorem server_answers_once_witness:
  "\<exists>r. svReqs sampleSv1 7 = Some r \<and> hrPhase r = Running 0 \<and> hrOut r = []"
proof -
  obtain r where r: "svReqs sampleSv1 7 = Some r" "hrPhase r = Running 0" "\<not> hrNdjson r" using sampleSv1_req by blast
  with server_answers_once [OF sampleSv_reach(2) r(1)] show ?thesis by auto
qed

text \<open>C13: Nothing outlives its request: in the step in which a request stops running, whatever the reason, its
  download is cancelled, its timer cleared and its slot given back.\<close>

theorem server_cancels:
  assumes "svReach env s" "svReqs s i = Some r" "hrPhase r = Running t"
    and "svReqs (svStep env e s) i = Some q" "hrPhase q \<noteq> Running t"
  shows "hrPhase q = Finished \<and> hrCancelled q \<and> hrTimer q = None \<and> t \<notin> heldTickets (svSem (svStep env e s))"
proof -
  have ok: "reqsOk s" "slotsOk s" using svReach_ok [OF assms(1)] by simp_all
  from svStep_move [OF ok(1), of env e] show ?thesis
  proof (cases rule: svMove.cases)
    case (ended j p tk r' c)
    have "i = j" using ended(1) assms(2-5) by (auto split: if_splits)
    then have "tk = t" "q = r'" using ended assms(2-4) by auto
    then show ?thesis using ended held_release [of t "svSem s"] by (simp add: reqInv_def)
  qed (use assms(2-5) in \<open>auto split: if_splits\<close>)
qed

theorem server_cancels_witness:
  "\<exists>q. svReqs sampleSv2 7 = Some q \<and> hrPhase q = Finished \<and> hrCancelled q \<and> 0 \<notin> heldTickets (svSem sampleSv2)"
proof -
  obtain r where r: "svReqs sampleSv1 7 = Some r" "hrPhase r = Running 0" using sampleSv1_req by blast
  have "\<exists>q. svReqs sampleSv2 7 = Some q \<and> hrPhase q = Finished"
    using r by (simp add: sampleSv2_def onSettled_def settleRace_def windUp_def finished_def)
  then obtain q where q: "svReqs sampleSv2 7 = Some q" "hrPhase q = Finished" by blast
  with server_cancels [OF sampleSv_reach(2) r, of "Settled 7 (Inr (Success ''/output/job/id.webm'' 1))" q]
  show ?thesis by (simp add: sampleSv2_def)
qed

text \<open>What becomes of a checked request: invalid inputs are answered 400 with the validator's message and a
  full limiter 503, both without taking a slot and both final; otherwise the request runs with its timer
  armed.\<close>

theorem server_checked:
  assumes "svReach env s" "svReqs s i = Some r" "hrPhase r = Checking"
  shows "\<exists>q. svReqs (svStep env (Checked i lookup fs) s) i = Some q \<and>
    (case checkInputs env lookup fs r of
       Inl msg \<Rightarrow> hrOut q = [JsonResponse 400 (InvalidRequest msg)] \<and> hrPhase q = Finished
         \<and> svSem (svStep env (Checked i lookup fs) s) = svSem s
     | Inr _ \<Rightarrow>
         if semMax (svSem s) \<le> card (runningReqs s)
         then hrOut q = [JsonResponse 503 ConcurrencyLimit] \<and> hrPhase q = Finished
           \<and> svSem (svStep env (Checked i lookup fs) s) = svSem s
         else (\<exists>t. hrPhase q = Running t) \<and> hrTimer q \<noteq> None \<and> hrOut q = [] \<and> \<not> hrCancelled q)"
proof -
  have ok: "reqsOk s" "slotsOk s" using svReach_ok [OF assms(1)] by simp_all
  have "reqInv r" using ok(1) assms(2) by (simp add: reqsOk_def)
  then have "hrOut r = []" "\<not> hrCancelled r" using assms(3) by (simp_all add: reqInv_def)
  then show ?thesis using assms(2,3) active_running(1) [OF ok(2)]
    by (cases "semMax (svSem s) \<le> card (runningReqs s)") (auto simp: onChecked_def startRequest_def refuse_def
        finished_def jsonReply_def recordFor_def Let_def acquire_def split: sum.split)
qed

theorem server_checked_witness:
  "\<exists>q. svReqs (svStep sampleSv (Checked 8 sampleDns sampleFs)
        (svStep sampleSv (Post 8 (Fields (Some []) (Some ''/output'')) [] 0) sampleSv0)) 8 = Some q
     \<and> hrOut q = [JsonResponse 400 (InvalidRequest ''url must be a non-empty string'')]"
proof -
  let ?s = "svStep sampleSv (Post 8 (Fields (Some []) (Some ''/output'')) [] 0) sampleSv0"
  have r: "svReqs ?s 8 = Some (newReq [] ''/output'' [] 0)" by (simp add: onPost_def sampleSv0_def)
  have "checkInputs sampleSv sampleDns sampleFs (newReq [] ''/output'' [] 0) = Inl ''url must be a non-empty string''"
    by (simp add: checkInputs_def validateUrl_def newReq_def)
  with server_checked [OF svReach.step [OF sampleSv_reach(1)] r newReq_inv(2), of sampleDns sampleFs] show ?thesis
    by (auto simp: sampleSv_def)
qed

text \<open>The listener for a closed connection is attached after the checks, so a client that leaves during them goes
  unnoticed: its request starts, and is not cancelled.\<close>

lemma early_disconnect_unnoticed:
  assumes "svReqs s i = Some r" "hrPhase r = Checking" "isOk (checkInputs env lookup fs r)"
    and "acquire (svSem s) = Inr (t, sm)" "\<not> hrCancelled r"
  shows "\<exists>q. svReqs (svStep env (Checked i lookup fs) (svStep env (ClientCloses i) s)) i = Some q
    \<and> hrGone q \<and> hrPhase q = Running t \<and> \<not> hrCancelled q"
proof -
  have "checkInputs env lookup fs (r\<lparr>hrGone := True, hrCancelled := False\<rparr>) = checkInputs env lookup fs r"
    by (simp add: checkInputs_def)
  with assms show ?thesis
    by (auto simp: onClose_def onChecked_def startRequest_def Let_def isOk_iff)
qed

text \<open>A streaming request that finds the limiter full is answered with one JSON body under the streaming content type.\<close>

lemma streaming_refusal_content_type:
  assumes "svReqs s i = Some r" "hrPhase r = Checking" "isOk (checkInputs env lookup fs r)"
    and "acquire (svSem s) = Inl e" "hrNdjson r" "hrOut r = []"
  shows "\<exists>q. svReqs (svStep env (Checked i lookup fs) s) i = Some q
    \<and> hrTypeSet q \<and> hrOut q = [JsonResponse 503 ConcurrencyLimit]"
  using assms by (auto simp: onChecked_def startRequest_def refuse_def finished_def jsonReply_def recordFor_def Let_def isOk_iff)

end
