(* ===== verification/Wire.thy ===== *)
theory Wire
  imports Server
begin

text \<open>
  The outer layer of \<open>server.js\<close>: the JSON bodies of the answers and the newline-delimited stream, the
  two GET routes, the choice of the port and what a listen error does. The metrics registry,
  \<open>pathToFileURL\<close> and the text of a number are parameters.
\<close>

section \<open>Bodies\<close>

text \<open>A property whose value is \<open>undefined\<close> is left out by \<open>JSON.stringify\<close>.\<close>

definition primJson :: "jsprim \<Rightarrow> json option" where
  "primJson v = (case v of Undefined \<Rightarrow> None | Null \<Rightarrow> Some JNull | Bool b \<Rightarrow> Some (JBool b)
     | Num n \<Rightarrow> Some (JNum n) | Str s \<Rightarrow> Some (JStr s))"

definition objJson :: "(string \<times> json option) list \<Rightarrow> json" where
  "objJson fs = JObj (concat (map (\<lambda>(k, v). case v of None \<Rightarrow> [] | Some x \<Rightarrow> [(k, x)]) fs))"

definition tierJson :: "nat \<Rightarrow> json" where
  "tierJson n = JNum (Fin (of_nat n))"

fun resultJson :: "dlResult \<Rightarrow> json" where
  "resultJson (Success p t) =
     JObj [(''status'', JStr ''success''), (''file_path'', JStr p), (''tier_used'', tierJson t)]"
| "resultJson (Failed c t) =
     objJson [(''status'', Some (JStr ''failed'')), (''error'', primJson c), (''tier_used'', Some (tierJson t))]"

fun answerJson :: "answer \<Rightarrow> json" where
  "answerJson (InvalidRequest m) =
     JObj [(''status'', JStr ''failed''), (''error'', JStr ''invalid_request''), (''message'', JStr m)]"
| "answerJson ConcurrencyLimit = JObj [(''status'', JStr ''failed''), (''error'', JStr ''concurrency_limit'')]"
| "answerJson (Result r) = resultJson r"
| "answerJson (FailedWith c) =
     objJson [(''status'', Some (JStr ''failed'')), (''error'', primJson c), (''tier_used'', Some JNull)]"
| "answerJson (ServerFailure c) = objJson [(''status'', Some (JStr ''failed'')), (''error'', primJson c)]"
| "answerJson (ProgressLine ev) = ev"

text \<open>The two kinds of progress events: a phase marker of the orchestrator, an update of the backend.\<close>

definition phaseJson :: "string \<Rightarrow> json" where
  "phaseJson p = JObj ((''phase'', JStr p) # (if p = ''saving'' then [(''percent'', JNum (Fin 100))] else []))"

definition progressJson :: "progressEvent \<Rightarrow> json" where
  "progressJson ev = objJson [(''phase'', Some (JStr ''downloading'')), (''percent'', Some (JNum (pePercent ev))),
     (''downloaded_bytes'', map_option (\<lambda>n. JNum (Fin (of_nat n))) (peBytes ev))]"

section \<open>What goes over the connection\<close>

definition lineFeed :: char where "lineFeed = CHR 10"

fun itemText :: "(jsnum \<Rightarrow> string) \<Rightarrow> wireItem \<Rightarrow> string" where
  "itemText showN (JsonResponse n a) = stringify showN (answerJson a)"
| "itemText showN (Line a) = stringify showN (answerJson a) @ [lineFeed]"
| "itemText showN EndOfStream = []"

definition wireText :: "(jsnum \<Rightarrow> string) \<Rightarrow> wireItem list \<Rightarrow> string" where
  "wireText showN xs = concat (map (itemText showN) xs)"

text \<open>How a reader of the stream takes it apart; the last piece is what follows the last line feed.\<close>

definition streamLines :: "string \<Rightarrow> string list" where
  "streamLines s = splitOn lineFeed s"

section \<open>The GET routes\<close>

text \<open>Status, the content type the handler itself set, and the body: JSON or text.\<close>

datatype getBody = JsonBody json | TextBody string

record getReply =
  grStatus :: nat
  grType :: "string option"
  grBody :: getBody

definition onHealth :: getReply where
  "onHealth = \<lparr>grStatus = 200, grType = None, grBody = JsonBody (JObj [(''status'', JStr ''ok'')])\<rparr>"

text \<open>
  The registry's content type and what its \<open>metrics()\<close> gives (\<open>None\<close> is a rejection). The content type
  is set before the text is asked for.
\<close>

definition onMetrics :: "string \<Rightarrow> string option \<Rightarrow> getReply" where
  "onMetrics contentType metrics = (case metrics of
     Some t \<Rightarrow> \<lparr>grStatus = 200, grType = Some contentType, grBody = TextBody t\<rparr>
   | None \<Rightarrow> \<lparr>grStatus = 500, grType = Some contentType,
       grBody = JsonBody (JObj [(''status'', JStr ''failed''), (''error'', JStr ''metrics_error'')])\<rparr>)"

section \<open>Starting\<close>

text \<open>\<open>Number(process.env.BD_PORT) || 3000\<close>\<close>

definition PORT :: "jsprim \<Rightarrow> jsnum" where
  "PORT env = (let n = toNumber env in if truthy (Num n) then n else Fin 3000)"

datatype process = Starting | Listening jsnum | Exited int

datatype listenEvent = ListenOk | ListenError

text \<open>\<open>startServer\<close>: the callback only logs; any \<open>error\<close> event of the server ends the process.\<close>

fun listenStep :: "jsnum \<Rightarrow> process \<Rightarrow> listenEvent \<Rightarrow> process" where
  "listenStep port (Exited c) e = Exited c"
| "listenStep port p ListenOk = Listening port"
| "listenStep port p ListenError = Exited 1"

definition isMain :: "(string \<Rightarrow> string) \<Rightarrow> string option \<Rightarrow> string \<Rightarrow> bool" where
  "isMain pathToHref argv1 metaUrl \<longleftrightarrow>
     metaUrl = (case argv1 of None \<Rightarrow> [] | Some p \<Rightarrow> if p \<noteq> [] then pathToHref p else [])"

section \<open>Facts: framing\<close>

lemma streamLines_Line: "lineFeed \<notin> set t \<Longrightarrow> streamLines (t @ lineFeed # s) = t # streamLines s"
  by (simp add: streamLines_def splitOn_append)

lemma wireText_append [simp]: "wireText showN (xs @ ys) = wireText showN xs @ wireText showN ys"
  by (simp add: wireText_def)

lemma wireText_lines:
  assumes "\<And>n. lineFeed \<notin> set (showN n)"
  shows "streamLines (wireText showN (map Line as) @ s) = map (\<lambda>a. stringify showN (answerJson a)) as @ streamLines s"
proof (induction as)
  case (Cons a as)
  have "lineFeed \<notin> set (stringify showN (answerJson a))"
    using assms stringify_one_line [of showN] by (simp add: lineFeed_def)
  from streamLines_Line [OF this] Cons show ?case by (simp add: wireText_def)
qed (simp add: wireText_def)

lemma progressOnly_map: "progressOnly ps \<Longrightarrow> \<exists>evs. ps = map Line (map ProgressLine evs)"
proof (induction ps)
  case (Cons p ps)
  then obtain ev evs where "p = Line (ProgressLine ev)" "ps = map Line (map ProgressLine evs)"
    by (auto simp: progressOnly_def)
  then show ?case by (intro exI [of _ "ev # evs"]) simp
qed simp

section \<open>Facts: starting\<close>

lemma PORT_usable: "PORT env \<noteq> NaN \<and> PORT env \<noteq> Fin 0"
  by (simp add: PORT_def Let_def)

text \<open>After a listen error the process has ended, whatever comes before or after it.\<close>

lemma listen_error_exits: "ListenError \<in> set evs \<Longrightarrow> \<exists>c. foldl (listenStep port) p evs = Exited c"
proof (induction evs arbitrary: p)
  case (Cons e evs)
  have stays: "foldl (listenStep port) (Exited c) es = Exited c" for c es by (induction es) simp_all
  show ?case
  proof (cases "e = ListenError")
    case True
    then show ?thesis using stays by (cases p) auto
  next
    case False
    with Cons show ?thesis by simp
  qed
qed simp

end
