(* ===== verification/ErrorFlow.thy ===== *)
theory ErrorFlow
  imports Wire
begin

text \<open>
  Which errors reach whom. A type system for the fallible routines: \<open>hasType P Q m\<close> says that
  whatever \<open>m\<close> throws satisfies \<open>P\<close> and whatever it returns satisfies \<open>Q\<close>. The interface
  \<open>error_contract\<close> lists the errors the code itself creates; under it every routine from the
  redirect loop up to \<open>download\<close> has the type of its errors, and the handler of the server sends
  only words of the public vocabulary.
\<close>

section \<open>Result types\<close>

definition resultOk :: "('e \<Rightarrow> bool) \<Rightarrow> ('a \<Rightarrow> bool) \<Rightarrow> 'e + 'a \<Rightarrow> bool" where
  "resultOk P Q r \<longleftrightarrow> (case r of Inl e \<Rightarrow> P e | Inr x \<Rightarrow> Q x)"

definition hasType :: "('e \<Rightarrow> bool) \<Rightarrow> ('a \<Rightarrow> bool) \<Rightarrow> ('s, 'e, 'a) eff \<Rightarrow> bool" where
  "hasType P Q m \<longleftrightarrow> (\<forall>s. resultOk P Q (fst (m s)))"

abbreviation throwsOnly :: "('e \<Rightarrow> bool) \<Rightarrow> ('s, 'e, 'a) eff \<Rightarrow> bool" where
  "throwsOnly P m \<equiv> hasType P (\<lambda>_. True) m"

named_theorems typing \<open>typing rules of the fallible routines\<close>

lemma resultOk_simps [simp]: "resultOk P Q (Inl e) = P e" "resultOk P Q (Inr x) = Q x"
  by (simp_all add: resultOk_def)

lemma resultOk_bind: "resultOk P Q r \<Longrightarrow> (\<And>x. Q x \<Longrightarrow> resultOk P R (f x)) \<Longrightarrow> resultOk P R (bindR r f)"
  by (cases r) auto

lemma resultOk_mono: "resultOk P Q r \<Longrightarrow> (\<And>x. Q x \<Longrightarrow> R x) \<Longrightarrow> resultOk P R r"
  by (cases r) auto

lemma resultOk_option: "P e \<Longrightarrow> (\<And>v. x = Some v \<Longrightarrow> Q v) \<Longrightarrow> resultOk P Q (ofOption e x)"
  by (cases x) auto

lemma resultOk_mapErr: "resultOk (\<lambda>e. P (g e)) Q r \<Longrightarrow> resultOk P Q (mapErr g r)"
  by (cases r) auto

lemma hasType_run: "hasType P Q m \<Longrightarrow> m s = (r, s') \<Longrightarrow> resultOk P Q r"
  unfolding hasType_def by (metis fst_conv)

lemma hasTypeI: "(\<And>s r s'. m s = (r, s') \<Longrightarrow> resultOk P Q r) \<Longrightarrow> hasType P Q m"
  unfolding hasType_def by (metis prod.collapse)

lemma hasType_mono: "hasType P Q m \<Longrightarrow> (\<And>x. Q x \<Longrightarrow> R x) \<Longrightarrow> hasType P R m"
  unfolding hasType_def using resultOk_mono by blast

lemma hasType_return [typing]: "Q x \<Longrightarrow> hasType P Q (returnS x)"
  by (simp add: hasType_def eff_defs)

lemma hasType_throw [typing]: "P e \<Longrightarrow> hasType P Q (throwS e)"
  by (simp add: hasType_def eff_defs)

lemma hasType_lift [typing]: "resultOk P Q r \<Longrightarrow> hasType P Q (liftS r)"
  by (simp add: hasType_def eff_defs)

lemma hasType_do [typing]: "Q () \<Longrightarrow> hasType P Q (doS f)"
  by (simp add: hasType_def eff_defs)

lemma hasType_read [typing]: "(\<And>s. Q (h s)) \<Longrightarrow> hasType P Q (readS h)"
  by (simp add: hasType_def eff_defs)

lemma hasType_then:
  "hasType P Q m \<Longrightarrow> (\<And>x. Q x \<Longrightarrow> hasType P R (f x)) \<Longrightarrow> hasType P R (thenS m f)"
  unfolding hasType_def thenS_def
  by (auto split: prod.split sum.split) (metis fst_conv resultOk_simps)+

lemma hasType_finally [typing]: "hasType P Q m \<Longrightarrow> hasType P Q (finallyS m f)"
  unfolding hasType_def finallyS_def by (auto split: prod.split) (metis fst_conv)

lemma throwsOnly_do: "throwsOnly P (doS f)"
  by (simp add: typing)

lemma throwsOnly_read: "throwsOnly P (readS h)"
  by (simp add: typing)

lemma hasType_if [typing]:
  "(b \<Longrightarrow> hasType P Q m) \<Longrightarrow> (\<not> b \<Longrightarrow> hasType P Q n) \<Longrightarrow> hasType P Q (if b then m else n)"
  by simp

lemma hasType_option [typing]:
  "(x = None \<Longrightarrow> hasType P Q m) \<Longrightarrow> (\<And>v. x = Some v \<Longrightarrow> hasType P Q (f v)) \<Longrightarrow>
   hasType P Q (case x of None \<Rightarrow> m | Some v \<Rightarrow> f v)"
  by (cases x) simp_all

lemma hasType_prod [typing]:
  "(\<And>a b. x = (a, b) \<Longrightarrow> hasType P Q (f a b)) \<Longrightarrow> hasType P Q (case x of (a, b) \<Rightarrow> f a b)"
  by (cases x) simp

section \<open>What the outside may throw\<close>

definition bodyErrors :: "(exn \<Rightarrow> bool) \<Rightarrow> response \<Rightarrow> bool" where
  "bodyErrors P r \<longleftrightarrow> (case rsBody r of Stream cs (Some e) \<Rightarrow> P e | _ \<Rightarrow> True)"

definition tryErrors :: "(exn \<Rightarrow> bool) \<Rightarrow> tryResult \<Rightarrow> bool" where
  "tryErrors P t \<longleftrightarrow> (case t of Fetched r \<Rightarrow> bodyErrors P r | Fatal e \<Rightarrow> P e | Exhausted e \<Rightarrow> P e)"

text \<open>The answer of the interceptor, once there.\<close>

definition outcomeErrors :: "(exn \<Rightarrow> bool) \<Rightarrow> tier1 \<Rightarrow> bool" where
  "outcomeErrors P s \<longleftrightarrow> (\<forall>e. t1Outcome s = Some (Rejected e) \<longrightarrow> P e)"

text \<open>What a routine of the orchestrator throws, and what it answers.\<close>

definition stopErrors :: "(exn \<Rightarrow> bool) \<Rightarrow> stop \<Rightarrow> bool" where
  "stopErrors P x \<longleftrightarrow> (case x of Hangs \<Rightarrow> True | Throws e \<Rightarrow> P e)"

definition publicCode :: "jsprim \<Rightarrow> bool" where
  "publicCode c \<longleftrightarrow> c \<in> Str ` set ERROR_CODES"

definition resultCode :: "dlResult \<Rightarrow> bool" where
  "resultCode r \<longleftrightarrow> (case r of Success p t \<Rightarrow> True | Failed c t \<Rightarrow> publicCode c)"

definition netErrors :: "(exn \<Rightarrow> bool) \<Rightarrow> netEnv \<Rightarrow> bool" where
  "netErrors P ne \<longleftrightarrow> (\<forall>n q. resultOk P (bodyErrors P) (net ne n q))"

definition backendErrors :: "(exn \<Rightarrow> bool) \<Rightarrow> backendEnv \<Rightarrow> bool" where
  "backendErrors P env \<longleftrightarrow> netErrors P (beNet env) \<and> (\<forall>p e. beWriteFails env p = Some e \<longrightarrow> P e)"

definition dlErrors :: "(exn \<Rightarrow> bool) \<Rightarrow> dlEnv \<Rightarrow> bool" where
  "dlErrors P env \<longleftrightarrow> backendErrors P (deBack env)
     \<and> (\<forall>e. deLaunch env = Some e \<or> deContext env = Some e \<or> dePage env = Some e \<or> deEvents env = Inl e \<longrightarrow> P e)"

section \<open>The contract of the code's own errors\<close>

text \<open>
  The errors the code makes are \<open>DownloaderError\<close>s with a code of the vocabulary and objects of
  other classes without a cause; the HTTP status added to one does not matter.
\<close>

locale error_contract =
  fixes P :: "exn \<Rightarrow> bool"
  assumes coded: "w \<in> set ERROR_CODES \<Longrightarrow> P (dErr w m)"
    and other: "k \<noteq> DownloaderErrorC \<Longrightarrow> P (mkExn k n m c)"
    and status: "P e \<Longrightarrow> P (e\<lparr>xStatus := s\<rparr>)"
begin

lemma own [simp, intro]:
  "P (dErr NETWORK_ERROR m)" "P (dErr TIMEOUT m)" "P (dErr DRM_DETECTED m)" "P (dErr ANTI_BOT_BLOCK m)"
  "P (dErr NO_MEDIA_FOUND m)" "P (dErr STORAGE_ERROR m)" "P (plainErr m)" "P abortErr" "P invalidIv"
  "P tooLarge" "P (httpErr n)"
  by (simp_all add: coded other status plainErr_def abortErr_def invalidIv_def tooLarge_def httpErr_def)

text \<open>Fetching\<close>

lemma fetchOnce_type: "netErrors P env \<Longrightarrow> hasType P (bodyErrors P) (fetchOnce env cx u)"
  by (simp add: hasType_def fetchOnce_def Let_def netErrors_def)

lemma redirectLoop_type: "netErrors P env \<Longrightarrow> hasType P (bodyErrors P) (redirectLoop k env cap cx u)"
proof (induction k arbitrary: u)
  case (Suc k)
  show ?case
  proof (rule hasTypeI)
    fix s r s'
    assume run: "redirectLoop (Suc k) env cap cx u s = (r, s')"
    obtain f s1 where f: "fetchOnce env cx u s = (f, s1)" by (cases "fetchOnce env cx u s")
    have "resultOk P (bodyErrors P) f" by (rule hasType_run [OF fetchOnce_type [OF Suc.prems] f])
    with run f hasType_run [OF Suc.IH [OF Suc.prems]] show "resultOk P (bodyErrors P) r"
      by (auto split: sum.splits if_splits option.splits)
  qed
qed (simp add: hasType_def)

lemma fetchResOne_type: "netErrors P env \<Longrightarrow> hasType P (bodyErrors P) (fetchResOne env cap cx u)"
  using redirectLoop_type by (simp add: fetchResOne_def [abs_def] Let_def del: redirectLoop.simps)

lemma tryContext_type:
  "netErrors P env \<Longrightarrow> P e \<Longrightarrow> tryContext left attempt env cap cx u e st = (t, st') \<Longrightarrow> tryErrors P t"
proof (induction left arbitrary: attempt e st)
  case (Suc left)
  obtain f st1 where f: "fetchResOne env cap cx u st = (f, st1)" by (cases "fetchResOne env cap cx u st")
  have "resultOk P (bodyErrors P) f" by (rule hasType_run [OF fetchResOne_type [OF Suc.prems(1)] f])
  with Suc.prems f Suc.IH [OF Suc.prems(1)] show ?case
    by (cases f) (auto simp: tryErrors_def Let_def split: if_splits)
qed (auto simp: tryErrors_def)

lemma tryContexts_type: "netErrors P env \<Longrightarrow> P e \<Longrightarrow> hasType P (bodyErrors P) (tryContexts cxs env cap u e)"
proof (induction cxs arbitrary: e)
  case (Cons cx cxs)
  show ?case
  proof (rule hasTypeI)
    fix s r s'
    assume run: "tryContexts (cx # cxs) env cap u e s = (r, s')"
    obtain t s1 where t: "tryContext (Suc MAX_RETRIES) 0 env cap cx u e s = (t, s1)"
      by (cases "tryContext (Suc MAX_RETRIES) 0 env cap cx u e s")
    have "tryErrors P t" by (rule tryContext_type [OF Cons.prems t])
    with run t hasType_run [OF Cons.IH [OF Cons.prems(1)]] show "resultOk P (bodyErrors P) r"
      by (cases t) (auto simp: tryErrors_def)
  qed
qed (simp add: hasType_def)

lemma fetchResWithRetry_type: "netErrors P env \<Longrightarrow> hasType P (bodyErrors P) (fetchResWithRetry env cap h u)"
  by (simp add: fetchResWithRetry_def [abs_def] tryContexts_type)

lemma readBodyCapped_type: "bodyErrors P res \<Longrightarrow> resultOk P (\<lambda>_. True) (readBodyCapped res cap)"
  by (auto simp: readBodyCapped_def readChunks_spec bodyErrors_def split: respBody.splits option.splits)

text \<open>Two routines that read a body right after the fetch; \<open>f\<close> is what they do with the bytes.\<close>

lemma fetchThen_type:
  assumes "netErrors P env" "\<And>b. resultOk P (\<lambda>_. True) (f b)"
  shows "throwsOnly P (\<lambda>st. case fetchResWithRetry env c h u st of (r, st1) \<Rightarrow>
    (bindR r (\<lambda>res. bindR (readBodyCapped res cap) f), st1))"
proof (rule hasTypeI)
  fix s r s'
  assume run: "(case fetchResWithRetry env c h u s of (r, st1) \<Rightarrow>
    (bindR r (\<lambda>res. bindR (readBodyCapped res cap) f), st1)) = (r, s')"
  obtain q t where q: "fetchResWithRetry env c h u s = (q, t)" by (cases "fetchResWithRetry env c h u s")
  have "resultOk P (bodyErrors P) q" by (rule hasType_run [OF fetchResWithRetry_type [OF assms(1)] q])
  then have "resultOk P (\<lambda>_. True) (bindR q (\<lambda>res. bindR (readBodyCapped res cap) f))"
    by (rule resultOk_bind) (rule resultOk_bind, erule readBodyCapped_type, rule assms(2))
  with run q show "resultOk P (\<lambda>_. True) r" by simp
qed

lemma fetchText_type: "netErrors P env \<Longrightarrow> throwsOnly P (fetchText env c h u)"
  unfolding fetchText_def [abs_def] Let_def by (rule fetchThen_type) simp_all

lemma writeFileAt_type: "(\<forall>p e. fails p = Some e \<longrightarrow> P e) \<Longrightarrow> resultOk P (\<lambda>_. True) (writeFileAt fails p b fs)"
  by (simp add: writeFileAt_def split: option.split)

lemma fetchToFile_type:
  assumes "netErrors P env" "\<forall>p e. fails p = Some e \<longrightarrow> P e"
  shows "throwsOnly P (fetchToFile env wd fails c h u dest fs)"
  unfolding fetchToFile_def [abs_def]
proof (rule fetchThen_type [OF assms(1)])
  have "resultOk P (\<lambda>_. True) (bindR (writeFileAt fails dest b fs) (\<lambda>fs'. Inr (length b, fs')))" for b
    by (rule resultOk_bind [OF writeFileAt_type [OF assms(2)]]) simp
  then show "resultOk P (\<lambda>_. True)
    (if \<not> startsWith dest ''/'' \<or> resolvePath wd dest \<noteq> dest
     then Inl (dErr NETWORK_ERROR ''refusing to write to a non-normalized path'')
     else bindR (writeFileAt fails dest b fs) (\<lambda>fs'. Inr (length b, fs')))" for b by simp
qed

text \<open>Playlists and keys\<close>

lemma parseHlsKeyTag_type: "resultOk P (\<lambda>_. True) (parseHlsKeyTag l)"
  by (simp add: parseHlsKeyTag_def Let_def split: option.split)

lemma walkLine_type: "resultOk P (\<lambda>_. True) (walkLine w l)"
  by (auto simp: walkLine_def split: jsnum.split intro: resultOk_bind parseHlsKeyTag_type)

lemma walkLines_type: "resultOk P (\<lambda>_. True) (walkLines w ls)"
  by (induction ls arbitrary: w) (auto intro: resultOk_bind walkLine_type)

lemma decryptHlsSegment_type: "resultOk P (\<lambda>_. True) (decryptHlsSegment aes b k iv ms)"
  by (simp add: decryptHlsSegment_def Let_def split: option.split)

text \<open>The backend\<close>

lemma netS_type: "hasType P Q f \<Longrightarrow> hasType P Q (netS f)"
  unfolding hasType_def netS_def by (auto split: prod.split) (metis fst_conv)

lemma guardS_type: "throwsOnly P (guardS env u)"
proof -
  have "resultOk P (\<lambda>_. True) (mapErr plainErr r)" for r :: "string + url" by (cases r) simp_all
  then show ?thesis by (simp add: hasType_def guardS_def)
qed

lemma writeS_type: "backendErrors P env \<Longrightarrow> throwsOnly P (writeS env p b)"
  using writeFileAt_type [of "beWriteFails env" p b]
  by (auto simp: hasType_def writeS_def backendErrors_def split: sum.split) (metis resultOk_simps(1))

lemma runS_type: "throwsOnly P (runS env b cmd args)"
  by (simp add: hasType_def runS_def Let_def split: prod.split)

lemma mkdtempS_type: "throwsOnly P (mkdtempS env)"
  by (simp add: hasType_def mkdtempS_def split: option.split)

lemma fileS_type: "(\<And>fs. throwsOnly P (f fs)) \<Longrightarrow> throwsOnly P (fileS f)"
proof (rule hasTypeI)
  fix s r s'
  assume f: "\<And>fs. throwsOnly P (f fs)" and run: "fileS f s = (r, s')"
  obtain q n where q: "f (bFiles s) (bNet s) = (q, n)" by (cases "f (bFiles s) (bNet s)")
  from run q hasType_run [OF f q] show "resultOk P (\<lambda>_. True) r"
    by (cases q) (auto simp: fileS_def split: prod.splits)
qed

lemma fetchS_type: "backendErrors P env \<Longrightarrow> hasType P (bodyErrors P) (netS (fetchResWithRetry (beNet env) c h u))"
  by (rule netS_type) (simp add: fetchResWithRetry_type backendErrors_def)

lemmas backend_types = guardS_type writeS_type runS_type mkdtempS_type

lemma fetchHlsKey_type:
  assumes "backendErrors P env"
  shows "throwsOnly P (fetchHlsKey env auth url k)"
  unfolding fetchHlsKey_def
  by (rule hasType_then [OF hasType_lift], rule resultOk_option, simp, simp,
      rule hasType_then [OF guardS_type], rule hasType_then [OF fetchS_type [OF assms]],
      rule hasType_lift, erule readBodyCapped_type)

lemma cachedKey_type: "backendErrors P env \<Longrightarrow> throwsOnly P (cachedKey env auth url cache k)"
  unfolding cachedKey_def
  by (auto split: option.split intro: typing hasType_then [OF fetchHlsKey_type])

lemma validateSegments_type: "throwsOnly P (validateSegments env base hosts sgs)"
  by (induction sgs arbitrary: hosts) (auto simp: Let_def intro!: typing hasType_then [OF guardS_type] intro: hasType_then)

lemma fetchOneSegment_type:
  assumes "backendErrors P env"
  shows "throwsOnly P (fetchOneSegment env auth url ms i p cache sg)"
proof (cases sg)
  case (Pair u key)
  have plainFile: "throwsOnly P (fileS (fetchToFile (beNet env) (beCwd env) (beWriteFails env) (Some segCap) auth u p))"
    using assms by (intro fileS_type fetchToFile_type) (auto simp: backendErrors_def)
  show ?thesis
  proof (cases key)
    case None
    then show ?thesis using Pair by (auto simp: fetchOneSegment_def intro!: hasType_then [OF plainFile] typing)
  next
    case (Some k)
    have tail: "throwsOnly P
        (thenS (netS (fetchResWithRetry (beNet env) (Some segCap) auth u)) (\<lambda>res.
         thenS (liftS (readBodyCapped res segCap)) (\<lambda>buf.
         thenS (liftS (decryptHlsSegment (beCipher env) buf b (ktIvHex k) (sequenceAt ms i))) (\<lambda>plain.
         thenS (writeS env p plain) (\<lambda>_. returnS (c, length buf))))))" for b c
      by (rule hasType_then [OF fetchS_type [OF assms]], rule hasType_then [OF hasType_lift], erule readBodyCapped_type,
          rule hasType_then [OF hasType_lift [OF decryptHlsSegment_type]],
          rule hasType_then [OF writeS_type [OF assms]], simp add: typing)
    show ?thesis using Pair Some tail
      by (auto simp: fetchOneSegment_def intro!: hasType_then [OF cachedKey_type [OF assms]])
  qed
qed

lemma fetchSegments_type:
  "backendErrors P env \<Longrightarrow> throwsOnly P (fetchSegments env auth url ms dir n i cache got sgs)"
  by (induction sgs arbitrary: i cache got)
    (auto simp: Let_def intro!: typing hasType_then [OF fetchOneSegment_type] hasType_then [OF throwsOnly_do]
      intro: hasType_then)

lemma concatSegments_type: "backendErrors P env \<Longrightarrow> throwsOnly P (concatSegments env auth url out ms segs dir)"
  unfolding concatSegments_def Let_def
  by (rule hasType_then [OF fetchSegments_type], assumption, rule hasType_then [OF writeS_type], assumption,
      rule hasType_then [OF runS_type]) (auto split: prod.split intro!: typing)

lemma mediaPlaylist_type: "backendErrors P env \<Longrightarrow> throwsOnly P (mediaPlaylist env auth url out text)"
  unfolding mediaPlaylist_def walkPlaylist_def
  by (rule hasType_then [OF hasType_lift [OF walkLines_type]])
    (auto intro!: typing hasType_then [OF validateSegments_type] hasType_then [OF mkdtempS_type]
      hasType_then [OF throwsOnly_do] concatSegments_type)

lemma manifestStep_type:
  assumes "backendErrors P env"
  shows "throwsOnly P (manifestStep env auth url out)"
  unfolding manifestStep_def
  by (rule hasType_then [OF netS_type [OF fetchText_type]], use assms in \<open>simp add: backendErrors_def\<close>,
      intro typing own hasType_then [OF throwsOnly_read] hasType_then [OF mediaPlaylist_type [OF assms]] TrueI)

lemma manifestLevels_type: "backendErrors P env \<Longrightarrow> throwsOnly P (manifestLevels k env auth own url out)"
proof (induction k arbitrary: own url)
  case (Suc k)
  then show ?case
    by (auto intro!: hasType_then [OF throwsOnly_do] hasType_then [OF hasType_finally [OF manifestStep_type]] typing
        split: manifestNext.split)
qed (simp add: typing)

lemma writeAuthHeaderConfig_type: "backendErrors P env \<Longrightarrow> throwsOnly P (writeAuthHeaderConfig env hs)"
proof (rule hasTypeI)
  fix s r s'
  assume env: "backendErrors P env" and run: "writeAuthHeaderConfig env hs s = (r, s')"
  have "throwsOnly P (thenS (writeS env p b) (\<lambda>_. returnS p))" for p b
    by (rule hasType_then [OF writeS_type [OF env]]) (simp add: typing)
  from run hasType_run [OF this] show "resultOk P (\<lambda>_. True) r"
    by (auto simp: writeAuthHeaderConfig_def Let_def other split: if_splits)
qed

lemma streamStep_type: "throwsOnly P (streamStep env url out config)"
  unfolding streamStep_def by (intro typing own hasType_then [OF runS_type] hasType_then [OF throwsOnly_do] TrueI)

lemma downloadStream_type: "backendErrors P env \<Longrightarrow> throwsOnly P (downloadStream env auth url out)"
proof -
  assume env: "backendErrors P env"
  have phase: "throwsOnly P (streamlinkPhase env auth url out)"
    unfolding streamlinkPhase_def
    by (auto split: option.split list.split
        intro!: streamStep_type hasType_then [OF writeAuthHeaderConfig_type [OF env]] typing)
  have "throwsOnly P (case r of Streamed p \<Rightarrow> returnS p | Fallback \<Rightarrow> manifestLevels (Suc MAX_DEPTH) env auth True url out)" for r
    by (cases r) (simp_all add: typing manifestLevels_type [OF env] del: manifestLevels.simps)
  then show ?thesis unfolding downloadStream_def downloadManifestFallback_def
    by (intro hasType_then [OF guardS_type] hasType_then [OF throwsOnly_do] hasType_then [OF phase])
qed

text \<open>The two tiers\<close>

lemma settle_type:
  "outcomeErrors P s \<Longrightarrow> outcomeErrors P (onFound m s)"
  "outcomeErrors P s \<Longrightarrow> P e \<Longrightarrow> outcomeErrors P (settle (Rejected e) s)"
  by (simp_all add: outcomeErrors_def settle_def)

lemma outcome_frame [simp]:
  "outcomeErrors P (s\<lparr>t1Candidates := c\<rparr>) = outcomeErrors P s" "outcomeErrors P (s\<lparr>t1Received := n\<rparr>) = outcomeErrors P s"
  "outcomeErrors P (s\<lparr>t1Headers := h\<rparr>) = outcomeErrors P s" "outcomeErrors P (s\<lparr>t1Waiting := w\<rparr>) = outcomeErrors P s"
  "outcomeErrors P (s\<lparr>t1Fall := b\<rparr>) = outcomeErrors P s" "outcomeErrors P (s\<lparr>t1Drm := b\<rparr>) = outcomeErrors P s"
  "outcomeErrors P (s\<lparr>t1Listener := b\<rparr>) = outcomeErrors P s" "outcomeErrors P (s\<lparr>t1Polls := k\<rparr>) = outcomeErrors P s"
  by (simp_all add: outcomeErrors_def)

lemma onBodyReply_type: "outcomeErrors P s \<Longrightarrow> outcomeErrors P (onBodyReply env i r s)"
  by (simp add: onBodyReply_def onManifestBody_def onMediaBody_def Let_def settle_type split: waiting.split option.split)

lemma onResponseReceived_type: "outcomeErrors P s \<Longrightarrow> outcomeErrors P (onResponseReceived env rid u ct st doc s)"
  by (simp add: onResponseReceived_def Let_def settle_type split: list.split prod.split)

lemma t1Step_type: "outcomeErrors P s \<Longrightarrow> outcomeErrors P (t1Step env ev s)"
  by (cases ev) (simp_all add: onBodyReply_type onResponseReceived_type settle_type onRequestWillBeSent_def
      onDataReceived_def onLoadingFinished_def onHeadersReply_def onAbort_def Let_def split: option.split waiting.split)

lemma interceptMedia_type:
  assumes "\<And>e. page = Inl e \<Longrightarrow> P e"
  shows "resultOk P (\<lambda>_. True) (interceptMedia env sig ab page)"
proof -
  have run: "outcomeErrors P s \<Longrightarrow> outcomeErrors P (foldl (\<lambda>s e. t1Step env e s) s evs)" for s evs
    by (induction evs arbitrary: s) (simp_all add: t1Step_type)
  have "outcomeErrors P (interceptEnd env sig ab evs)" for evs
    unfolding interceptEnd_def
    by (rule run) (simp add: interceptStart_def Let_def onAbort_def settle_type, simp add: outcomeErrors_def)
  then show ?thesis using assms
    by (cases page) (auto simp: interceptMedia_def outcomeErrors_def split: option.split outcome.split)
qed

lemma blobRound_type: "blobRound env ob = Some r \<Longrightarrow> resultOk P (\<lambda>_. True) r"
  by (auto simp: blobRound_def payloadResult_def lateTerminal_def split: if_splits option.splits payload.splits bool.splits)

lemma blobLoop_type: "blobLoop env i = Some r \<Longrightarrow> resultOk P (\<lambda>_. True) r"
  by (erule blobLoop_ends [THEN exE]) (auto simp: endsAt_def split: if_splits dest: blobRound_type)

lemma detectBlob_type: "snd (detectBlob env) = Some r \<Longrightarrow> resultOk P (\<lambda>_. True) r"
  by (auto simp: detectBlob_def split: if_splits dest: blobLoop_type)

text \<open>The orchestrator\<close>

lemma admit_type: "resultOk P (\<lambda>_. True) (admit env opts u d)"
proof -
  have m: "resultOk P (\<lambda>_. True) (mapErr plainErr r)" for r :: "string + 'x" by (cases r) simp_all
  show ?thesis
    unfolding admit_def verifyDiskSpace_def Let_def
    by (intro resultOk_bind [OF m]) (auto intro!: resultOk_bind [of _ "\<lambda>_. True"] split: option.split)
qed

lemma throwing_type: "resultOk P Q r \<Longrightarrow> hasType (stopErrors P) Q (throwing r)"
  by (cases r) (simp_all add: throwing_def hasType_def liftS_def stopErrors_def)

lemma failing_type: "(\<And>e. r = Some e \<Longrightarrow> P e) \<Longrightarrow> throwsOnly (stopErrors P) (failing r)"
  by (cases r) (simp_all add: failing_def hasType_def liftS_def stopErrors_def)

lemma backS_type: "throwsOnly P m \<Longrightarrow> throwsOnly (stopErrors P) (backS m)"
proof (rule hasTypeI)
  fix s r s'
  assume m: "throwsOnly P m" and run: "backS m s = (r, s')"
  obtain q b where q: "m (dBack s) = (q, b)" by (cases "m (dBack s)")
  from run q hasType_run [OF m q] show "resultOk (stopErrors P) (\<lambda>_. True) r"
    by (cases q) (auto simp: backS_def stopErrors_def)
qed

lemma logS_type: "throwsOnly Q (logS e)" "throwsOnly Q (phaseS opts p)" "throwsOnly Q (abortPoint env n)"
  by (simp_all add: logS_def phaseS_def abortPoint_def typing)

lemma detectS_type: "throwsOnly (stopErrors P) (detectS env opts)"
proof -
  have "resultOk P (\<lambda>_. True) q" if "snd (detectBlob (tier2Of env opts)) = Some q" for q
    using that by (rule detectBlob_type)
  then have "resultOk (stopErrors P) (\<lambda>_. True) (case snd (detectBlob (tier2Of env opts)) of
     None \<Rightarrow> Inl Hangs | Some (Inl e) \<Rightarrow> Inl (Throws e) | Some (Inr m) \<Rightarrow> Inr m)"
    by (auto simp: stopErrors_def split: option.split sum.split)
  then show ?thesis unfolding detectS_def by (rule hasType_lift)
qed

lemma tiersS_type:
  assumes "dlErrors P env"
  shows "throwsOnly (stopErrors P) (tiersS env opts u)"
proof -
  have "resultOk P (\<lambda>_. True) (intercept env opts u)"
    unfolding intercept_def using assms by (intro interceptMedia_type) (auto simp: dlErrors_def)
  note i = throwing_type [OF this]
  show ?thesis unfolding tiersS_def
    by (intro hasType_then [OF logS_type(2)] hasType_then [OF logS_type(1)] hasType_then [OF i]
        hasType_then [OF logS_type(3)] typing hasType_then [OF throwsOnly_do] detectS_type TrueI)
qed

lemma backend_opts: "backendErrors P (backOf env opts) = backendErrors P (deBack env)"
  by (simp add: backendErrors_def backOf_def)

lemma saveS_type:
  assumes "dlErrors P env"
  shows "throwsOnly (stopErrors P) (saveS env opts dir m)"
proof -
  have env: "backendErrors P (deBack env)" "backendErrors P (backOf env opts)"
    using assms by (simp_all add: backend_opts dlErrors_def)
  have w: "throwsOnly (stopErrors P) (throwing (Inl (dErr NETWORK_ERROR x)) :: unit dff)" for x
    by (rule throwing_type) simp
  show ?thesis unfolding saveS_def Let_def
    by (cases m) (auto intro!: w hasType_then [OF throwsOnly_do] hasType_then [OF logS_type(2)]
        hasType_then [OF logS_type(1)] backS_type writeS_type [OF env(1)]
        hasType_then [OF backS_type [OF downloadStream_type [OF env(2)]]] hasType_return)
qed

lemma bodyS_type:
  assumes "dlErrors P env"
  shows "hasType (stopErrors P) resultCode (bodyS env opts u dir)"
proof -
  have f: "throwsOnly (stopErrors P) (failing (deContext env))" "throwsOnly (stopErrors P) (failing (dePage env))"
    using assms by (auto simp: dlErrors_def intro: failing_type)
  show ?thesis unfolding bodyS_def
    by (intro hasType_then [OF f(1)] hasType_then [OF f(2)] hasType_then [OF throwsOnly_do]
        hasType_then [OF logS_type(1)] hasType_then [OF logS_type(3)] hasType_then [OF tiersS_type [OF assms]]
        hasType_then [OF saveS_type [OF assms]] hasType_then [OF throwsOnly_read] hasType_return)
      (simp add: resultCode_def)
qed

lemma launchS_type: "dlErrors P env \<Longrightarrow> throwsOnly (stopErrors P) (launchS env opts)"
  unfolding launchS_def
  by (rule hasType_then [OF failing_type], simp add: dlErrors_def)
    (intro hasType_then [OF logS_type(1)] typing logS_type TrueI)

end

text \<open>A contract under which every error has a public code.\<close>

locale public_contract = error_contract +
  assumes public_code: "P e \<Longrightarrow> isDownloaderError e \<Longrightarrow> publicCode (exnCode e)"
    and public_class: "P e \<Longrightarrow> classifyExn n e = Inr c \<Longrightarrow> publicCode c"
begin

lemma failS_type: "P e \<Longrightarrow> hasType (stopErrors P) resultCode (failS env e)"
  unfolding failS_def
  by (intro hasType_then [OF throwsOnly_do] hasType_then [OF throwsOnly_read])
    (auto simp: resultCode_def public_code public_class stackErr_def other
      intro!: hasType_return throwing_type split: sum.split thrown.split)

lemma catch_type:
  assumes "hasType (stopErrors P) Q m" "\<And>e. P e \<Longrightarrow> hasType (stopErrors P) Q (h e)"
  shows "hasType (stopErrors P) Q (finallyD (catchD m h) f)"
proof (rule hasTypeI)
  fix s r t
  assume "finallyD (catchD m h) f s = (r, t)"
  then obtain u where u: "catchD m h s = (r, u)" using finallyD_run by blast
  from handled_cases [OF u] show "resultOk (stopErrors P) Q r"
  proof (elim disjE exE conjE)
    fix e s' assume e: "m s = (Inl (Throws e), s')" "h e s' = (r, u)"
    from hasType_run [OF assms(1) e(1)] have "P e" by (simp add: stopErrors_def)
    from hasType_run [OF assms(2) [OF this] e(2)] show ?thesis .
  next
    fix x assume "r = Inr x" "m s = (Inr x, u)"
    with hasType_run [OF assms(1) this(2)] show ?thesis by simp
  qed (simp add: stopErrors_def)
qed

lemma download_type: "dlErrors P env \<Longrightarrow> hasType (stopErrors P) resultCode (download env opts u d)"
  unfolding download_def
  by (intro hasType_then [OF throwing_type [OF admit_type]] hasType_then [OF throwsOnly_do]
      hasType_then [OF launchS_type] catch_type bodyS_type failS_type)

end

section \<open>The errors of the program satisfy the contract\<close>

text \<open>Every \<open>DownloaderError\<close> a value carries, itself or among its causes, has a public code.\<close>

definition typedExn :: "exn \<Rightarrow> bool" where
  "typedExn e \<longleftrightarrow> wellCoded (xHeap e @ [xObj e])"

lemma typedExn_mkExn [simp]: "typedExn (mkExn k n m c) \<longleftrightarrow> (k = DownloaderErrorC \<longrightarrow> publicCode c)"
  by (simp add: typedExn_def mkExn_def wellCoded_def publicCode_def)

interpretation typed: public_contract typedExn
proof unfold_locales
  show "typedExn (e\<lparr>xStatus := s\<rparr>)" if "typedExn e" for e s
    using that by (simp add: typedExn_def)
  show "publicCode (exnCode e)" if "typedExn e" "isDownloaderError e" for e
    using that by (simp add: typedExn_def wellCoded_def isDownloaderError_def exnCode_def publicCode_def)
  show "publicCode c" if "typedExn e" "classifyExn n e = Inr c" for e n c
    using that classifyError_vocabulary by (simp add: typedExn_def classifyExn_def publicCode_def)
qed (simp_all add: dErr_def publicCode_def)

section \<open>Downloads that return\<close>

text \<open>The only routine that can hang is the polling loop.\<close>

lemma mapErr_returns: "resultOk (\<lambda>x. x \<noteq> Hangs) (\<lambda>_. True) (mapErr Throws z)"
  by (cases z) simp_all

lemma never_hangs:
  "hasType (\<lambda>x. x \<noteq> Hangs) (\<lambda>_. True) (throwing r)" "hasType (\<lambda>x. x \<noteq> Hangs) (\<lambda>_. True) (failing q)"
  "hasType (\<lambda>x. x \<noteq> Hangs) (\<lambda>_. True) (backS m)" "hasType (\<lambda>x. x \<noteq> Hangs) (\<lambda>_. True) (logS e)"
  "hasType (\<lambda>x. x \<noteq> Hangs) (\<lambda>_. True) (phaseS opts p)" "hasType (\<lambda>x. x \<noteq> Hangs) (\<lambda>_. True) (abortPoint env n)"
  by (simp_all add: throwing_def failing_def backS_def hasType_def liftS_def mapErr_returns logS_def phaseS_def
      abortPoint_def eff_defs split: prod.split option.split)

lemma bodyS_returns:
  assumes "snd (detectBlob (tier2Of env opts)) \<noteq> None"
  shows "throwsOnly (\<lambda>x. x \<noteq> Hangs) (bodyS env opts u dir)"
proof -
  note steps = never_hangs [THEN hasType_then] throwsOnly_do [THEN hasType_then] throwsOnly_read [THEN hasType_then]
  have d: "throwsOnly (\<lambda>x. x \<noteq> Hangs) (detectS env opts)"
    using assms by (auto simp: detectS_def hasType_def liftS_def split: option.split sum.split)
  have t: "throwsOnly (\<lambda>x. x \<noteq> Hangs) (tiersS env opts u)"
    unfolding tiersS_def by (intro steps typing d TrueI)
  have s: "throwsOnly (\<lambda>x. x \<noteq> Hangs) (saveS env opts dir m)" for m
    unfolding saveS_def Let_def by (cases m) (auto intro!: steps never_hangs hasType_return)
  show ?thesis unfolding bodyS_def by (intro steps hasType_then [OF t] hasType_then [OF s] typing TrueI)
qed

lemma download_no_hang:
  assumes "snd (detectBlob (tier2Of env opts)) \<noteq> None"
  shows "fst (download env opts u d s) \<noteq> Inl Hangs"
proof -
  have f: "throwsOnly (\<lambda>x. x \<noteq> Hangs) (failS env e)" for e
    unfolding failS_def
    by (auto intro!: never_hangs throwsOnly_do [THEN hasType_then] throwsOnly_read [THEN hasType_then] hasType_return
        split: sum.split thrown.split)
  have c: "throwsOnly (\<lambda>x. x \<noteq> Hangs) (finallyD (catchD (bodyS env opts v dir) (failS env)) g)" for v dir g
  proof (rule hasTypeI)
    fix s r t
    assume "finallyD (catchD (bodyS env opts v dir) (failS env)) g s = (r, t)"
    then obtain w where w: "catchD (bodyS env opts v dir) (failS env) s = (r, w)" using finallyD_run by blast
    from handled_cases [OF w] show "resultOk (\<lambda>x. x \<noteq> Hangs) (\<lambda>_. True) r"
      using hasType_run [OF bodyS_returns [OF assms]] hasType_run [OF f] by fastforce
  qed
  have l: "throwsOnly (\<lambda>x. x \<noteq> Hangs) (launchS env opts)"
    unfolding launchS_def by (intro never_hangs [THEN hasType_then] typing never_hangs TrueI)
  have "throwsOnly (\<lambda>x. x \<noteq> Hangs) (download env opts u d)"
    unfolding download_def
    by (intro never_hangs [THEN hasType_then] throwsOnly_do [THEN hasType_then] l [THEN hasType_then] c)
  then show ?thesis unfolding hasType_def by (metis resultOk_simps(1))
qed

section \<open>Properties\<close>





end
