(* ===== verification/Service.thy ===== *)
theory Service
  imports ErrorFlow
begin

text \<open>
  The whole service: the request handler of \<open>Server\<close> running the downloads of \<open>Downloader\<close>, seen from the
  other end of the connection. A reachable service is one whose settled downloads are runs of \<open>download\<close>
  on the request's own fields with the options the handler passes; its answers follow the contract in
  the head of \<open>server.js\<close>, name only files under the output base, and arrive as whole lines.
\<close>

section \<open>The handler's downloads\<close>

text \<open>\<open>BD_TIER1_TIMEOUT_MS\<close> and \<open>BD_TIER2_TIMEOUT_MS\<close> are read for every request; no other option is passed.\<close>

definition handlerOpts :: "jsprim \<Rightarrow> jsprim \<Rightarrow> req \<Rightarrow> dlOpts" where
  "handlerOpts t1 t2 r =
     \<lparr>doTier1 = Num (parseTimeout t1 DEFAULT_TIER1_TIMEOUT_MS), doTier2 = Num (parseTimeout t2 DEFAULT_TIER2_TIMEOUT_MS),
      doDownload = Undefined, doBodyCap = None, doSignal = True, doProgress = hrNdjson r\<rparr>"

text \<open>
  What the theorems below ask of the outside: the errors it raises carry no foreign \<open>DownloaderError\<close> code,
  \<open>realpath\<close> gives normalised absolute paths, the configured base is the directory \<open>bs\<close> whenever it
  exists, and the random name has no slash.
\<close>

definition realNormal :: "fsEnv \<Rightarrow> bool" where
  "realNormal fs \<longleftrightarrow> (\<forall>p r. realpath fs p = Some r \<longrightarrow> (\<exists>ds. cleanSegs ds \<and> r = renderAbs ds))"

definition outsideOk :: "string list \<Rightarrow> dlEnv \<Rightarrow> bool" where
  "outsideOk bs env \<longleftrightarrow> dlErrors typedExn env \<and> realNormal (deFs env) \<and> CHR ''/'' \<notin> set (deUuid env) \<and> cleanSegs bs
     \<and> (\<forall>b. realpath (deFs env) (baseDirOf (deFs env) Undefined) = Some b \<longrightarrow> b = renderAbs bs)"

definition producedBy :: "string list \<Rightarrow> jsprim \<Rightarrow> jsprim \<Rightarrow> req \<Rightarrow> exn + dlResult \<Rightarrow> bool" where
  "producedBy bs t1 t2 r outcome \<longleftrightarrow> (\<exists>env s. outsideOk bs env
     \<and> fst (download env (handlerOpts t1 t2 r) (Str (hrUrl r)) (Str (hrDir r)) s) = mapErr Throws outcome)"

inductive serves :: "svEnv \<Rightarrow> string list \<Rightarrow> jsprim \<Rightarrow> jsprim \<Rightarrow> server \<Rightarrow> bool" for env bs t1 t2 where
  init: "svInit env = Some s \<Longrightarrow> serves env bs t1 t2 s"
| settled: "serves env bs t1 t2 s \<Longrightarrow> svReqs s i = Some r \<Longrightarrow> producedBy bs t1 t2 r outcome \<Longrightarrow>
    serves env bs t1 t2 (svStep env (Settled i outcome) s)"
| other: "serves env bs t1 t2 s \<Longrightarrow> (\<And>i outcome. e \<noteq> Settled i outcome) \<Longrightarrow> serves env bs t1 t2 (svStep env e s)"

lemma serves_reach: "serves env bs t1 t2 s \<Longrightarrow> svReach env s"
  by (induction rule: serves.induct) (auto intro: svReach.intros simp del: svStep.simps)

section \<open>The contract of the answers\<close>

text \<open>Which body may come with which status.\<close>

definition apiReply :: "nat \<Rightarrow> json \<Rightarrow> bool" where
  "apiReply n v \<longleftrightarrow>
     n = 200 \<and> (\<exists>p t. (t = 1 \<or> t = 2)
       \<and> v = JObj [(''status'', JStr ''success''), (''file_path'', JStr p), (''tier_used'', tierJson t)])
   \<or> n = 400 \<and> (\<exists>m. v = JObj [(''status'', JStr ''failed''), (''error'', JStr ''invalid_request''), (''message'', JStr m)])
   \<or> n = 503 \<and> v = JObj [(''status'', JStr ''failed''), (''error'', JStr ''concurrency_limit'')]
   \<or> n = 502 \<and> (\<exists>c t. c \<in> set ERROR_CODES \<and> (t = JNull \<or> t = tierJson 1 \<or> t = tierJson 2)
       \<and> v = JObj [(''status'', JStr ''failed''), (''error'', JStr c), (''tier_used'', t)])"

text \<open>A file directly in a directory at or below the real output base, with a whitelisted extension.\<close>

definition insideBase :: "string list \<Rightarrow> string \<Rightarrow> bool" where
  "insideBase bs p \<longleftrightarrow> (\<exists>ds u ext. cleanSegs ds \<and> prefix bs ds \<and> ext \<in> set VIDEO_EXTS \<and> CHR ''/'' \<notin> set u
     \<and> p = renderAbs (ds @ [u @ ''.'' @ ext]))"

definition outcomeOk :: "string list \<Rightarrow> exn + dlResult \<Rightarrow> bool" where
  "outcomeOk bs = resultOk typedExn (\<lambda>r. case r of
     Success p t \<Rightarrow> insideBase bs p \<and> (t = 1 \<or> t = 2) | Failed c t \<Rightarrow> publicCode c \<and> (t = 1 \<or> t = 2))"

definition answerOk :: "string list \<Rightarrow> nat \<Rightarrow> answer \<Rightarrow> bool" where
  "answerOk bs n a \<longleftrightarrow> apiReply n (answerJson a) \<and> (\<forall>p t. a = Result (Success p t) \<longrightarrow> insideBase bs p)"

definition itemOk :: "string list \<Rightarrow> wireItem \<Rightarrow> bool" where
  "itemOk bs x \<longleftrightarrow> (case x of
     JsonResponse n a \<Rightarrow> answerOk bs n a
   | Line a \<Rightarrow> finalAnswer a \<longrightarrow> answerOk bs 200 a \<or> answerOk bs 502 a
   | EndOfStream \<Rightarrow> True)"

text \<open>Which labels a call of \<open>recordDownload\<close> may carry.\<close>

definition refusals :: "string list" where
  "refusals = [''invalid_request'', ''concurrency_limit'']"

definition recordOk :: "recordCall \<Rightarrow> bool" where
  "recordOk c \<longleftrightarrow>
     rcStatus c = ''success'' \<and> (rcTier c = Some 1 \<or> rcTier c = Some 2) \<and> rcError c = Null
   \<or> rcStatus c = ''failed'' \<and> (rcTier c = None \<or> rcTier c = Some 1 \<or> rcTier c = Some 2) \<and> rcError c \<in> Str ` set ERROR_CODES
   \<or> rcStatus c = ''failed'' \<and> rcTier c = None \<and> rcError c \<in> Str ` set refusals"

section \<open>Facts: what a download hands to the handler\<close>

lemma joinPath_root: "cleanSeg n \<Longrightarrow> joinPath (renderAbs []) n = renderAbs [n]"
proof -
  assume n: "cleanSeg n"
  then have "n \<noteq> []" "CHR ''/'' \<notin> set n" by (simp_all add: cleanSeg_def)
  then have sp: "splitOn CHR ''/'' n = [n]" by (simp add: splitOn_no_sep)
  have "last n \<noteq> CHR ''/''" using \<open>n \<noteq> []\<close> \<open>CHR ''/'' \<notin> set n\<close> by (metis last_in_set)
  then have "\<not> endsWith (CHR ''/'' # CHR ''/'' # n) ''/''" using \<open>n \<noteq> []\<close> by (simp add: endsWith_last)
  moreover have "normSegs False [[], [], n] = [n]" using n by (simp add: normSegs_def cleanSeg_def)
  ultimately show ?thesis using \<open>n \<noteq> []\<close>
    by (simp add: joinPath_def normalizePath_def renderAbs_def pathSegs_def sp Let_def)
qed

lemma joinPath_name: "cleanSegs ds \<Longrightarrow> cleanSeg n \<Longrightarrow> joinPath (renderAbs ds) n = renderAbs (ds @ [n])"
  by (cases "ds = []") (simp_all add: joinPath_root joinPath_clean)

lemma output_inside:
  assumes "snd (validateOutputDir fs d Undefined) = Inr dir" "realNormal fs" "ext \<in> set VIDEO_EXTS" "CHR ''/'' \<notin> set u"
    and base: "cleanSegs bs" "\<forall>b. realpath fs (baseDirOf fs Undefined) = Some b \<longrightarrow> b = renderAbs bs"
  shows "insideBase bs (joinPath dir (u @ ''.'' @ ext))"
proof -
  obtain calls where v: "validateOutputDir fs d Undefined = (calls, Inr dir)"
    using assms(1) by (metis prod.collapse)
  obtain b where b: "realpath fs (baseDirOf fs Undefined) = Some b" "isUnder dir b" using validateOutputDir_ok [OF v] by blast
  have "\<exists>p. realpath fs p = Some dir"
    using v by (auto simp: validateOutputDir_def Let_def split: jsprim.splits option.splits if_splits)
  then obtain ds where s: "cleanSegs ds" "dir = renderAbs ds"
    using assms(2) unfolding realNormal_def by metis
  have "prefix bs ds" using b base s isUnder_renderAbs [OF base(1) _ s(1)] by (cases "bs = []") auto
  have "CHR ''/'' \<notin> set ext" "2 \<le> length ext" using assms(3) by (auto simp: VIDEO_EXTS_def)
  have len: "u @ ''.'' @ ext \<noteq> w" if "length w \<le> 2" for w
  proof
    assume "u @ ''.'' @ ext = w"
    then have "length (u @ ''.'' @ ext) = length w" by simp
    with that \<open>2 \<le> length ext\<close> show False by simp
  qed
  have "u @ ''.'' @ ext \<noteq> ''.''" "u @ ''.'' @ ext \<noteq> ''..''" by (rule len; simp)+
  with \<open>CHR ''/'' \<notin> set ext\<close> have "cleanSeg (u @ ''.'' @ ext)" using assms(4) by (simp add: cleanSeg_def)
  then show ?thesis unfolding insideBase_def
    using s \<open>prefix bs ds\<close> assms(3,4) joinPath_name by metis
qed

lemma download_outcome:
  assumes env: "outsideOk bs env" and run: "fst (download env opts u d s) = mapErr Throws outcome"
  shows "outcomeOk bs outcome"
proof (cases outcome)
  case (Inl e)
  with run typed.download_type [of env opts u d] env show ?thesis
    by (auto simp: outcomeOk_def outsideOk_def hasType_def stopErrors_def dest!: spec [of _ s])
next
  case (Inr r)
  then obtain t where d: "download env opts u d s = (Inr r, t)" using run by (metis mapErr_simps(2) prod.collapse)
  have code: "resultCode r"
    using hasType_run [OF typed.download_type d] env by (simp add: outsideOk_def)
  from d obtain dir where a: "admit env opts u d = Inr dir" and l: "deLaunch env = None"
    by (auto simp: download_run split: sum.splits option.splits)
  let ?s = "afterLaunch env opts s"
  obtain c where c: "catchD (bodyS env opts (strOf u) dir) (failS env) ?s = (Inr r, c)"
    using d a l finallyD_run by (fastforce simp: download_run)
  have tier: "dTier ?s = 1" using afterLaunch_simps [OF l] by blast
  have dir: "snd (validateOutputDir (deFs env) d Undefined) = Inr dir" using admit_ok [OF a] by blast
  from handled_cases [OF c] consider (ok) "bodyS env opts (strOf u) dir ?s = (Inr r, c)"
    | (failed) e b where "bodyS env opts (strOf u) dir ?s = (Inl (Throws e), b)" "failS env e b = (Inr r, c)" by auto
  then show ?thesis
  proof cases
    case ok
    from bodyS_ok [OF this tier] obtain m p t where r: "r = Success p t" "mediaFrom env opts (strOf u) m t"
      "p = joinPath dir (deUuid env @ ''.'' @ safeExt (mediaExt m))" by blast
    have "insideBase bs p" unfolding r(3)
      using output_inside [OF dir] env safeExt_whitelisted by (simp add: outsideOk_def)
    with r Inr show ?thesis by (auto simp: outcomeOk_def mediaFrom_def)
  next
    case failed
    from failS_run [OF failed(2)] bodyS_tier [OF failed(1)] tier code Inr show ?thesis
      by (auto simp: outcomeOk_def resultCode_def)
  qed
qed

section \<open>Facts: what the server sends\<close>

lemma resultJson_ok: "outcomeOk bs (Inr r) \<Longrightarrow> answerOk bs (case r of Success p t \<Rightarrow> 200 | Failed c t \<Rightarrow> 502) (Result r)"
  by (cases r) (auto simp: outcomeOk_def answerOk_def apiReply_def publicCode_def objJson_def primJson_def)

lemma safeClassify_public: "typedExn e \<Longrightarrow> publicCode (safeClassifyExn n e)"
  using classifyError_vocabulary
  by (auto simp: typedExn_def safeClassifyExn_def safeClassify_def publicCode_def split: sum.split)

lemma failedWith_ok: "typedExn e \<Longrightarrow> answerOk bs 502 (FailedWith (safeClassifyExn n e))"
  using safeClassify_public [of e n] by (auto simp: answerOk_def apiReply_def publicCode_def objJson_def primJson_def)

lemma refusal_ok: "answerOk bs 400 (InvalidRequest m)" "answerOk bs 503 ConcurrencyLimit"
  by (simp_all add: answerOk_def apiReply_def)

definition sentOk :: "string list \<Rightarrow> server \<Rightarrow> bool" where
  "sentOk bs s \<longleftrightarrow> (\<forall>i r. svReqs s i = Some r \<longrightarrow> list_all (itemOk bs) (hrOut r)) \<and> list_all recordOk (svRecords s)"

lemma sentOk_put:
  "sentOk bs s \<Longrightarrow> list_all (itemOk bs) (hrOut r) \<Longrightarrow> list_all recordOk cs \<Longrightarrow> svReqs t = (svReqs s)(i \<mapsto> r) \<Longrightarrow>
   svRecords t = svRecords s @ cs \<Longrightarrow> sentOk bs t"
  by (simp add: sentOk_def)

lemma respond_items:
  "list_all (itemOk bs) (hrOut r) \<Longrightarrow> answerOk bs n a \<Longrightarrow> n = 200 \<or> n = 502 \<Longrightarrow> list_all (itemOk bs) (hrOut (respond n a r))"
  by (auto simp: respond_def jsonReply_def writeEvent_def endStream_def itemOk_def)

lemma writeEvent_items: "list_all (itemOk bs) (hrOut r) \<Longrightarrow> list_all (itemOk bs) (hrOut (writeEvent (ProgressLine ev) r))"
  by (simp add: writeEvent_def itemOk_def finalAnswer_def)

lemma refuse_sent:
  "sentOk bs s \<Longrightarrow> list_all (itemOk bs) (hrOut r) \<Longrightarrow> answerOk bs n a \<Longrightarrow> err \<in> set refusals \<Longrightarrow>
   sentOk bs (refuse i n err a r s)"
  by (rule sentOk_put [of bs s "finished (jsonReply n a r)" "[\<lparr>rcReq = i, rcStatus = ''failed'', rcTier = None,
      rcError = Str err, rcStart = hrStart r\<rparr>]" _ i])
    (simp_all add: refuse_def finished_def jsonReply_def recordFor_def itemOk_def recordOk_def)

lemma windUp_sent:
  assumes "sentOk bs s" "list_all (itemOk bs) (hrOut r)" "answerOk bs n a" "n = 200 \<or> n = 502"
    and "recordOk \<lparr>rcReq = i, rcStatus = st, rcTier = tier, rcError = err, rcStart = hrStart q\<rparr>"
  shows "sentOk bs (windUp i t (respond n a r) (recordFor i st tier err q s))"
  by (rule sentOk_put [OF assms(1) _ _, of "finished ((respond n a r)\<lparr>hrTimer := None, hrCancelled := True\<rparr>)"
        "[\<lparr>rcReq = i, rcStatus = st, rcTier = tier, rcError = err, rcStart = hrStart q\<rparr>]" _ i])
    (simp_all add: windUp_def finished_def recordFor_def respond_items [OF assms(2-4)] assms(5))

lemma settle_sent:
  assumes "sentOk bs s" "list_all (itemOk bs) (hrOut r)" "outcomeOk bs outcome"
  shows "sentOk bs (settleRace env i t outcome r s)"
proof (cases outcome)
  case (Inl e)
  with assms(3) have "typedExn e" by (simp add: outcomeOk_def)
  then have "publicCode (safeClassifyExn n e)" for n by (rule safeClassify_public)
  with failedWith_ok [OF \<open>typedExn e\<close>] Inl show ?thesis
    by (auto simp: settleRace_def Let_def recordOk_def publicCode_def intro!: windUp_sent assms(1,2))
next
  case (Inr x)
  with assms(3) resultJson_ok [of bs x] show ?thesis
    by (cases x) (auto simp: settleRace_def recordOk_def outcomeOk_def publicCode_def coalesce_def intro!: windUp_sent assms(1,2))
qed

lemma svStep_sent:
  assumes s: "sentOk bs s" and e: "\<And>i outcome. e = Settled i outcome \<Longrightarrow> outcomeOk bs outcome"
  shows "sentOk bs (svStep env e s)"
proof -
  have out: "list_all (itemOk bs) (hrOut r)" if "svReqs s i = Some r" for i r
    using s that by (simp add: sentOk_def)
  have put: "sentOk bs (putReq i q s)" if "svReqs s i = Some r" "hrOut q = hrOut r" for i q r
    using that out by (intro sentOk_put [OF s, of q "[]" _ i]) simp_all
  have new: "hrOut (newReq u d a n) = []" for u d a n by (simp add: newReq_def)
  have fresh: "sentOk bs (putReq i (newReq u d a n) s)" for i u d a n
    by (rule sentOk_put [OF s, of "newReq u d a n" "[]" _ i]) (simp_all add: new)
  have late: "outcomeOk bs (Inl (dErr TIMEOUT m))" for m by (simp add: outcomeOk_def typed.own(2))
  show ?thesis
  proof (cases e)
    case (Post i body accept start)
    then show ?thesis using s
      by (auto simp: onPost_def new refusal_ok refusals_def split: reqBody.split option.split intro!: refuse_sent fresh)
  next
    case (Checked i lookup fs)
    have run: "sentOk bs (putReq i q (s\<lparr>svSem := m\<rparr>))" if "svReqs s i = Some r" "hrOut q = hrOut r" for q m r
      using that out by (intro sentOk_put [OF s, of q "[]" _ i]) simp_all
    show ?thesis using Checked s
      by (auto simp: onChecked_def startRequest_def Let_def refusal_ok refusals_def out intro!: refuse_sent run
          split: option.split sum.split prod.split)
  next
    case (Settled i outcome)
    then show ?thesis using s e by (auto simp: onSettled_def out intro: settle_sent split: option.split phase.split)
  next
    case (TimeoutFires i)
    then show ?thesis using s by (auto simp: onTimeout_def out late intro!: settle_sent split: option.split phase.split)
  next
    case (Progress i ev)
    then show ?thesis using s
      by (auto simp: onProgress_def out writeEvent_items intro!: sentOk_put [OF s, of _ "[]" _ i] split: option.split)
  qed (use s in \<open>auto simp: onClose_def onResponseError_def Let_def intro: put split: option.split phase.split\<close>)
qed

lemma serves_sent: "serves env bs t1 t2 s \<Longrightarrow> sentOk bs s"
proof (induction rule: serves.induct)
  case (init s)
  then show ?case by (auto simp: svInit_def sentOk_def)
next
  case (settled s i r outcome)
  then show ?case by (intro svStep_sent) (auto simp: producedBy_def dest: download_outcome)
next
  case (other s e)
  then show ?case by (intro svStep_sent) auto
qed

text \<open>The labels of the counter; there are 22 combinations.\<close>

definition seriesOf :: "recordCall \<Rightarrow> metricLabels" where
  "seriesOf c = \<lparr>mStatus = rcStatus c, mTier = tierLabel (rcTier c), mError = errorLabel (errorText (rcError c))\<rparr>"

definition allSeries :: "metricLabels list" where
  "allSeries =
     map (\<lambda>t. \<lparr>mStatus = ''success'', mTier = tierLabel t, mError = errorLabel None\<rparr>) [Some 1, Some 2]
   @ concat (map (\<lambda>t. map (\<lambda>c. \<lparr>mStatus = ''failed'', mTier = tierLabel t, mError = errorLabel (Some c)\<rparr>) ERROR_CODES)
       [None, Some 1, Some 2])
   @ map (\<lambda>c. \<lparr>mStatus = ''failed'', mTier = tierLabel None, mError = errorLabel (Some c)\<rparr>) refusals"

lemma recordOk_series: "recordOk c \<Longrightarrow> seriesOf c \<in> set allSeries"
  unfolding recordOk_def by (elim disjE conjE imageE) (simp_all add: seriesOf_def allSeries_def errorText_def)

lemma allSeries_length: "length allSeries = 22"
  by (simp add: allSeries_def ERROR_CODES_def refusals_def)

section \<open>A sample service\<close>

text \<open>The handler's run of the sample download: the interceptor captures three bytes.\<close>

definition sampleReq :: req where
  "sampleReq = (newReq ''https://h/'' ''/output/job'' ''application/x-ndjson'' 0)
     \<lparr>hrPhase := Running 0, hrTypeSet := True, hrStreamOpen := True, hrTimer := Some DEFAULT_REQUEST_TIMEOUT_MS\<rparr>"

text \<open>The sample download over a file system without symbolic links.\<close>

definition plainFs :: fsEnv where
  "plainFs = \<lparr>realpath = (\<lambda>p. Some (resolvePath ''/srv'' p)), cwd = ''/srv'', envOutputBase = Undefined\<rparr>"

definition plainDl :: "t1Event list \<Rightarrow> dlEnv" where
  "plainDl evs = (sampleDl evs)\<lparr>deFs := plainFs\<rparr>"

lemma plainDl_fields [simp]:
  "deLaunch (plainDl evs) = None" "deContext (plainDl evs) = None" "dePage (plainDl evs) = None"
  "deAborted (plainDl evs) n = False" "deBack (plainDl evs) = sampleEnv []" "deUuid (plainDl evs) = ''id''"
  "deEvents (plainDl evs) = Inr evs" "deFs (plainDl evs) = plainFs"
  by (simp_all add: plainDl_def sampleDl_def)

abbreviation sampleHandler :: dlOpts where
  "sampleHandler \<equiv> handlerOpts Undefined Undefined sampleReq"

lemma sampleHandler_admit:
  "admit (plainDl evs) sampleHandler (Str ''https://h/'') (Str ''/output/job'') = Inr ''/output/job''"
proof -
  have o: "snd (validateOutputDir plainFs (Str ''/output/job'') Undefined) = Inr ''/output/job''" by code_simp
  from sampleDl_admit have "isOk (validateUrl (parseUrl (beNet (sampleEnv []))) (\<lambda>_. Some (DnsList [])) (Str ''https://h/''))"
    and "verifyDiskSpace (sampleDl evs) ''/output/job'' = Inr ()"
    by (auto simp: admit_def sampleDl_def bindR_Inr_iff mapErr_Inr_iff isOk_iff split: if_splits)
  with o show ?thesis
    by (auto simp: admit_def verifyDiskSpace_def plainDl_def sampleDl_def isOk_iff)
qed

lemma sampleHandler_video:
  "intercept (plainDl videoEvents) sampleHandler ''https://h/'' = Inr (Some (BytesMedia [97, 98, 99] (ExtString ''webm'')))"
proof -
  have c: "isCandidate ''https://h/v'' ''video/webm''" "\<not> reTest MANIFEST_RE ''https://h/v''" by code_simp+
  have x: "pickExtension p (Str ''https://h/v'') (Str ''video/webm'') = ExtString ''webm''" for p
  proof -
    have "contentTypeLookup (mediaType ''video/webm'') = Some (ExtString ''webm'')" by code_simp
    then show ?thesis by (simp add: pickExtension_def)
  qed
  show ?thesis
    by (simp add: intercept_def interceptMedia_def interceptEnd_def videoEvents_def interceptStart_def c x t1_ops
      tier1Of_def handlerOpts_def CANDIDATES_CAP_def bodyBytes_def toBytes_def code_def bytesOf_def dropAt_def om_del_def
      bodyCapOf_def DEFAULT_BODY_CAP_def)
qed

lemma sampleHandler_run:
  "fst (download (plainDl videoEvents) sampleHandler (Str ''https://h/'') (Str ''/output/job'') sampleDlStart)
     = mapErr Throws (Inr (Success ''/output/job/id.webm'' 1))"
proof -
  have j: "joinPath ''/output/job'' ''id.webm'' = ''/output/job/id.webm''" "safeExt (ExtString ''webm'') = ''webm''"
    "''webm'' \<in> set VIDEO_EXTS" by code_simp+
  let ?s = "afterLaunch (plainDl videoEvents) sampleHandler sampleDlStart"
  have s: "dTier ?s = 1" using afterLaunch_simps [of "plainDl videoEvents" sampleHandler sampleDlStart] by simp
  obtain b where b: "tiersS (plainDl videoEvents) sampleHandler ''https://h/'' (bodyStart (plainDl videoEvents) ?s)
      = (Inr (BytesMedia [97, 98, 99] (ExtString ''webm'')), b)" "dTier b = 1"
    using s by (simp add: tiersS_def eff_run phaseS_run logS_def throwing_def sampleHandler_video abortPoint_def)
  obtain c where "saveS (plainDl videoEvents) sampleHandler ''/output/job'' (BytesMedia [97, 98, 99] (ExtString ''webm'')) b = (Inr (), c)"
      "dOut c = Some ''/output/job/id.webm''" "dTier c = 1"
    using b(2) by (simp add: saveS_def Let_def eff_run phaseS_run backS_def writeS_def writeFileAt_def mediaExt_def j)
  with b show ?thesis
    by (simp add: download_run sampleHandler_admit bodyS_run catchD_def finallyD_def)
qed

lemma plainDl_ok: "outsideOk [''output''] (plainDl evs)"
proof -
  have b: "cleanSegs [''output'']" "resolvePath ''/srv'' (baseDirOf plainFs Undefined) = renderAbs [''output'']"
    by code_simp+
  have "dlErrors typedExn (plainDl evs)"
    by (simp add: dlErrors_def backendErrors_def netErrors_def bodyErrors_def sampleEnv_def plainDl_def sampleDl_def)
  moreover have "realNormal plainFs" using resolvePath_clean by (auto simp: realNormal_def plainFs_def)
  moreover have "realpath plainFs p = Some (resolvePath ''/srv'' p)" for p by (simp add: plainFs_def)
  ultimately show ?thesis using b by (simp add: outsideOk_def)
qed

definition sampleNd1 :: server where
  "sampleNd1 = svStep sampleSv (Checked 7 sampleDns sampleFs)
     (svStep sampleSv (Post 7 (Fields (Some ''https://h/'') (Some ''/output/job'')) ''application/x-ndjson'' 0) sampleSv0)"

definition sampleNd2 :: server where
  "sampleNd2 = svStep sampleSv (Settled 7 (Inr (Success ''/output/job/id.webm'' 1)))
     (svStep sampleSv (Progress 7 (phaseJson ''intercepting'')) sampleNd1)"

lemma sampleAccept [simp]: "strIncludes ''application/x-ndjson'' ''application/x-ndjson''"
  by code_simp

lemma sampleNd1_req: "svReqs sampleNd1 7 = Some sampleReq"
proof -
  have t: "parseTimeout Undefined DEFAULT_REQUEST_TIMEOUT_MS = DEFAULT_REQUEST_TIMEOUT_MS"
    by (simp add: parseTimeout_def isInteger_def)
  have "checkInputs sampleSv sampleDns sampleFs (newReq ''https://h/'' ''/output/job'' a 0) = Inr ()" for a
    using sampleSv_checks by (simp add: checkInputs_def newReq_def)
  then show ?thesis
    by (simp add: sampleNd1_def onChecked_def startRequest_def Let_def acquire_def sampleSv0_def onPost_def putReq_def)
      (simp add: sampleReq_def newReq_def sampleSv_def t)
qed

definition sampleDone :: "wireItem list" where
  "sampleDone = [Line (ProgressLine (phaseJson ''intercepting'')), Line (Result (Success ''/output/job/id.webm'' 1)), EndOfStream]"

lemma sampleNd2_req: "\<exists>r. svReqs sampleNd2 7 = Some r \<and> hrOut r = sampleDone"
  using sampleNd1_req
  by (simp add: sampleNd2_def onProgress_def onSettled_def settleRace_def windUp_def finished_def respond_def canRespond_def
      writeEvent_def endStream_def sampleReq_def newReq_def recordFor_def sampleDone_def)

lemma sampleNd2_serves: "serves sampleSv [''output''] Undefined Undefined sampleNd2"
proof -
  have one: "serves sampleSv [''output''] Undefined Undefined sampleNd1"
    unfolding sampleNd1_def by (intro serves.other serves.init sampleSv_init) simp_all
  let ?p = "svStep sampleSv (Progress 7 (phaseJson ''intercepting'')) sampleNd1"
  have "\<exists>r. svReqs ?p 7 = Some r \<and> handlerOpts Undefined Undefined r = sampleHandler \<and> hrUrl r = ''https://h/'' \<and> hrDir r = ''/output/job''"
    using sampleNd1_req by (simp add: onProgress_def writeEvent_def handlerOpts_def sampleReq_def newReq_def)
  then obtain r where r: "svReqs ?p 7 = Some r" "handlerOpts Undefined Undefined r = sampleHandler"
    "hrUrl r = ''https://h/''" "hrDir r = ''/output/job''" by blast
  have "producedBy [''output''] Undefined Undefined r (Inr (Success ''/output/job/id.webm'' 1))"
    unfolding producedBy_def r using plainDl_ok sampleHandler_run by blast
  then show ?thesis unfolding sampleNd2_def
    by (intro serves.settled [OF serves.other [OF one] r(1)]) simp_all
qed

section \<open>Properties\<close>

text \<open>C6: The answers are well typed: whatever clients, timers and downloads do, a body sent with status 200, 400, 503
  or 502 is the object the contract gives for that status, and the final line of a stream is a success or a
  failure of a download; a failure names one of the six public error codes, whatever was thrown.\<close>

theorem service_replies_typed:
  assumes "serves env bs t1 t2 s" "svReqs s i = Some r"
  shows "list_all (\<lambda>x. case x of
      JsonResponse n a \<Rightarrow> apiReply n (answerJson a)
    | Line a \<Rightarrow> (\<exists>ev. a = ProgressLine ev) \<or> apiReply 200 (answerJson a) \<or> apiReply 502 (answerJson a)
    | EndOfStream \<Rightarrow> True) (hrOut r)"
proof -
  have "list_all (itemOk bs) (hrOut r)" using serves_sent [OF assms(1)] assms(2) by (simp add: sentOk_def)
  then show ?thesis
    by (rule list.pred_mono_strong) (auto simp: itemOk_def answerOk_def finalAnswer_def split: wireItem.splits)
qed

theorem service_replies_typed_witness:
  "apiReply 200 (answerJson (Result (Success ''/output/job/id.webm'' 1)))
   \<or> apiReply 502 (answerJson (Result (Success ''/output/job/id.webm'' 1)))"
proof -
  obtain r where r: "svReqs sampleNd2 7 = Some r" "hrOut r = sampleDone" using sampleNd2_req by blast
  from service_replies_typed [OF sampleNd2_serves r(1)] show ?thesis unfolding r(2) by (simp add: sampleDone_def)
qed

text \<open>C7: End to end, a success names only a file of the output base: the path a client reads is a file directly in
  a directory at or below the real path of the configured base, named by the server, with a video extension.\<close>

theorem service_success_inside:
  assumes "serves env bs t1 t2 s" "svReqs s i = Some r"
    and "JsonResponse n (Result (Success p t)) \<in> set (hrOut r) \<or> Line (Result (Success p t)) \<in> set (hrOut r)"
  shows "\<exists>ds u ext. cleanSegs ds \<and> prefix bs ds \<and> ext \<in> set VIDEO_EXTS \<and> CHR ''/'' \<notin> set u \<and> p = renderAbs (ds @ [u @ ''.'' @ ext])"
proof -
  have "list_all (itemOk bs) (hrOut r)" using serves_sent [OF assms(1)] assms(2) by (simp add: sentOk_def)
  with assms(3) have "itemOk bs (JsonResponse n (Result (Success p t))) \<or> itemOk bs (Line (Result (Success p t)))"
    unfolding list_all_iff by blast
  then have "insideBase bs p" by (auto simp: itemOk_def answerOk_def)
  then show ?thesis unfolding insideBase_def .
qed

theorem service_success_inside_witness:
  "\<exists>ds u ext. cleanSegs ds \<and> prefix [''output''] ds \<and> ext \<in> set VIDEO_EXTS \<and> CHR ''/'' \<notin> set u
     \<and> ''/output/job/id.webm'' = renderAbs (ds @ [u @ ''.'' @ ext])"
proof -
  obtain r where r: "svReqs sampleNd2 7 = Some r" "hrOut r = sampleDone" using sampleNd2_req by blast
  show ?thesis by (rule service_success_inside [OF sampleNd2_serves r(1), of 0 _ 1]) (simp add: r(2) sampleDone_def)
qed

text \<open>C14: Framing: a reader who splits a finished stream at line feeds gets the progress events in order, then the
  final answer, and nothing after it; no event is cut and none is glued to another.\<close>

theorem stream_framing:
  assumes "svReach env s" "svReqs s i = Some r" "EndOfStream \<in> set (hrOut r)" "\<And>n. lineFeed \<notin> set (showN n)"
  shows "\<exists>evs a. hrOut r = map (\<lambda>ev. Line (ProgressLine ev)) evs @ [Line a, EndOfStream] \<and> finalAnswer a
    \<and> streamLines (wireText showN (hrOut r)) = map (stringify showN) evs @ [stringify showN (answerJson a), []]"
proof -
  have inv: "reqInv r" using svReach_ok [OF assms(1)] assms(2) by (simp add: reqsOk_def)
  have "\<not> progressOnly (hrOut r)" using assms(3) by (auto simp: progressOnly_def)
  with inv have "completeOut (hrOut r)" by (cases "hrPhase r") (auto simp: reqInv_def split: if_splits)
  with assms(3) obtain ps a where out: "hrOut r = ps @ [Line a, EndOfStream]" "progressOnly ps" "finalAnswer a"
    by (auto simp: completeOut_def)
  obtain evs where evs: "ps = map Line (map ProgressLine evs)" using progressOnly_map [OF out(2)] by blast
  have "wireText showN (hrOut r) = wireText showN (map Line (map ProgressLine evs @ [a])) @ []"
    by (simp add: out(1) evs wireText_def)
  then have "streamLines (wireText showN (hrOut r))
      = map (\<lambda>a. stringify showN (answerJson a)) (map ProgressLine evs @ [a]) @ streamLines []"
    by (simp only: wireText_lines [OF assms(4)])
  then show ?thesis using out evs by (intro exI [of _ evs] exI [of _ a]) (simp add: streamLines_def)
qed

theorem stream_framing_witness:
  "\<exists>evs a. sampleDone = map (\<lambda>ev. Line (ProgressLine ev)) evs @ [Line a, EndOfStream]
    \<and> streamLines (wireText (\<lambda>_. ''1'') sampleDone) = map (stringify (\<lambda>_. ''1'')) evs @ [stringify (\<lambda>_. ''1'') (answerJson a), []]"
proof -
  obtain r where r: "svReqs sampleNd2 7 = Some r" "hrOut r = sampleDone" using sampleNd2_req by blast
  have "lineFeed \<notin> set ''1''" by (simp add: lineFeed_def)
  with stream_framing [OF serves_reach [OF sampleNd2_serves] r(1), of "\<lambda>_. ''1''"] show ?thesis
    unfolding r(2) by (auto simp: sampleDone_def)
qed



text \<open>When the registry fails, the JSON body of the failure goes out under the registry's own content type, which
  was set before the text was asked for.\<close>

lemma metrics_failure_content_type:
  "onMetrics ct None = \<lparr>grStatus = 500, grType = Some ct,
     grBody = JsonBody (JObj [(''status'', JStr ''failed''), (''error'', JStr ''metrics_error'')])\<rparr>"
  by (simp add: onMetrics_def)

end
