(* ===== verification/Launch.thy ===== *)
theory Launch
  imports Downloader
begin

text \<open>
  \<open>launchStealthBrowser\<close> of \<open>downloader.js\<close> with the state it keeps between downloads: the promise
  \<open>stealthReady\<close>, which the first call that gets so far makes and every later call awaits. The two
  packages it imports are arguments of the model: whether each import and the launch itself throw.
  \<open>Downloader\<close> leaves the outcome of the launch open (\<open>deLaunch\<close>); here a series of downloads gets it
  from this function.
\<close>

section \<open>The launcher\<close>

text \<open>
  One call: whether the import of \<open>playwright-extra\<close>, the import and use of the stealth plugin, and
  \<open>chromium.launch\<close> throw.
\<close>

record launchEnv =
  laCore :: "exn option"
  laPlugin :: "exn option"
  laChromium :: "exn option"

text \<open>
  \<open>lnReady\<close> is \<open>stealthReady\<close>: not made yet, fulfilled (\<open>Some None\<close>) or rejected. \<open>lnUses\<close> counts the
  calls of \<open>chromium.use\<close>.
\<close>

record launcher =
  lnReady :: "exn option option"
  lnUses :: nat

definition launcherInit :: launcher where
  "launcherInit = \<lparr>lnReady = None, lnUses = 0\<rparr>"

definition registerPlugin :: "launchEnv \<Rightarrow> launcher \<Rightarrow> launcher" where
  "registerPlugin la lch = (case lnReady lch of Some r \<Rightarrow> lch
     | None \<Rightarrow> (case laPlugin la of
           Some e \<Rightarrow> lch\<lparr>lnReady := Some (Some e)\<rparr>
         | None \<Rightarrow> lch\<lparr>lnReady := Some None, lnUses := Suc (lnUses lch)\<rparr>))"

text \<open>The error the call throws, if it throws one.\<close>

definition launchStealthBrowser :: "launchEnv \<Rightarrow> launcher \<Rightarrow> exn option \<times> launcher" where
  "launchStealthBrowser la lch = (case laCore la of Some e \<Rightarrow> (Some e, lch)
     | None \<Rightarrow>
         (let lch1 = registerPlugin la lch
          in case lnReady lch1 of
               Some (Some e) \<Rightarrow> (Some e, lch1)
             | _ \<Rightarrow> (laChromium la, lch1)))"

section \<open>Downloads that share it\<close>

record dlCall =
  dcLaunch :: launchEnv
  dcEnv :: dlEnv
  dcOpts :: dlOpts
  dcUrl :: jsprim
  dcDir :: jsprim
  dcState :: dl

text \<open>One download: the launch is reached when the request is admitted.\<close>

definition downloadWith :: "dlCall \<Rightarrow> launcher \<Rightarrow> (stop + dlResult) \<times> launcher" where
  "downloadWith c lch = (case admit (dcEnv c) (dcOpts c) (dcUrl c) (dcDir c) of
     Inl e \<Rightarrow> (Inl (Throws e), lch)
   | Inr dir \<Rightarrow> (case launchStealthBrowser (dcLaunch c) lch of (failure, lch1) \<Rightarrow>
       (fst (download ((dcEnv c)\<lparr>deLaunch := failure\<rparr>) (dcOpts c) (dcUrl c) (dcDir c) (dcState c)), lch1)))"

fun downloads :: "dlCall list \<Rightarrow> launcher \<Rightarrow> (stop + dlResult) list \<times> launcher" where
  "downloads [] lch = ([], lch)"
| "downloads (c # cs) lch = (case downloadWith c lch of (r, lch1) \<Rightarrow>
     (case downloads cs lch1 of (rs, lch2) \<Rightarrow> (r # rs, lch2)))"

section \<open>Facts\<close>

lemma admit_launch [simp]: "admit (env\<lparr>deLaunch := x\<rparr>) opts u d = admit env opts u d"
  by (simp add: admit_def verifyDiskSpace_def)

lemma registerPlugin_once:
  assumes "lnUses lch \<le> (if lnReady lch = Some None then 1 else 0)"
  shows "lnUses (registerPlugin la lch) \<le> (if lnReady (registerPlugin la lch) = Some None then 1 else 0)"
  using assms by (auto simp: registerPlugin_def split: option.split)

lemma launch_register: "snd (launchStealthBrowser la lch) = lch \<or> snd (launchStealthBrowser la lch) = registerPlugin la lch"
  by (auto simp: launchStealthBrowser_def Let_def split: option.split)

lemma downloadWith_launcher:
  "snd (downloadWith c lch) = lch \<or> snd (downloadWith c lch) = registerPlugin (dcLaunch c) lch"
  using launch_register [of "dcLaunch c" lch] by (auto simp: downloadWith_def split: sum.split prod.split)

lemma downloads_launcher:
  assumes "\<And>la lch. P lch \<Longrightarrow> P (registerPlugin la lch)"
  shows "P lch \<Longrightarrow> P (snd (downloads cs lch))"
proof (induction cs arbitrary: lch)
  case (Cons c cs)
  have "P (snd (downloadWith c lch))" using downloadWith_launcher [of c lch] Cons.prems assms by auto
  then show ?case using Cons.IH [of "snd (downloadWith c lch)"] by (auto split: prod.splits)
qed simp

section \<open>Properties\<close>

text \<open>However many downloads run, the plugin is registered at most once.\<close>

theorem plugin_registered_once: "lnUses (snd (downloads cs launcherInit)) \<le> 1"
proof -
  have "lnUses (snd (downloads cs launcherInit)) \<le> (if lnReady (snd (downloads cs launcherInit)) = Some None then 1 else 0)"
    by (rule downloads_launcher [where P = "\<lambda>lch. lnUses lch \<le> (if lnReady lch = Some None then 1 else 0)"])
      (simp_all add: registerPlugin_once launcherInit_def)
  then show ?thesis by (simp split: if_splits)
qed

text \<open>
  A registration that fails is never tried again: the rejected promise stays in \<open>stealthReady\<close>, so
  from then on every admitted download throws, whatever the later imports would do.
\<close>

lemma failed_launch:
  assumes "lnReady lch = Some (Some e)"
  shows "(\<exists>x. fst (downloadWith c lch) = Inl (Throws x)) \<and> lnReady (snd (downloadWith c lch)) = Some (Some e)"
proof -
  have r: "registerPlugin la lch = lch" for la using assms by (simp add: registerPlugin_def)
  have l: "\<exists>x. launchStealthBrowser (dcLaunch c) lch = (Some x, lch)"
    using assms by (auto simp: launchStealthBrowser_def Let_def r split: option.split)
  show ?thesis
  proof (cases "admit (dcEnv c) (dcOpts c) (dcUrl c) (dcDir c)")
    case (Inl x)
    then show ?thesis using assms by (simp add: downloadWith_def)
  next
    case (Inr dir)
    then show ?thesis using l assms by (auto simp: downloadWith_def download_run)
  qed
qed

theorem failed_registration_is_final:
  "lnReady lch = Some (Some e) \<Longrightarrow> \<forall>r\<in>set (fst (downloads cs lch)). \<exists>x. r = Inl (Throws x)"
proof (induction cs arbitrary: lch)
  case (Cons c cs)
  obtain r lch1 where d: "downloadWith c lch = (r, lch1)" by fastforce
  have "\<exists>x. r = Inl (Throws x)" "lnReady lch1 = Some (Some e)" using failed_launch [OF Cons.prems, of c] d by simp_all
  then show ?case using Cons.IH [of lch1] d by (auto split: prod.split)
qed simp

text \<open>One import of the plugin that fails, and then all goes well: the second download throws the first one's error.\<close>

theorem one_failure_disables:
  assumes "\<And>c. c \<in> {c1, c2} \<Longrightarrow> admit (dcEnv c) (dcOpts c) (dcUrl c) (dcDir c) = Inr dir"
    and "dcLaunch c1 = \<lparr>laCore = None, laPlugin = Some e, laChromium = None\<rparr>"
    and "dcLaunch c2 = \<lparr>laCore = None, laPlugin = None, laChromium = None\<rparr>"
  shows "fst (downloads [c1, c2] launcherInit) = [Inl (Throws e), Inl (Throws e)]"
  using assms by (simp add: downloadWith_def download_run launchStealthBrowser_def registerPlugin_def launcherInit_def)

end
