(* ===== verification/Session.thy ===== *)
theory Session
  imports Tier1
begin

text \<open>
  The CDP session of one interception (\<open>tier1-cdp.js\<close>): it is opened, prepared, used by the event
  machine of \<open>Tier1\<close> and detached, whichever of these steps throws. \<open>Tier1\<close> sees the set-up as one step
  that may throw; this theory refines it.
\<close>

section \<open>The session\<close>

text \<open>
  What the browser does: whether opening the session, \<open>Network.enable\<close> and adding the script throw, the
  events that follow, and whether the session is already gone when it is to be detached, so that
  \<open>detach\<close> throws.
\<close>

record cdpEnv =
  ceOpen :: "exn option"
  ceEnable :: "exn option"
  ceScript :: "exn option"
  ceEvents :: "t1Event list"
  ceGone :: bool

text \<open>\<open>csAttached\<close>: the session is attached; \<open>csCalls\<close> counts the calls of \<open>detach\<close>.\<close>

record cdpSession =
  csAttached :: bool
  csCalls :: nat

definition detach :: "bool \<Rightarrow> cdpSession \<Rightarrow> bool \<times> cdpSession" where
  "detach gone s = (gone, s\<lparr>csAttached := False, csCalls := Suc (csCalls s)\<rparr>)"

text \<open>\<open>safeDetach\<close> forgets whether \<open>detach\<close> threw.\<close>

definition safeDetach :: "bool \<Rightarrow> cdpSession \<Rightarrow> cdpSession" where
  "safeDetach gone s = snd (detach gone s)"

text \<open>\<open>interceptMedia\<close> with its session; \<open>None\<close> in the second place: there never was one.\<close>

definition interceptSession ::
  "tier1Env \<Rightarrow> bool \<Rightarrow> bool \<Rightarrow> cdpEnv \<Rightarrow> (exn + media option) \<times> cdpSession option" where
  "interceptSession env hasSignal aborted ce =
     (case ceOpen ce of Some e \<Rightarrow> (Inl e, None)
      | None \<Rightarrow>
          (let client = \<lparr>csAttached = True, csCalls = 0\<rparr>;
               done = Some (safeDetach (ceGone ce) client)
           in case ceEnable ce of Some e \<Rightarrow> (Inl e, done)
              | None \<Rightarrow> (case ceScript ce of Some e \<Rightarrow> (Inl e, done)
                 | None \<Rightarrow> (case t1Outcome (interceptEnd env hasSignal aborted (ceEvents ce)) of
                       Some (Resolved r) \<Rightarrow> (Inr r, done)
                     | Some (Rejected e) \<Rightarrow> (Inl e, done)
                     | None \<Rightarrow> (Inr None, Some client)))))"

text \<open>The page as \<open>Tier1\<close> sees it.\<close>

definition pageOf :: "cdpEnv \<Rightarrow> exn + t1Event list" where
  "pageOf ce = (case ceOpen ce of Some e \<Rightarrow> Inl e | None \<Rightarrow>
     (case ceEnable ce of Some e \<Rightarrow> Inl e | None \<Rightarrow> (case ceScript ce of Some e \<Rightarrow> Inl e | None \<Rightarrow> Inr (ceEvents ce))))"

section \<open>Properties\<close>

text \<open>
  No session leaks: whatever throws and whatever the page does, a session that was opened is detached
  exactly once, a failing \<open>detach\<close> changes nothing, and the caller sees the answer of \<open>interceptMedia\<close>.
\<close>

theorem session_detached_once:
  "fst (interceptSession env sg ab ce) = interceptMedia env sg ab (pageOf ce) \<and>
   (case snd (interceptSession env sg ab ce) of
      None \<Rightarrow> ceOpen ce \<noteq> None
    | Some s \<Rightarrow> ceOpen ce = None \<and> \<not> csAttached s \<and> csCalls s = 1)"
proof -
  obtain r where "t1Outcome (interceptEnd env sg ab (ceEvents ce)) = Some r"
    using interceptEnd_settled [of env sg ab "ceEvents ce"] by blast
  then show ?thesis
    by (simp add: interceptSession_def interceptMedia_def pageOf_def safeDetach_def detach_def Let_def
        split: option.split outcome.split)
qed

end
