(* ===== verification/Rows.thy ===== *)
theory Rows
  imports JsNumber "HOL-Library.Multiset"
begin

text \<open>
  The rows of the dashboard's download list (\<open>dashboard.js\<close>): how a job's data becomes a row, how
  an update and a progress report change it, where it is placed, and the texts it shows. A row
  holds what the script reads or writes of its element; the icons and the classes that only style
  or animate it (\<open>fade-in\<close>, \<open>status-changed\<close>) are not part of it.
\<close>

section \<open>Data\<close>

text \<open>
  The data of an event, as the server's JSON gives them: a field is a string, or absent
  (\<open>None\<close>: missing or \<open>null\<close>); numbers are JavaScript numbers.
\<close>

record progressData =
  gpPercent :: "jsnum option"
  gpEta :: "jsnum option"

record jobData =
  jdId :: string
  jdUrl :: "string option"
  jdTitle :: "string option"
  jdStatus :: "string option"
  jdCreated :: "string option"
  jdUpdated :: "string option"
  jdSortKey :: "jsnum option"
  jdProgress :: "progressData option"

record badge =
  bgSuffix :: string
  bgLabel :: string

text \<open>
  \<open>rwJob\<close> is \<open>dataset.jobId\<close>; \<open>rwSort\<close> is the number that \<open>parseFloat(dataset.sortKey || '0')\<close>
  reads; \<open>rwSave\<close> the address of the save link and whether it is displayed; \<open>rwDelete\<close> the
  address of the delete button; \<open>rwBar\<close> the width last given to the progress bar, in per cent;
  \<open>rwEta\<close> the text of the element beside it.
\<close>

record row =
  rwJob :: "string option"
  rwOptimistic :: bool
  rwText :: string
  rwTime :: string
  rwBadge :: "badge option"
  rwSave :: "(string \<times> bool) option"
  rwDelete :: string
  rwSort :: jsnum
  rwBar :: "jsnum option"
  rwEta :: "string option"

text \<open>
  What the script takes from its surroundings: the labels of known statuses, the parser of dates
  (the time value in milliseconds, \<open>None\<close> for an invalid date) and \<open>toLocaleDateString\<close>.
\<close>

record pageEnv =
  peKnown :: "string \<Rightarrow> string option"
  peParseDate :: "string \<Rightarrow> int option"
  peLocale :: "int \<Rightarrow> string"

text \<open>\<open>a || b\<close> on optional strings: the empty string counts as absent.\<close>

definition strOr :: "string option \<Rightarrow> string \<Rightarrow> string" where
  "strOr a b = (case a of None \<Rightarrow> b | Some s \<Rightarrow> if s = [] then b else s)"

section \<open>Status\<close>

definition normalizeStatus :: "string option \<Rightarrow> string" where
  "normalizeStatus status = (let raw = trim (strOr status ''unknown'') in if raw = [] then ''unknown'' else raw)"

definition isSlug :: "char \<Rightarrow> bool" where
  "isSlug c \<longleftrightarrow> (97 \<le> code c \<and> code c \<le> 122) \<or> isDigit c"

text \<open>\<open>replace(/[^a-z0-9]+/g, '-')\<close>\<close>

function dashRuns :: "string \<Rightarrow> string" where
  "dashRuns [] = []"
| "dashRuns (c # s) = (if isSlug c then c # dashRuns s
     else CHR ''-'' # dashRuns (dropWhile (\<lambda>d. \<not> isSlug d) s))"
  by pat_completeness auto
termination
  by (relation "measure length") (auto simp: le_imp_less_Suc length_dropWhile_le)

text \<open>\<open>replace(/^-+|-+$/g, '')\<close>\<close>

definition trimDashes :: "string \<Rightarrow> string" where
  "trimDashes s = rev (dropWhile (\<lambda>c. c = CHR ''-'') (rev (dropWhile (\<lambda>c. c = CHR ''-'') s)))"

definition statusClassSuffix :: "string option \<Rightarrow> string" where
  "statusClassSuffix status =
     (let s = trimDashes (dashRuns (toLower (normalizeStatus status))) in if s = [] then ''unknown'' else s)"

definition createStatusBadge :: "pageEnv \<Rightarrow> string option \<Rightarrow> badge" where
  "createStatusBadge env status = (let normalized = normalizeStatus status in
     \<lparr>bgSuffix = statusClassSuffix (Some normalized),
      bgLabel = strOr (peKnown env (toLower normalized)) normalized\<rparr>)"

section \<open>Texts\<close>

definition msText :: "int \<Rightarrow> string \<Rightarrow> string" where
  "msText n unit = showNat (nat n) @ unit @ '' ago''"

text \<open>Time values are whole milliseconds, so the floors of the quotients are those of integers.\<close>

definition formatRelativeTime :: "pageEnv \<Rightarrow> int \<Rightarrow> string option \<Rightarrow> string" where
  "formatRelativeTime env now dateString =
     (case dateString of None \<Rightarrow> ''Just now''
      | Some ds \<Rightarrow>
          if ds = [] then ''Just now''
          else (case peParseDate env ds of None \<Rightarrow> ''Just now''
            | Some t \<Rightarrow>
                (let sec = (now - t) div 1000 in
                 if sec < 10 then ''Just now''
                 else if sec < 60 then msText sec ''s''
                 else (let mins = sec div 60 in
                   if mins < 60 then msText mins ''m''
                   else (let hr = mins div 60 in
                     if hr < 24 then msText hr ''h''
                     else (let day = hr div 24 in
                       if day < 7 then msText day ''d'' else peLocale env t))))))"

definition getDownloadTitle :: "jobData \<Rightarrow> row \<Rightarrow> string" where
  "getDownloadTitle data r = trim (strOr (jdTitle data) (strOr (jdUrl data) (rwText r)))"

definition getVisibleDownloadTitle :: "row \<Rightarrow> jobData \<Rightarrow> string" where
  "getVisibleDownloadTitle r data = trim (strOr (Some (rwText r)) (strOr (jdTitle data) (strOr (jdUrl data) [])))"

text \<open>\<open>encodeURIComponent\<close>: a code unit from 128 on is two bytes of UTF-8.\<close>

definition uriUnreserved :: "char \<Rightarrow> bool" where
  "uriUnreserved c \<longleftrightarrow> (isWordChar c \<or> c \<in> set ''-.!~*()'' \<or> code c = 39)"

definition percentByte :: "nat \<Rightarrow> string" where
  "percentByte n = CHR ''%'' # toUpper (padStart 2 (CHR ''0'') (showHex n))"

definition encodeURIComponent :: "string \<Rightarrow> string" where
  "encodeURIComponent s = concat (map (\<lambda>c.
     if uriUnreserved c then [c]
     else if code c < 128 then percentByte (code c)
     else percentByte (192 + code c div 64) @ percentByte (128 + code c mod 64)) s)"

definition jobPath :: "string \<Rightarrow> string" where
  "jobPath jobId = ''/web/downloads/'' @ encodeURIComponent jobId"

section \<open>The row factory\<close>

definition createDownloadRow :: "pageEnv \<Rightarrow> int \<Rightarrow> jobData \<Rightarrow> row" where
  "createDownloadRow env now data =
     (let titleText = strOr (jdTitle data) (strOr (jdUrl data) []);
          status = normalizeStatus (jdStatus data)
      in \<lparr>rwJob = Some (jdId data), rwOptimistic = False, rwText = titleText,
          rwTime = formatRelativeTime env now (jdCreated data),
          rwBadge = Some (createStatusBadge env (Some status)),
          rwSave = (if toLower status = ''completed'' then Some (jobPath (jdId data) @ ''/file'', True) else None),
          rwDelete = jobPath (jdId data), rwSort = Fin 0, rwBar = None, rwEta = None\<rparr>)"

text \<open>The updated row, and the announcement when the status it shows has changed.\<close>

definition updateDownloadRow :: "pageEnv \<Rightarrow> int \<Rightarrow> row \<Rightarrow> jobData \<Rightarrow> row \<times> string option" where
  "updateDownloadRow env now r data =
     (let nextStatus = normalizeStatus (jdStatus data);
          nxt = toLower nextStatus;
          statusChanged = (case rwBadge r of None \<Rightarrow> False | Some b \<Rightarrow> toLower (trim (bgLabel b)) \<noteq> nxt);
          r1 = (case rwBadge r of None \<Rightarrow> r | Some _ \<Rightarrow> r\<lparr>rwBadge := Some (createStatusBadge env (jdStatus data))\<rparr>);
          title = getVisibleDownloadTitle r1 data;
          visible = strOr (map_option (\<lambda>b. trim (bgLabel b)) (rwBadge r1)) nextStatus;
          said = (if statusChanged \<and> title \<noteq> [] then Some (title @ '' - '' @ visible) else None);
          r2 = (case jdUpdated data of None \<Rightarrow> r1
                 | Some u \<Rightarrow> if u = [] then r1 else r1\<lparr>rwTime := formatRelativeTime env now (Some u)\<rparr>);
          r3 = (if nxt = ''completed'' then
                  (case rwSave r2 of Some (href, _) \<Rightarrow> r2\<lparr>rwSave := Some (href, True)\<rparr>
                   | None \<Rightarrow> r2\<lparr>rwSave := Some (jobPath (jdId data) @ ''/file'', True)\<rparr>)
                else (case rwSave r2 of Some (href, _) \<Rightarrow> r2\<lparr>rwSave := Some (href, False)\<rparr> | None \<Rightarrow> r2))
      in (r3, said))"

section \<open>Progress\<close>

text \<open>\<open>Math.min\<close>, and the text of a number that is an integer or not finite.\<close>

definition numMin :: "jsnum \<Rightarrow> jsnum \<Rightarrow> jsnum" where
  "numMin a b = (if a = NaN \<or> b = NaN then NaN else if a \<le> b then a else b)"

definition showNum :: "jsnum \<Rightarrow> string" where
  "showNum a = (case a of NaN \<Rightarrow> ''NaN'' | PosInf \<Rightarrow> ''Infinity'' | NegInf \<Rightarrow> ''-Infinity''
     | Fin x \<Rightarrow> (let i = \<lfloor>x\<rfloor> in if i < 0 then CHR ''-'' # showNat (nat (- i)) else showNat (nat i)))"

text \<open>\<open>Math.floor(eta / 60)\<close> and \<open>Math.round(eta % 60)\<close>; \<open>%\<close> keeps the sign of its left operand.\<close>

definition etaMinutes :: "jsnum \<Rightarrow> jsnum" where
  "etaMinutes eta = (case eta of
     Fin x \<Rightarrow> (case roundDouble (x / 60) of Fin q \<Rightarrow> ofInt \<lfloor>q\<rfloor> | r \<Rightarrow> r) | a \<Rightarrow> a)"

definition etaSeconds :: "jsnum \<Rightarrow> jsnum" where
  "etaSeconds eta = (case eta of
     Fin x \<Rightarrow> ofInt \<lfloor>x - 60 * of_int (if 0 \<le> x then \<lfloor>x / 60\<rfloor> else \<lceil>x / 60\<rceil>) + 1 / 2\<rfloor> | _ \<Rightarrow> NaN)"

definition etaText :: "jsnum \<Rightarrow> string" where
  "etaText eta = showNum (etaMinutes eta) @ ''m '' @ showNum (etaSeconds eta) @ ''s''"

definition updateDownloadProgress :: "row \<Rightarrow> progressData \<Rightarrow> row" where
  "updateDownloadProgress r p =
     (if rwBar r = None \<and> rwBadge r = None then r
      else
        (let r1 = (if rwBar r = None
                   then r\<lparr>rwBar := Some (Fin 0), rwEta := (if gpEta p \<noteq> None then Some [] else rwEta r)\<rparr> else r);
             r2 = (case gpPercent p of None \<Rightarrow> r1 | Some v \<Rightarrow> r1\<lparr>rwBar := Some (numMin v (Fin 100))\<rparr>)
         in (case (rwEta r2, gpEta p) of (Some _, Some e) \<Rightarrow> r2\<lparr>rwEta := Some (etaText e)\<rparr> | _ \<Rightarrow> r2)))"

section \<open>Placing a row\<close>

definition sortKey :: "pageEnv \<Rightarrow> int \<Rightarrow> jobData \<Rightarrow> jsnum" where
  "sortKey env now data =
     (case jdSortKey data of Some k \<Rightarrow> k
      | None \<Rightarrow>
          (case jdCreated data of
             None \<Rightarrow> roundDouble (of_int now / 1000)
           | Some c \<Rightarrow>
               if c = [] then roundDouble (of_int now / 1000)
               else (case peParseDate env c of None \<Rightarrow> NaN | Some t \<Rightarrow> roundDouble (of_int t / 1000))))"

fun placeRow :: "row \<Rightarrow> row list \<Rightarrow> row list" where
  "placeRow r [] = [r]"
| "placeRow r (x # xs) = (if rwSort x < rwSort r then r # x # xs else x # placeRow r xs)"

definition insertRowSorted :: "pageEnv \<Rightarrow> int \<Rightarrow> row \<Rightarrow> jobData \<Rightarrow> row list \<Rightarrow> row list" where
  "insertRowSorted env now r data rows = placeRow (r\<lparr>rwSort := sortKey env now data\<rparr>) rows"

section \<open>Facts\<close>

lemma mset_placeRow: "mset (placeRow r xs) = add_mset r (mset xs)"
  by (induction xs) auto

lemma set_placeRow [simp]: "set (placeRow r xs) = insert r (set xs)"
  by (induction xs) auto

text \<open>The keys that compare with others, in the order of the rows.\<close>

definition keyed :: "row list \<Rightarrow> row list" where
  "keyed rows = filter (\<lambda>r. rwSort r \<noteq> NaN) rows"

definition newestFirst :: "row list \<Rightarrow> bool" where
  "newestFirst rows \<longleftrightarrow> sorted_wrt (\<lambda>a b. rwSort b \<le> rwSort a) (keyed rows)"

lemma num_trans: "(a :: jsnum) \<le> b \<Longrightarrow> b \<le> c \<Longrightarrow> a \<le> c"
  by (cases a; cases b; cases c) (simp_all add: less_eq_jsnum_def)

lemma num_total: "(a :: jsnum) \<noteq> NaN \<Longrightarrow> b \<noteq> NaN \<Longrightarrow> \<not> a < b \<longleftrightarrow> b \<le> a"
  by (simp add: less_jsnum_def less_eq_jsnum_def)

lemma num_less_le: "(a :: jsnum) < b \<Longrightarrow> a \<le> b"
  by (cases a; cases b) (simp_all add: less_eq_jsnum_def less_jsnum_def)

lemma newestFirst_placeRow: "newestFirst xs \<Longrightarrow> newestFirst (placeRow r xs)"
proof (induction xs)
  case Nil
  then show ?case by (simp add: newestFirst_def keyed_def)
next
  case (Cons x xs)
  show ?case
  proof (cases "rwSort x < rwSort r")
    case True
    then have "rwSort x \<le> rwSort r" "rwSort x \<noteq> NaN" "rwSort r \<noteq> NaN"
      by (simp_all add: num_less_le less_jsnum_def)
    with Cons.prems True show ?thesis
      by (auto simp: newestFirst_def keyed_def intro: num_trans)
  next
    case False
    from Cons.prems have "newestFirst xs" by (auto simp: newestFirst_def keyed_def split: if_splits)
    note IH = Cons.IH [OF this]
    have "rwSort r \<le> rwSort x" if "rwSort r \<noteq> NaN" "rwSort x \<noteq> NaN"
      using False num_total that by blast
    with False IH Cons.prems show ?thesis by (auto simp: newestFirst_def keyed_def)
  qed
qed

text \<open>The new row stands after every row whose key is not smaller, so equal keys keep their order.\<close>

lemma placeRow_split:
  "\<exists>us vs. xs = us @ vs \<and> placeRow r xs = us @ r # vs \<and> (\<forall>u\<in>set us. \<not> rwSort u < rwSort r) \<and>
     (vs = [] \<or> rwSort (hd vs) < rwSort r)"
proof (induction xs)
  case (Cons x xs)
  show ?case
  proof (cases "rwSort x < rwSort r")
    case True
    then show ?thesis by (intro exI [of _ "[]"] exI [of _ "x # xs"]) simp
  next
    case False
    from Cons.IH obtain us vs where "xs = us @ vs" "placeRow r xs = us @ r # vs"
      "\<forall>u\<in>set us. \<not> rwSort u < rwSort r" "vs = [] \<or> rwSort (hd vs) < rwSort r" by blast
    with False show ?thesis by (intro exI [of _ "x # us"] exI [of _ vs]) simp
  qed
qed simp

text \<open>The suffix of a status is a slug: letters, digits and single inner dashes.\<close>

fun slugShape :: "string \<Rightarrow> bool" where
  "slugShape [] = True"
| "slugShape [c] = (isSlug c \<or> c = CHR ''-'')"
| "slugShape (c # d # s) = ((isSlug c \<or> c = CHR ''-'' \<and> isSlug d) \<and> slugShape (d # s))"

definition isSuffix :: "string \<Rightarrow> bool" where
  "isSuffix s \<longleftrightarrow> s \<noteq> [] \<and> hd s \<noteq> CHR ''-'' \<and> last s \<noteq> CHR ''-'' \<and> slugShape s"

lemma dash_no_slug [simp]: "\<not> isSlug (CHR ''-'')"
  by code_simp

lemma slugShape_Cons: "isSlug c \<Longrightarrow> slugShape s \<Longrightarrow> slugShape (c # s)"
  by (cases s) auto

lemma slugShape_tl: "slugShape (c # s) \<Longrightarrow> slugShape s"
  by (cases s) auto

lemma slugShape_dash: "slugShape s \<Longrightarrow> s = [] \<or> isSlug (hd s) \<Longrightarrow> slugShape (CHR ''-'' # s)"
  by (cases s) auto

lemma dropWhile_hd: "dropWhile P s = [] \<or> \<not> P (hd (dropWhile P s))"
  by (cases "dropWhile P s = []") (simp_all add: hd_dropWhile)

lemma dashRuns_shape: "slugShape (dashRuns s) \<and> (s \<noteq> [] \<and> isSlug (hd s) \<longrightarrow> isSlug (hd (dashRuns s)))"
proof (induction s rule: dashRuns.induct)
  case (2 c s)
  show ?case
  proof (cases "isSlug c")
    case True
    with 2 show ?thesis by (simp add: slugShape_Cons)
  next
    case False
    have "dashRuns (dropWhile (\<lambda>d. \<not> isSlug d) s) = [] \<or> isSlug (hd (dashRuns (dropWhile (\<lambda>d. \<not> isSlug d) s)))"
      using 2(2) [OF False] dropWhile_hd [of "\<lambda>d. \<not> isSlug d" s] by (metis dashRuns.simps(1))
    with 2(2) [OF False] False show ?thesis by (simp add: slugShape_dash)
  qed
qed simp

lemma slugShape_dropWhile: "slugShape s \<Longrightarrow> slugShape (dropWhile P s)"
proof (induction s)
  case (Cons c s)
  then show ?case using slugShape_tl [of c s] by simp
qed simp

lemma slugShape_take: "slugShape (s @ t) \<Longrightarrow> slugShape s"
  by (induction s rule: slugShape.induct) (auto split: list.splits simp: neq_Nil_conv elim: slugShape.elims)

lemma trimDashes_shape:
  assumes "slugShape s" "trimDashes s \<noteq> []"
  shows "isSuffix (trimDashes s)"
proof -
  let ?P = "\<lambda>c. c = CHR ''-''"
  let ?u = "dropWhile ?P s" and ?v = "dropWhile ?P (rev (dropWhile ?P s))"
  have v: "trimDashes s = rev ?v" by (simp add: trimDashes_def)
  then have ne: "?v \<noteq> []" using assms(2) by simp
  have split: "?u = rev ?v @ rev (takeWhile ?P (rev ?u))"
    by (metis rev_append rev_rev_ident takeWhile_dropWhile_id)
  have "slugShape ?u" using assms(1) by (rule slugShape_dropWhile)
  then have shape: "slugShape (rev ?v)" using split slugShape_take by metis
  have "hd ?v \<noteq> CHR ''-''" using dropWhile_hd [of ?P "rev ?u"] ne by blast
  then have last: "last (rev ?v) \<noteq> CHR ''-''" using ne by (simp add: last_rev)
  have "?u \<noteq> []"
  proof
    assume "?u = []"
    then show False using ne by (simp only: rev.simps dropWhile.simps)
  qed
  then have "hd ?u \<noteq> CHR ''-''" using dropWhile_hd [of ?P s] by blast
  moreover have "hd ?u = hd (rev ?v)" using split ne by (metis hd_append2 rev_is_Nil_conv)
  ultimately show ?thesis unfolding v isSuffix_def using shape last ne by simp
qed

lemma statusClassSuffix_slug: "isSuffix (statusClassSuffix status)"
proof -
  have u: "isSuffix ''unknown''" by code_simp
  show ?thesis
    using trimDashes_shape [OF conjunct1 [OF dashRuns_shape], of "toLower (normalizeStatus status)"] u
    by (simp add: statusClassSuffix_def Let_def)
qed

lemma slug_chars: "isSlug c \<Longrightarrow> lowerChar c = c \<and> \<not> isSpace c"
  by (auto simp: isSlug_def isDigit_def isSpace_def lowerChar_def Let_def)

lemma slugShape_set: "slugShape s \<Longrightarrow> c \<in> set s \<Longrightarrow> isSlug c \<or> c = CHR ''-''"
  by (induction s rule: slugShape.induct) auto

lemma dashRuns_id: "slugShape s \<Longrightarrow> dashRuns s = s"
  by (induction s rule: slugShape.induct) auto

lemma trimDashes_id: "s \<noteq> [] \<Longrightarrow> hd s \<noteq> CHR ''-'' \<Longrightarrow> last s \<noteq> CHR ''-'' \<Longrightarrow> trimDashes s = s"
proof -
  assume a: "s \<noteq> []" "hd s \<noteq> CHR ''-''" "last s \<noteq> CHR ''-''"
  have keep: "dropWhile (\<lambda>c. c = CHR ''-'') t = t" if "t \<noteq> []" "hd t \<noteq> CHR ''-''" for t
    using that by (cases t) auto
  show ?thesis using a keep [of s] keep [of "rev s"] by (simp add: trimDashes_def hd_rev)
qed

text \<open>A suffix is itself a status with that suffix.\<close>

lemma statusClassSuffix_idem: "isSuffix s \<Longrightarrow> statusClassSuffix (Some s) = s"
proof -
  assume s: "isSuffix s"
  then have parts: "s \<noteq> []" "hd s \<noteq> CHR ''-''" "last s \<noteq> CHR ''-''" "slugShape s" by (simp_all add: isSuffix_def)
  have dash: "lowerChar (CHR ''-'') = CHR ''-''" "\<not> isSpace (CHR ''-'')" by code_simp+
  have "\<forall>c\<in>set s. lowerChar c = c \<and> \<not> isSpace c" using slugShape_set [OF parts(4)] slug_chars dash by blast
  then have "trim s = s" "toLower s = s"
    by (simp_all add: trim_no_space toLower_def map_idI)
  then show ?thesis
    using parts by (simp add: statusClassSuffix_def normalizeStatus_def strOr_def dashRuns_id trimDashes_id)
qed

lemma div_parts:
  assumes "(0::int) < u"
  shows "a div u * u \<le> a" "a < a div u * u + u"
  using div_mult_mod_eq [of a u] pos_mod_bound [OF assms, of a] pos_mod_sign [OF assms, of a] by linarith+

lemma div_less_mult: "(0::int) < u \<Longrightarrow> a div u < k \<longleftrightarrow> a < k * u"
proof
  assume u: "0 < u" and "a div u < k"
  then have "(a div u + 1) * u \<le> k * u" by (intro mult_right_mono) auto
  with div_parts(2) [OF u, of a] show "a < k * u" by (simp add: distrib_right)
next
  assume u: "0 < u" and "a < k * u"
  with div_parts(1) [OF u, of a] have "a div u * u < k * u" by linarith
  with u show "a div u < k" by simp
qed

lemma formatRelativeTime_eq:
  assumes "peParseDate env ds = Some t" "ds \<noteq> []" "sec = (now - t) div 1000"
  shows "formatRelativeTime env now (Some ds) =
    (if sec < 10 then ''Just now'' else if sec < 60 then msText sec ''s''
     else if sec < 3600 then msText (sec div 60) ''m''
     else if sec < 86400 then msText (sec div 3600) ''h''
     else if sec < 604800 then msText (sec div 86400) ''d'' else peLocale env t)"
proof -
  have d: "sec div 60 div 60 = sec div 3600" "sec div 3600 div 24 = sec div 86400"
    by (simp_all add: zdiv_zmult2_eq [symmetric])
  have l: "sec div 60 < 60 \<longleftrightarrow> sec < 3600" "sec div 3600 < 24 \<longleftrightarrow> sec < 86400" "sec div 86400 < 7 \<longleftrightarrow> sec < 604800"
    using div_less_mult [of 60 sec 60] div_less_mult [of 3600 sec 24] div_less_mult [of 86400 sec 7] by simp_all
  show ?thesis using assms unfolding formatRelativeTime_def
    by (simp add: Let_def d l assms(3) [symmetric] del: assms(3))
qed

lemma div_count:
  assumes "(0::int) < secs" "secs \<le> sec" "sec < int limit * secs"
  shows "0 < nat (sec div secs) \<and> nat (sec div secs) < limit \<and>
    int (nat (sec div secs)) * secs \<le> sec \<and> sec < (int (nat (sec div secs)) + 1) * secs"
proof -
  have q: "1 \<le> sec div secs" using assms(1,2) by (simp add: pos_imp_zdiv_pos_iff int_one_le_iff_zero_less)
  moreover have "sec div secs < int limit" using assms(1,3) by (simp add: div_less_mult)
  moreover have "int (nat (sec div secs)) = sec div secs" using q by simp
  ultimately show ?thesis using div_parts [OF assms(1), of sec] by (simp add: distrib_right)
qed

section \<open>Properties\<close>

text \<open>A new row is placed by its key: among the rows whose keys can be compared (\<open>NaN\<close>, an invalid
  date, cannot) newest first is kept, no row is lost or doubled, and the rows keep their order
  with the new one after all that are not older.
\<close>

theorem insertRowSorted_orders:
  assumes "newestFirst rows"
  shows "newestFirst (insertRowSorted env now r data rows) \<and>
    (\<exists>us vs. rows = us @ vs \<and>
       insertRowSorted env now r data rows = us @ r\<lparr>rwSort := sortKey env now data\<rparr> # vs \<and>
       (\<forall>u\<in>set us. \<not> rwSort u < sortKey env now data))"
  using newestFirst_placeRow [OF assms] placeRow_split [of rows "r\<lparr>rwSort := sortKey env now data\<rparr>"]
  by (simp add: insertRowSorted_def) metis

definition samplePage :: pageEnv where
  "samplePage = \<lparr>peKnown = (\<lambda>s. if s = ''pending'' then Some ''Pending'' else None),
     peParseDate = (\<lambda>s. if s = ''d'' then Some 1000 else None), peLocale = (\<lambda>_. ''Jan 1'')\<rparr>"

definition sampleJob :: "string \<Rightarrow> string \<Rightarrow> jsnum option \<Rightarrow> jobData" where
  "sampleJob i u k = \<lparr>jdId = i, jdUrl = Some u, jdTitle = None, jdStatus = Some ''pending'', jdCreated = None,
     jdUpdated = None, jdSortKey = k, jdProgress = None\<rparr>"

definition sampleRow :: "string \<Rightarrow> string \<Rightarrow> jsnum \<Rightarrow> row" where
  "sampleRow i u k = (createDownloadRow samplePage 0 (sampleJob i u (Some k)))\<lparr>rwSort := k\<rparr>"

theorem insertRowSorted_orders_witness:
  "newestFirst (insertRowSorted samplePage 0 (sampleRow ''c'' ''u'' (Fin 0)) (sampleJob ''c'' ''u'' (Some (Fin 4)))
     [sampleRow ''a'' ''v'' (Fin 5), sampleRow ''n'' ''v'' NaN, sampleRow ''b'' ''w'' (Fin 3)])"
  using insertRowSorted_orders [of "[sampleRow ''a'' ''v'' (Fin 5), sampleRow ''n'' ''v'' NaN, sampleRow ''b'' ''w'' (Fin 3)]"]
  by (simp add: newestFirst_def keyed_def sampleRow_def)

text \<open>
  The age of a row: a date less than ten seconds old (or in the future) reads \<open>Just now\<close>, one
  less than a week old reads as a count of its unit, rounded down and below the unit's limit, and
  an older one as a calendar date.
\<close>

theorem formatRelativeTime_correct:
  assumes "peParseDate env ds = Some t" "ds \<noteq> []" "sec = (now - t) div 1000"
  shows "if sec < 10 then formatRelativeTime env now (Some ds) = ''Just now''
    else if 604800 \<le> sec then formatRelativeTime env now (Some ds) = peLocale env t
    else \<exists>n unit secs limit. (unit, secs, limit) \<in> {(''s'', 1, 60), (''m'', 60, 60), (''h'', 3600, 24), (''d'', 86400, 7)} \<and>
      formatRelativeTime env now (Some ds) = showNat n @ unit @ '' ago'' \<and>
      0 < n \<and> n < limit \<and> int n * secs \<le> sec \<and> sec < (int n + 1) * secs"
proof (cases "10 \<le> sec \<and> sec < 604800")
  case False
  then show ?thesis using formatRelativeTime_eq [OF assms] by auto
next
  case True
  note eq = formatRelativeTime_eq [OF assms]
  have unit: "\<exists>n unit secs limit. (unit, secs, limit) \<in> {(''s'', 1, 60), (''m'', 60, 60), (''h'', 3600, 24), (''d'', 86400, 7)} \<and>
      formatRelativeTime env now (Some ds) = showNat n @ unit @ '' ago'' \<and>
      0 < n \<and> n < limit \<and> int n * secs \<le> sec \<and> sec < (int n + 1) * secs"
    if "(unit, secs, limit) \<in> {(''s'', 1, 60), (''m'', 60, 60), (''h'', 3600, 24), (''d'', 86400, 7)}"
      "formatRelativeTime env now (Some ds) = msText (sec div secs) unit" "0 < secs" "secs \<le> sec" "sec < int limit * secs"
    for unit secs limit
    using that(1,2) div_count [OF that(3-5)] unfolding msText_def by blast
  consider "sec < 60" | "60 \<le> sec \<and> sec < 3600" | "3600 \<le> sec \<and> sec < 86400" | "86400 \<le> sec" by linarith
  then have "\<exists>n unit secs limit. (unit, secs, limit) \<in> {(''s'', 1, 60), (''m'', 60, 60), (''h'', 3600, 24), (''d'', 86400, 7)} \<and>
      formatRelativeTime env now (Some ds) = showNat n @ unit @ '' ago'' \<and>
      0 < n \<and> n < limit \<and> int n * secs \<le> sec \<and> sec < (int n + 1) * secs"
  proof cases
    case 1
    then show ?thesis using True by (intro unit [of "''s''" 1 60]) (simp_all add: eq)
  next
    case 2
    then show ?thesis by (intro unit [of "''m''" 60 60]) (simp_all add: eq)
  next
    case 3
    then show ?thesis by (intro unit [of "''h''" 3600 24]) (simp_all add: eq)
  next
    case 4
    then show ?thesis using True by (intro unit [of "''d''" 86400 7]) (simp_all add: eq)
  qed
  then show ?thesis using True by simp
qed

theorem formatRelativeTime_correct_witness:
  "formatRelativeTime samplePage 3601000 (Some ''d'') = ''1h ago'' \<and>
   (\<exists>n unit secs limit. (unit, secs, limit) \<in> {(''s'', 1, 60), (''m'', 60, 60), (''h'', 3600, 24), (''d'', 86400, 7)} \<and>
      formatRelativeTime samplePage 3601000 (Some ''d'') = showNat n @ unit @ '' ago'' \<and>
      0 < n \<and> n < limit \<and> int n * secs \<le> 3600 \<and> 3600 < (int n + 1) * secs)"
proof -
  have d: "peParseDate samplePage ''d'' = Some 1000" "''d'' \<noteq> []" "(3600 :: int) = (3601000 - 1000) div 1000"
    by (simp_all add: samplePage_def)
  have v: "formatRelativeTime samplePage 3601000 (Some ''d'') = ''1h ago''" by code_simp
  show ?thesis using formatRelativeTime_correct [OF d] v by simp
qed

text \<open>
  The seconds of an ETA are rounded, not cut: the last half second of a minute reads as 60. And
  the ETA element is only made together with the bar, so one that first comes with a later report
  is not shown.
\<close>

theorem eta_sixty_seconds: "etaSeconds (Fin (60 * of_nat m + 119 / 2)) = ofInt 60"
proof -
  have "\<lfloor>(60 * of_nat m + 119 / 2 :: rat) / 60\<rfloor> = int m"
    by (rule floor_unique) (simp_all add: field_simps)
  then show ?thesis by (simp add: etaSeconds_def)
qed

theorem late_eta_not_shown:
  assumes "rwBar r = Some w" "rwEta r = None"
  shows "rwEta (updateDownloadProgress r p) = None"
  using assms by (simp add: updateDownloadProgress_def Let_def split: option.split)

end
