(* ===== verification/Monitor.thy ===== *)
theory Monitor
  imports Prelude
begin

text \<open>
  The live connection of the dashboard page (\<open>dashboard.js\<close>): the bridge from the event source to
  the page's own events, and the health monitor that shows how long the connection has been
  silent. Times are the milliseconds of \<open>Date.now()\<close>; interval timers and event sources are
  numbered.
\<close>

section \<open>The bridge\<close>

text \<open>The current source, and the sources that carry each of the two listeners.\<close>

record bridge =
  brSource :: "nat option"
  brJob :: "nat set"
  brProgress :: "nat set"

definition attachSSE :: "nat option \<Rightarrow> bridge \<Rightarrow> bridge" where
  "attachSSE source b = (case source of None \<Rightarrow> b
     | Some n \<Rightarrow>
         if brSource b = Some n then b
         else (let b1 = (case brSource b of None \<Rightarrow> b
                          | Some old \<Rightarrow> b\<lparr>brJob := brJob b - {old}, brProgress := brProgress b - {old}\<rparr>)
               in b1\<lparr>brJob := insert n (brJob b1), brProgress := insert n (brProgress b1), brSource := Some n\<rparr>))"

definition bridgeInit :: bridge where
  "bridgeInit = \<lparr>brSource = None, brJob = {}, brProgress = {}\<rparr>"

lemma attachSSE_one_source:
  "brJob (foldl (\<lambda>b s. attachSSE s b) bridgeInit ss) = set_option (brSource (foldl (\<lambda>b s. attachSSE s b) bridgeInit ss)) \<and>
   brProgress (foldl (\<lambda>b s. attachSSE s b) bridgeInit ss) = set_option (brSource (foldl (\<lambda>b s. attachSSE s b) bridgeInit ss))"
  by (induction ss rule: rev_induct) (auto simp: bridgeInit_def attachSSE_def Let_def split: option.splits)

section \<open>The health monitor\<close>

datatype indicator = Live | Reconnecting

text \<open>
  \<open>mnBanner\<close> is the element \<open>#sse-reconnect-banner\<close>: absent, or present with (\<open>True\<close>) or without
  the message and the button that \<open>showReconnectBanner\<close> writes into it. \<open>mnLive\<close> are the intervals
  the browser still runs.
\<close>

record monitor =
  mnLast :: int
  mnShown :: bool
  mnBanner :: "bool option"
  mnTimer :: "nat option"
  mnLive :: "nat set"
  mnNext :: nat
  mnContainer :: bool
  mnIndicator :: "indicator option"

definition SSE_TIMEOUT :: int where "SSE_TIMEOUT = 35000"
definition SSE_DISCONNECT_BANNER_DELAY :: int where "SSE_DISCONNECT_BANNER_DELAY = 10000"

definition markSseActivity :: "int \<Rightarrow> monitor \<Rightarrow> monitor" where
  "markSseActivity now m = (let m1 = m\<lparr>mnLast := now\<rparr> in
     if mnBanner m1 \<noteq> None then m1\<lparr>mnBanner := None, mnShown := False\<rparr> else m1)"

definition updateLiveIndicator :: "int \<Rightarrow> monitor \<Rightarrow> monitor" where
  "updateLiveIndicator elapsed m = (case mnIndicator m of None \<Rightarrow> m
     | Some _ \<Rightarrow> m\<lparr>mnIndicator := Some (if SSE_TIMEOUT < elapsed then Reconnecting else Live)\<rparr>)"

definition showReconnectBanner :: "int \<Rightarrow> monitor \<Rightarrow> monitor" where
  "showReconnectBanner elapsed m =
     (if \<not> SSE_DISCONNECT_BANNER_DELAY < elapsed then m
      else let m1 = (if mnBanner m = None then m\<lparr>mnBanner := Some False\<rparr> else m)
           in if mnShown m1 then m1 else m1\<lparr>mnShown := True, mnBanner := Some True\<rparr>)"

definition removeReconnectBanner :: "monitor \<Rightarrow> monitor" where
  "removeReconnectBanner m = m\<lparr>mnBanner := None, mnShown := False\<rparr>"

definition removeReconnectBannerIfRecovered :: "int \<Rightarrow> monitor \<Rightarrow> monitor" where
  "removeReconnectBannerIfRecovered now m =
     (if now - mnLast m < SSE_DISCONNECT_BANNER_DELAY then removeReconnectBanner m else m)"

definition runSseHealthCheck :: "int \<Rightarrow> monitor \<Rightarrow> monitor" where
  "runSseHealthCheck now m = (let elapsed = now - mnLast m in
     showReconnectBanner elapsed (removeReconnectBannerIfRecovered now (updateLiveIndicator elapsed m)))"

definition startSseHealthMonitor :: "int \<Rightarrow> monitor \<Rightarrow> monitor" where
  "startSseHealthMonitor now m =
     (if mnTimer m \<noteq> None \<or> \<not> mnContainer m then m
      else let m1 = runSseHealthCheck now m
           in m1\<lparr>mnTimer := Some (mnNext m1), mnLive := insert (mnNext m1) (mnLive m1), mnNext := Suc (mnNext m1)\<rparr>)"

definition stopSseHealthMonitor :: "monitor \<Rightarrow> monitor" where
  "stopSseHealthMonitor m = (case mnTimer m of None \<Rightarrow> m
     | Some t \<Rightarrow> m\<lparr>mnLive := mnLive m - {t}, mnTimer := None\<rparr>)"

definition teardownSseHealthMonitor :: "monitor \<Rightarrow> monitor" where
  "teardownSseHealthMonitor m = removeReconnectBanner (stopSseHealthMonitor m)"

text \<open>
  The events that reach the monitor: a message, a tick of an interval (delivered while the browser
  runs it), the page shown, hidden or left, and htmx loading or cleaning up an element; the flags
  say whether the element is or holds the list of downloads (\<open>isDashboardSseElement\<close>) and, after a
  load, whether \<open>#sse-container\<close> is in the page.
\<close>

datatype monEvent =
    Message
  | Tick nat
  | PageShow
  | PageHide
  | ElementLoaded bool bool
  | ElementCleaned bool

fun monStep :: "int \<Rightarrow> monEvent \<Rightarrow> monitor \<Rightarrow> monitor" where
  "monStep now Message m = markSseActivity now m"
| "monStep now (Tick t) m = (if t \<in> mnLive m then runSseHealthCheck now m else m)"
| "monStep now PageShow m = startSseHealthMonitor now m"
| "monStep now PageHide m = stopSseHealthMonitor m"
| "monStep now (ElementLoaded dash present) m =
     (let m1 = m\<lparr>mnContainer := present\<rparr> in if dash then startSseHealthMonitor now m1 else m1)"
| "monStep now (ElementCleaned dash) m = (if dash then teardownSseHealthMonitor m else m)"

definition monInit :: "int \<Rightarrow> bool \<Rightarrow> indicator option \<Rightarrow> monitor" where
  "monInit now present ind = startSseHealthMonitor now
     \<lparr>mnLast = now, mnShown = False, mnBanner = None, mnTimer = None, mnLive = {}, mnNext = 0,
      mnContainer = present, mnIndicator = ind\<rparr>"

text \<open>The states of the monitor and the time, along a clock that does not run backwards.\<close>

inductive monReach :: "int \<Rightarrow> monitor \<Rightarrow> bool" where
  init: "monReach now (monInit now present ind)"
| step: "monReach now m \<Longrightarrow> now \<le> now' \<Longrightarrow> monReach now' (monStep now' e m)"

code_pred monReach .

section \<open>Facts\<close>

named_theorems monitor_defs \<open>the operations of the health monitor\<close>

lemmas [monitor_defs] = markSseActivity_def updateLiveIndicator_def showReconnectBanner_def
  removeReconnectBanner_def removeReconnectBannerIfRecovered_def runSseHealthCheck_def
  startSseHealthMonitor_def stopSseHealthMonitor_def teardownSseHealthMonitor_def
  SSE_TIMEOUT_def SSE_DISCONNECT_BANNER_DELAY_def

text \<open>The flag, the banner and the timer agree, and a banner means ten silent seconds.\<close>

definition monOk :: "int \<Rightarrow> monitor \<Rightarrow> bool" where
  "monOk now m \<longleftrightarrow> mnBanner m = (if mnShown m then Some True else None) \<and>
     (mnShown m \<longrightarrow> SSE_DISCONNECT_BANNER_DELAY < now - mnLast m) \<and> mnLive m = set_option (mnTimer m)"

lemma healthCheck_eq:
  assumes "mnBanner m = (if mnShown m then Some True else None)"
  shows "runSseHealthCheck now m = (let e = now - mnLast m; m1 = updateLiveIndicator e m in
     if e < SSE_DISCONNECT_BANNER_DELAY then m1\<lparr>mnShown := False, mnBanner := None\<rparr>
     else if SSE_DISCONNECT_BANNER_DELAY < e then m1\<lparr>mnShown := True, mnBanner := Some True\<rparr> else m1)"
  using assms by (auto simp: monitor_defs Let_def split: option.splits)

lemma updateLiveIndicator_frame [simp]:
  "mnLast (updateLiveIndicator e m) = mnLast m" "mnShown (updateLiveIndicator e m) = mnShown m"
  "mnBanner (updateLiveIndicator e m) = mnBanner m" "mnTimer (updateLiveIndicator e m) = mnTimer m"
  "mnLive (updateLiveIndicator e m) = mnLive m"
  by (simp_all add: updateLiveIndicator_def split: option.split)

lemma healthCheck_ok: "monOk now m \<Longrightarrow> now \<le> now' \<Longrightarrow> monOk now' (runSseHealthCheck now' m)"
  by (auto simp: monOk_def healthCheck_eq Let_def)

lemma start_ok: "monOk now m \<Longrightarrow> now \<le> now' \<Longrightarrow> monOk now' (startSseHealthMonitor now' m)"
  using healthCheck_ok [of now m now']
  by (auto simp: startSseHealthMonitor_def Let_def monOk_def healthCheck_eq)

lemma monOk_later: "monOk now m \<Longrightarrow> now \<le> now' \<Longrightarrow> monOk now' m"
  by (auto simp: monOk_def)

lemma message_ok: "monOk now m \<Longrightarrow> monOk now' (markSseActivity now' m)"
  by (cases "mnShown m") (auto simp: monOk_def markSseActivity_def Let_def)

lemma stop_ok: "monOk now m \<Longrightarrow> monOk now (stopSseHealthMonitor m)"
  by (simp add: monOk_def stopSseHealthMonitor_def split: option.split)

lemma teardown_ok: "monOk now m \<Longrightarrow> monOk now (teardownSseHealthMonitor m)"
  using stop_ok [of now m] by (simp add: teardownSseHealthMonitor_def monOk_def removeReconnectBanner_def)

lemma monStep_ok: "monOk now m \<Longrightarrow> now \<le> now' \<Longrightarrow> monOk now' (monStep now' e m)"
proof (cases e)
  case (ElementLoaded dash present)
  assume "monOk now m" "now \<le> now'"
  then have "monOk now (m\<lparr>mnContainer := present\<rparr>)" by (simp add: monOk_def)
  then show ?thesis using \<open>now \<le> now'\<close> ElementLoaded
    by (simp add: Let_def start_ok monOk_later)
qed (simp_all add: healthCheck_ok start_ok message_ok stop_ok teardown_ok monOk_later)

lemma monReach_ok: "monReach now m \<Longrightarrow> monOk now m"
proof (induction rule: monReach.induct)
  case (init now present ind)
  show ?case unfolding monInit_def
    by (rule start_ok [of now]) (simp_all add: monOk_def)
qed (rule monStep_ok)

section \<open>Properties\<close>

text \<open>C39: The banner tells the truth: in every reachable state it is in the page exactly when the flag
  \<open>reconnectShown\<close> is set, it then has its message and its button and more than ten seconds have
  passed since the last message, at most one interval timer runs, and the next tick of that timer
  shows the banner after more than ten silent seconds, removes it after fewer, and sets the live
  indicator by the 35 s limit.
\<close>

theorem banner_truthful:
  assumes "monReach now m"
  shows "(mnShown m \<longleftrightarrow> mnBanner m \<noteq> None) \<and>
    (mnBanner m \<noteq> None \<longrightarrow> mnBanner m = Some True \<and> 10000 < now - mnLast m) \<and>
    mnLive m = set_option (mnTimer m) \<and>
    (\<forall>t. mnTimer m = Some t \<longrightarrow>
       mnBanner (monStep now (Tick t) m) =
         (if 10000 < now - mnLast m then Some True else if now - mnLast m < 10000 then None else mnBanner m) \<and>
       mnIndicator (monStep now (Tick t) m) =
         map_option (\<lambda>_. if 35000 < now - mnLast m then Reconnecting else Live) (mnIndicator m))"
proof (intro conjI allI impI)
  have ok: "monOk now m" by (rule monReach_ok [OF assms])
  show "mnLive m = set_option (mnTimer m)" using ok by (simp add: monOk_def)
  show "mnShown m \<longleftrightarrow> mnBanner m \<noteq> None"
    using ok by (cases "mnShown m") (auto simp: monOk_def)
  show "mnBanner m = Some True" "10000 < now - mnLast m" if "mnBanner m \<noteq> None"
    using ok that by (cases "mnShown m"; auto simp: monOk_def SSE_DISCONNECT_BANNER_DELAY_def)+
  fix t assume t: "mnTimer m = Some t"
  have eq: "monStep now (Tick t) m = (let e = now - mnLast m; m1 = updateLiveIndicator e m in
     if e < 10000 then m1\<lparr>mnShown := False, mnBanner := None\<rparr>
     else if 10000 < e then m1\<lparr>mnShown := True, mnBanner := Some True\<rparr> else m1)"
    using ok t healthCheck_eq [of m now, unfolded SSE_DISCONNECT_BANNER_DELAY_def] by (simp add: monOk_def)
  show "mnBanner (monStep now (Tick t) m) =
      (if 10000 < now - mnLast m then Some True else if now - mnLast m < 10000 then None else mnBanner m)"
    unfolding eq by (simp add: Let_def)
  show "mnIndicator (monStep now (Tick t) m) =
      map_option (\<lambda>_. if 35000 < now - mnLast m then Reconnecting else Live) (mnIndicator m)"
    unfolding eq by (simp add: Let_def updateLiveIndicator_def SSE_TIMEOUT_def split: option.split)
qed

definition sampleMon :: monitor where
  "sampleMon = monStep 12000 (Tick 0) (monStep 1000 Message (monInit 0 True (Some Live)))"

theorem banner_truthful_witness:
  "mnBanner sampleMon = Some True \<and> 10000 < 12000 - mnLast sampleMon \<and>
   mnBanner (monStep 37000 (Tick 0) (monStep 37000 PageShow sampleMon)) = Some True"
proof -
  have r: "monReach 12000 sampleMon"
    unfolding sampleMon_def by (intro monReach.step [of 1000] monReach.step [of 0] monReach.init) simp_all
  then have r2: "monReach 37000 (monStep 37000 PageShow sampleMon)" by (rule monReach.step) simp
  have b: "mnBanner sampleMon \<noteq> None" "mnTimer (monStep 37000 PageShow sampleMon) = Some 0"
    "mnLast (monStep 37000 PageShow sampleMon) = 1000"
    by (simp_all add: sampleMon_def monInit_def monitor_defs Let_def)
  show ?thesis using banner_truthful [OF r] banner_truthful [OF r2] b by (simp del: monStep.simps)
qed

end
