(* ===== verification/Forms.thy ===== *)
theory Forms
  imports Regex
begin

text \<open>
  The dialog and the form of the dashboard page (\<open>dashboard.js\<close>): the confirmation modal that
  stands in for the browser's own question, with its focus trap, the submit button and the inline
  check of the URL field. Elements and pending requests are numbered.
\<close>

section \<open>The confirmation modal\<close>

text \<open>
  \<open>mdPending\<close> is the request \<open>pendingConfirm\<close>, \<open>mdAnswers\<close> the calls of \<open>issueRequest\<close>, \<open>mdFocus\<close>
  the active element and \<open>mdReturn\<close> is \<open>lastFocusedEl\<close>.
\<close>

record modal =
  mdHidden :: bool
  mdTitle :: string
  mdDesc :: string
  mdPending :: "nat option"
  mdTrap :: bool
  mdLocked :: bool
  mdFocus :: "nat option"
  mdReturn :: "nat option"
  mdAnswers :: "(nat \<times> bool) list"

definition modalInit :: modal where
  "modalInit = \<lparr>mdHidden = True, mdTitle = [], mdDesc = [], mdPending = None, mdTrap = False,
     mdLocked = False, mdFocus = None, mdReturn = None, mdAnswers = []\<rparr>"

definition truthyStr :: "string option \<Rightarrow> bool" where
  "truthyStr s \<longleftrightarrow> (case s of None \<Rightarrow> False | Some t \<Rightarrow> t \<noteq> [])"

text \<open>The listener of \<open>htmx:confirm\<close>, for request \<open>i\<close>: its question and the \<open>hx-confirm\<close> attribute.\<close>

definition onConfirm :: "nat \<Rightarrow> string option \<Rightarrow> string option \<Rightarrow> modal \<Rightarrow> modal" where
  "onConfirm i question attr m =
     (if \<not> truthyStr question then m
      else if \<not> truthyStr attr then m
      else m\<lparr>mdReturn := mdFocus m, mdTitle := the question, mdDesc := ''This action cannot be undone.'',
             mdHidden := False, mdPending := Some i, mdTrap := True, mdLocked := True\<rparr>)"

definition focusFirst :: "nat list \<Rightarrow> modal \<Rightarrow> modal" where
  "focusFirst focusable m = (case focusable of [] \<Rightarrow> m | f # _ \<Rightarrow> m\<lparr>mdFocus := Some f\<rparr>)"

definition closeModal :: "bool \<Rightarrow> modal \<Rightarrow> modal" where
  "closeModal confirmed m =
     (let m1 = m\<lparr>mdHidden := True\<rparr>;
          m2 = (case mdPending m1 of None \<Rightarrow> m1
                 | Some i \<Rightarrow> m1\<lparr>mdAnswers := mdAnswers m1 @ [(i, confirmed)], mdPending := None\<rparr>);
          m3 = m2\<lparr>mdTrap := False, mdLocked := False\<rparr>
      in (case mdReturn m3 of None \<Rightarrow> m3 | Some f \<Rightarrow> m3\<lparr>mdFocus := Some f\<rparr>))"

text \<open>A key press in the trap: where it moves the focus, if it does not leave the key to the browser.\<close>

definition trapFocus :: "string \<Rightarrow> bool \<Rightarrow> nat option \<Rightarrow> nat list \<Rightarrow> nat option" where
  "trapFocus key shift active focusable =
     (if focusable = [] then None
      else if key = ''Tab'' then
        (if shift then (if active = Some (hd focusable) then Some (last focusable) else None)
         else if active = Some (last focusable) then Some (hd focusable) else None)
      else None)"

text \<open>
  The listeners of a key press in the order they were added: the one for \<open>Escape\<close>, which removes
  the trap when it closes the dialog, and the trap.
\<close>

definition onKeydown :: "string \<Rightarrow> bool \<Rightarrow> nat list \<Rightarrow> modal \<Rightarrow> modal" where
  "onKeydown key shift focusable m =
     (let m1 = (if key = ''Escape'' \<and> \<not> mdHidden m then closeModal False m else m)
      in if mdTrap m1 then (case trapFocus key shift (mdFocus m1) focusable of None \<Rightarrow> m1
           | Some f \<Rightarrow> m1\<lparr>mdFocus := Some f\<rparr>) else m1)"

datatype modalEvent =
    Asked nat "string option" "string option"
  | FocusTimer "nat list"
  | CancelClicked
  | ConfirmClicked
  | BackdropClicked bool
  | KeyDown string bool "nat list"
  | FocusMoves "nat option"

fun modalStep :: "modalEvent \<Rightarrow> modal \<Rightarrow> modal" where
  "modalStep (Asked i q a) m = onConfirm i q a m"
| "modalStep (FocusTimer fs) m = focusFirst fs m"
| "modalStep CancelClicked m = closeModal False m"
| "modalStep ConfirmClicked m = closeModal True m"
| "modalStep (BackdropClicked onBackdrop) m = (if onBackdrop then closeModal False m else m)"
| "modalStep (KeyDown k sh fs) m = onKeydown k sh fs m"
| "modalStep (FocusMoves f) m = m\<lparr>mdFocus := f\<rparr>"

definition modalRun :: "modalEvent list \<Rightarrow> modal" where
  "modalRun es = foldl (\<lambda>m e. modalStep e m) modalInit es"

fun askedId :: "modalEvent \<Rightarrow> nat option" where
  "askedId (Asked i q a) = Some i"
| "askedId e = None"

definition askedIds :: "modalEvent list \<Rightarrow> nat list" where
  "askedIds es = List.map_filter askedId es"

section \<open>The submit button and the URL field\<close>

text \<open>The form's button, the field, the error paragraph below it and the pending debounce timer.\<close>

record urlForm =
  ufDisabled :: bool
  ufInput :: string
  ufError :: "string option"
  ufTimer :: bool

text \<open>
  \<open>elt\<close> and \<open>target\<close> of an htmx event: absent or not an element, the form itself, an element inside
  it, or another element.
\<close>

datatype place = NoElement | TheForm | InForm | ElsewhereInPage

definition isFormElement :: "place \<Rightarrow> bool" where
  "isFormElement p \<longleftrightarrow> p = TheForm \<or> p = InForm"

definition isDownloadFormRequest :: "place \<Rightarrow> place \<Rightarrow> bool" where
  "isDownloadFormRequest elt target \<longleftrightarrow> isFormElement elt \<or> isFormElement target"

definition formBeforeRequest :: "urlForm \<Rightarrow> urlForm" where
  "formBeforeRequest f = f\<lparr>ufDisabled := True\<rparr>"

definition afterRequest :: "place \<Rightarrow> place \<Rightarrow> urlForm \<Rightarrow> urlForm" where
  "afterRequest elt target f = (if \<not> isDownloadFormRequest elt target then f else f\<lparr>ufDisabled := False\<rparr>)"

text \<open>\<open>/^https?:\/\/.+/\<close>\<close>

definition HTTP_RE :: re where
  "HTTP_RE = rSeqs [RBos, rLit False ''http'', rOpt (rLit False ''s''), rLit False ''://'', rPlus rDot]"

definition urlErrorText :: string where
  "urlErrorText = ''Must start with http:// or https://''"

definition onInput :: "string \<Rightarrow> urlForm \<Rightarrow> urlForm" where
  "onInput v f = f\<lparr>ufInput := v, ufTimer := True\<rparr>"

definition validateInput :: "urlForm \<Rightarrow> urlForm" where
  "validateInput f = (let f1 = f\<lparr>ufTimer := False\<rparr>; val = trim (ufInput f1) in
     if val = [] then f1\<lparr>ufError := None\<rparr>
     else if reTest HTTP_RE val then f1\<lparr>ufError := None\<rparr>
     else if ufError f1 = None then f1\<lparr>ufError := Some urlErrorText\<rparr> else f1)"

definition anyBeforeRequest :: "urlForm \<Rightarrow> urlForm" where
  "anyBeforeRequest f = f\<lparr>ufError := None\<rparr>"

section \<open>Facts\<close>

definition modalOk :: "modal \<Rightarrow> bool" where
  "modalOk m \<longleftrightarrow> (mdHidden m \<longleftrightarrow> mdPending m = None) \<and> (mdTrap m \<longleftrightarrow> \<not> mdHidden m) \<and> (mdLocked m \<longleftrightarrow> \<not> mdHidden m)"

lemma closeModal_simps [simp]:
  "mdHidden (closeModal b m)" "mdPending (closeModal b m) = None"
  "\<not> mdTrap (closeModal b m)" "\<not> mdLocked (closeModal b m)"
  "mdAnswers (closeModal b m) =
     mdAnswers m @ (case mdPending m of None \<Rightarrow> [] | Some i \<Rightarrow> [(i, b)])"
  by (simp_all add: closeModal_def Let_def split: option.split)

lemma onKeydown_cases:
  "\<exists>f. onKeydown k sh fs m = m\<lparr>mdFocus := f\<rparr> \<or> onKeydown k sh fs m = closeModal False (m\<lparr>mdFocus := f\<rparr>)"
proof (cases "k = ''Escape'' \<and> \<not> mdHidden m")
  case True
  then have "onKeydown k sh fs m = closeModal False (m\<lparr>mdFocus := mdFocus m\<rparr>)"
    by (simp add: onKeydown_def Let_def)
  then show ?thesis by blast
next
  case False
  let ?f = "if mdTrap m then (case trapFocus k sh (mdFocus m) fs of None \<Rightarrow> mdFocus m | Some f \<Rightarrow> Some f) else mdFocus m"
  from False have "onKeydown k sh fs m = m\<lparr>mdFocus := ?f\<rparr>"
    unfolding onKeydown_def Let_def if_not_P [OF False] by (simp split: option.split)
  then show ?thesis by blast
qed

text \<open>Every event leaves the dialog alone, opens it for the request asked about, or closes it.\<close>

lemma modalStep_cases:
  obtains (keeps) f where "modalStep e m = m\<lparr>mdFocus := f\<rparr>"
  | (opens) i q a where "e = Asked i q a" "modalStep e m = onConfirm i q a m" "truthyStr q" "truthyStr a"
  | (closes) b f where "modalStep e m = closeModal b (m\<lparr>mdFocus := f\<rparr>)"
proof -
  have id: "m = m\<lparr>mdFocus := mdFocus m\<rparr>" by simp
  show thesis
  proof (cases e)
    case (Asked i q a)
    then show ?thesis using opens [of i q a] keeps [of "mdFocus m"]
      by (cases "truthyStr q \<and> truthyStr a") (auto simp: onConfirm_def)
  next
    case (FocusTimer fs)
    then show ?thesis using keeps [of "mdFocus m"] keeps [of "Some (hd fs)"]
      by (cases fs) (simp_all add: focusFirst_def)
  next
    case (KeyDown k sh fs)
    then show ?thesis using onKeydown_cases [of k sh fs m] keeps closes by auto
  next
    case (FocusMoves f)
    then show ?thesis using keeps by simp
  next
    case (BackdropClicked b)
    then show ?thesis using keeps [of "mdFocus m"] closes [of False "mdFocus m"] by (cases b) simp_all
  qed (use closes [of _ "mdFocus m"] in simp_all)
qed

lemma modalStep_ok: "modalOk m \<Longrightarrow> modalOk (modalStep e m)"
  by (cases rule: modalStep_cases [of e m]) (auto simp: modalOk_def onConfirm_def)

lemma askedIds_snoc: "askedIds (es @ [e]) = askedIds es @ (case askedId e of None \<Rightarrow> [] | Some i \<Rightarrow> [i])"
  by (auto simp: askedIds_def map_filter_def split: option.split)

lemma modalRun_snoc [simp]: "modalRun (es @ [e]) = modalStep e (modalRun es)"
  by (simp add: modalRun_def)

lemma modalRun_ok: "modalOk (modalRun es)"
  by (induction es rule: rev_induct) (simp_all add: modalStep_ok, simp add: modalRun_def modalInit_def modalOk_def)

definition answersOk :: "nat list \<Rightarrow> modal \<Rightarrow> bool" where
  "answersOk asked m \<longleftrightarrow> distinct (map fst (mdAnswers m)) \<and> fst ` set (mdAnswers m) \<subseteq> set asked \<and>
     (\<forall>i. mdPending m = Some i \<longrightarrow> i \<in> set asked \<and> i \<notin> fst ` set (mdAnswers m))"

lemma answers_step:
  assumes "answersOk (askedIds es) m" "distinct (askedIds (es @ [e]))"
  shows "answersOk (askedIds (es @ [e])) (modalStep e m)"
proof (cases rule: modalStep_cases [of e m])
  case (keeps f)
  then show ?thesis using assms(1) by (auto simp: answersOk_def askedIds_snoc split: option.splits)
next
  case (opens i q a)
  then show ?thesis using assms by (auto simp: answersOk_def askedIds_snoc onConfirm_def)
next
  case (closes b f)
  then show ?thesis using assms(1) by (auto simp: answersOk_def askedIds_snoc split: option.splits)
qed

lemma modalRun_answers: "distinct (askedIds es) \<Longrightarrow> answersOk (askedIds es) (modalRun es)"
proof (induction es rule: rev_induct)
  case Nil
  then show ?case by (simp add: answersOk_def modalRun_def modalInit_def)
next
  case (snoc e es)
  then have "distinct (askedIds es)" by (simp add: askedIds_snoc)
  with snoc show ?case by (simp add: answers_step)
qed

text \<open>
  With the browser's own move to the neighbour (\<open>Suc n\<close> or \<open>n - 1\<close>) where the trap does not act,
  \<open>Tab\<close> keeps the focus inside the dialog.
\<close>

lemma trapFocus_contains:
  assumes "n < length fs" "distinct fs"
  shows "(case trapFocus ''Tab'' shift (Some (fs ! n)) fs of
      Some f \<Rightarrow> f \<in> set fs
    | None \<Rightarrow> if shift then n \<noteq> 0 else Suc n < length fs)"
proof -
  have "fs \<noteq> []" using assms(1) by auto
  then have hl: "hd fs = fs ! 0" "last fs = fs ! (length fs - 1)" by (simp_all add: hd_conv_nth last_conv_nth)
  have "fs ! n = fs ! 0 \<longleftrightarrow> n = 0" "fs ! n = fs ! (length fs - 1) \<longleftrightarrow> n = length fs - 1"
    using assms \<open>fs \<noteq> []\<close> by (simp_all add: nth_eq_iff_index_eq)
  then show ?thesis using assms(1) \<open>fs \<noteq> []\<close>
    by (auto simp: trapFocus_def hl)
qed

text \<open>The pattern: \<open>http://\<close> or \<open>https://\<close> at the start and one more character that is no line break.\<close>

lemma set_star_dot: "(p, t, cs) \<in> set (reRun (RStar rDot) (p, t, cs))"
  unfolding rDot_def using reRun_starI [of "[]" notNewline p t cs] by simp

lemma reRun_plus_dot: "reRun (rPlus rDot) (p, t, cs) \<noteq> [] \<longleftrightarrow> (\<exists>c r. t = c # r \<and> notNewline c)"
proof (cases t)
  case Nil
  then show ?thesis by (simp add: rPlus_def rDot_def)
next
  case (Cons c r)
  have "reRun (RStar rDot) (c # p, r, cs) \<noteq> []" using set_star_dot [of "c # p" r cs] by force
  then show ?thesis by (simp add: rPlus_def Cons rDot_def del: reRun.simps(5))
qed

lemma take_lit: "litEq False (take n s) w \<longleftrightarrow> (\<exists>r. s = w @ r)" if "n = length w"
  using that by (auto simp: litEq_def) (metis append_take_drop_id)

lemma reRun_rLit_neq:
  "(reRun (RSeq (rLit False w) k) (p, s, c) \<noteq> []) \<longleftrightarrow>
     (\<exists>r. s = w @ r \<and> reRun k (rev w @ p, r, c) \<noteq> [])"
  using take_lit [OF refl, of w s] by (auto simp: reRun_rLit litEq_def)

lemma reRun_seq_alt:
  "reRun (RSeq (RAlt a b) k) x = reRun (RSeq a k) x @ reRun (RSeq b k) x"
  "reRun (RSeq REps k) x = reRun k x"
  by simp_all

lemma HTTP_RE_iff:
  "reTest HTTP_RE s \<longleftrightarrow>
     (\<exists>c r. (s = ''http://'' @ c # r \<or> s = ''https://'' @ c # r) \<and> notNewline c)"
proof -
  let ?rest = "RSeq (rLit False ''://'') (rPlus rDot)"
  have "reTest HTTP_RE s \<longleftrightarrow>
      reRun (RSeq (rLit False ''http'') (RSeq (rOpt (rLit False ''s'')) ?rest)) ([], s, []) \<noteq> []"
    unfolding reTest_iff HTTP_RE_def by auto
  also have "\<dots> \<longleftrightarrow> (\<exists>c r. (s = ''http://'' @ c # r \<or> s = ''https://'' @ c # r) \<and> notNewline c)"
    unfolding reRun_rLit_neq rOpt_def reRun_seq_alt append_is_Nil_conv de_Morgan_conj reRun_plus_dot by auto
  finally show ?thesis .
qed

section \<open>Properties\<close>

text \<open>The confirmation dialog: after any events it is visible exactly while a request waits, and
  then the focus trap is installed and the page's scrolling locked; with requests that each ask
  once, no request gets two answers and the waiting request has none yet.
\<close>

theorem modal_answers_once:
  assumes "distinct (askedIds es)"
  shows "(\<not> mdHidden (modalRun es) \<longleftrightarrow> mdPending (modalRun es) \<noteq> None) \<and>
    (mdTrap (modalRun es) \<longleftrightarrow> \<not> mdHidden (modalRun es)) \<and>
    (mdLocked (modalRun es) \<longleftrightarrow> \<not> mdHidden (modalRun es)) \<and>
    distinct (map fst (mdAnswers (modalRun es))) \<and>
    fst ` set (mdAnswers (modalRun es)) \<subseteq> set (askedIds es) \<and>
    (\<forall>i. mdPending (modalRun es) = Some i \<longrightarrow> i \<notin> fst ` set (mdAnswers (modalRun es)))"
  using modalRun_ok [of es] modalRun_answers [OF assms] by (auto simp: modalOk_def answersOk_def)

definition sampleDialog :: "modalEvent list" where
  "sampleDialog = [Asked 0 (Some ''Delete?'') (Some ''Delete?''), KeyDown ''Escape'' False [],
     Asked 1 (Some ''Delete?'') (Some ''Delete?''), FocusTimer [4, 5], KeyDown ''Tab'' True [4, 5],
     ConfirmClicked, Asked 2 (Some ''Delete?'') (Some ''Delete?'')]"

theorem modal_answers_once_witness:
  "distinct (map fst (mdAnswers (modalRun sampleDialog))) \<and>
   mdAnswers (modalRun sampleDialog) = [(0, False), (1, True)] \<and>
   mdPending (modalRun sampleDialog) = Some 2"
proof -
  have d: "distinct (askedIds sampleDialog)" by code_simp
  have v: "mdAnswers (modalRun sampleDialog) = [(0, False), (1, True)]"
    "mdPending (modalRun sampleDialog) = Some 2" by code_simp+
  show ?thesis using modal_answers_once [OF d] v by blast
qed

text \<open>A question asked while another waits replaces it: the first request is never answered.\<close>

lemma second_question_drops_first:
  "truthyStr q \<Longrightarrow> truthyStr a \<Longrightarrow> mdPending (modalStep (Asked j q a) m) = Some j \<and>
     mdAnswers (modalStep (Asked j q a) m) = mdAnswers m"
  by (simp add: onConfirm_def)

text \<open>
  When the debounce timer fires, an error stands below the field exactly when it holds text that
  is no HTTP URL.
\<close>

theorem validateInput_error:
  "ufError (validateInput f) \<noteq> None \<longleftrightarrow>
     trim (ufInput f) \<noteq> [] \<and>
     (\<nexists>c r. (trim (ufInput f) = ''http://'' @ c # r \<or> trim (ufInput f) = ''https://'' @ c # r) \<and> notNewline c)"
  unfolding HTTP_RE_iff [symmetric] by (auto simp: validateInput_def Let_def)

end
