(* ===== verification/Dashboard.thy ===== *)
theory Dashboard
  imports Rows Monitor
begin

text \<open>
  The download list of the dashboard page (\<open>dashboard.js\<close>): its state, the handlers of the page's
  events and the timers they set. A row rendered by the server (\<open>_download_item.html\<close>) comes in
  through an htmx swap, a row of the script's own through the factory of \<open>Rows\<close>.
\<close>

section \<open>State\<close>

text \<open>The element the rows are in: none, \<open>#download-list\<close> itself, or \<open>#download-rows\<close>.\<close>

datatype listPlace = NoList | ListElement | RowsElement

text \<open>
  \<open>bdOthers\<close> counts the children of that element that are no rows, \<open>bdObserver\<close> is the child count
  the skeleton's observer started from, \<open>bdSay\<close> the announcement waiting for its timer, and
  \<open>bdReplacers\<close> are the \<open>replace\<close> listeners of submitted forms, in the order they were added.
\<close>

record board =
  bdRows :: "row list"
  bdPlace :: listPlace
  bdOthers :: nat
  bdSkeleton :: bool
  bdLoading :: bool
  bdObserver :: "nat option"
  bdStats :: "nat \<times> nat \<times> nat"
  bdPending :: "string set"
  bdSpoken :: string
  bdSay :: "string option"
  bdReplacers :: "nat list"
  bdNextReplacer :: nat
  bdMon :: monitor

section \<open>Skeleton, counters, announcements\<close>

definition stopSkeletonObserver :: "board \<Rightarrow> board" where
  "stopSkeletonObserver b = b\<lparr>bdObserver := None\<rparr>"

definition clearSkel :: "board \<Rightarrow> board" where
  "clearSkel b = (let b1 = stopSkeletonObserver b in
     if bdPlace b1 = NoList then b1 else b1\<lparr>bdLoading := False, bdSkeleton := False\<rparr>)"

definition childCount :: "board \<Rightarrow> nat" where
  "childCount b = length (bdRows b) + bdOthers b"

definition observeSkeletonRows :: "board \<Rightarrow> board" where
  "observeSkeletonRows b = (if bdPlace b = NoList then b else b\<lparr>bdObserver := Some (childCount b)\<rparr>)"

definition onMutation :: "board \<Rightarrow> board" where
  "onMutation b = (case bdObserver b of None \<Rightarrow> b | Some n \<Rightarrow> if childCount b \<noteq> n then clearSkel b else b)"

definition rowStatus :: "row \<Rightarrow> string option" where
  "rowStatus r = map_option (\<lambda>b. toLower (trim (bgLabel b))) (rwBadge r)"

definition statusCount :: "string list \<Rightarrow> row list \<Rightarrow> nat" where
  "statusCount ss rows = length (filter (\<lambda>r. case rowStatus r of None \<Rightarrow> False | Some s \<Rightarrow> s \<in> set ss) rows)"

text \<open>Every element of the class \<open>download-row\<close> counts, the three rows of the skeleton too.\<close>

definition SKELETON_ROWS :: nat where "SKELETON_ROWS = 3"

definition updateStats :: "board \<Rightarrow> board" where
  "updateStats b = b\<lparr>bdStats := (statusCount [''completed''] (bdRows b),
     statusCount [''processing'', ''pending''] (bdRows b),
     length (bdRows b) + (if bdSkeleton b then SKELETON_ROWS else 0))\<rparr>"

definition announceDownloadUpdate :: "string \<Rightarrow> board \<Rightarrow> board" where
  "announceDownloadUpdate message b = (let announcement = trim message in
     if announcement = [] then b else b\<lparr>bdSpoken := [], bdSay := Some announcement\<rparr>)"

definition announceTimer :: "board \<Rightarrow> board" where
  "announceTimer b = (case bdSay b of None \<Rightarrow> b | Some t \<Rightarrow> b\<lparr>bdSpoken := t, bdSay := None\<rparr>)"

section \<open>Rows by id\<close>

fun updateFirst :: "('a \<Rightarrow> bool) \<Rightarrow> ('a \<Rightarrow> 'a) \<Rightarrow> 'a list \<Rightarrow> 'a list" where
  "updateFirst P f [] = []"
| "updateFirst P f (x # xs) = (if P x then f x # xs else x # updateFirst P f xs)"

fun removeFirst :: "('a \<Rightarrow> bool) \<Rightarrow> 'a list \<Rightarrow> 'a list" where
  "removeFirst P [] = []"
| "removeFirst P (x # xs) = (if P x then xs else x # removeFirst P xs)"

definition hasId :: "string \<Rightarrow> row \<Rightarrow> bool" where
  "hasId i r \<longleftrightarrow> rwJob r = Some i"

definition rowById :: "string \<Rightarrow> board \<Rightarrow> row option" where
  "rowById i b = find (hasId i) (bdRows b)"

definition optimisticRow :: "board \<Rightarrow> row option" where
  "optimisticRow b = find rwOptimistic (bdRows b)"

definition addRow :: "pageEnv \<Rightarrow> int \<Rightarrow> row \<Rightarrow> jobData \<Rightarrow> board \<Rightarrow> board" where
  "addRow env now r data b = (if bdPlace b = NoList then b
     else b\<lparr>bdRows := insertRowSorted env now r data (bdRows b)\<rparr>)"

definition announceNew :: "jobData \<Rightarrow> row \<Rightarrow> board \<Rightarrow> board" where
  "announceNew data r b = (let title = getDownloadTitle data r in
     if title = [] then b else announceDownloadUpdate (''New download: '' @ title) b)"

text \<open>\<open>updateDownloadRow\<close> on a row of the list, with the announcement it makes.\<close>

definition updateListed :: "pageEnv \<Rightarrow> int \<Rightarrow> (row \<Rightarrow> bool) \<Rightarrow> jobData \<Rightarrow> board \<Rightarrow> board" where
  "updateListed env now P data b = (case find P (bdRows b) of None \<Rightarrow> b
     | Some r \<Rightarrow>
         (case updateDownloadRow env now r data of (r1, said) \<Rightarrow>
            (let b1 = b\<lparr>bdRows := updateFirst P (\<lambda>_. r1) (bdRows b)\<rparr>
             in case said of None \<Rightarrow> b1 | Some m \<Rightarrow> announceDownloadUpdate m b1)))"

section \<open>Events of the server\<close>

definition seen :: "int \<Rightarrow> board \<Rightarrow> board" where
  "seen now b = (clearSkel b)\<lparr>bdMon := markSseActivity now (bdMon b)\<rparr>"

definition handleJobUpdate :: "pageEnv \<Rightarrow> int \<Rightarrow> jobData option \<Rightarrow> board \<Rightarrow> board" where
  "handleJobUpdate env now detail b0 = (let b = seen now b0 in
     case detail of None \<Rightarrow> b
     | Some data \<Rightarrow>
         if jdId data = [] then b
         else (case rowById (jdId data) b of
             Some _ \<Rightarrow> updateStats (updateListed env now (hasId (jdId data)) data b)
           | None \<Rightarrow>
               if jdId data \<in> bdPending b then b
               else if (case optimisticRow b of None \<Rightarrow> False | Some o1 \<Rightarrow> Some (rwText o1) = jdUrl data) then b
               else (let r = createDownloadRow env now data
                     in updateStats (announceNew data r (addRow env now r data b)))))"

text \<open>The data \<open>handleProgressUpdate\<close> builds for a job it has no row for.\<close>

definition progressJob :: "jobData \<Rightarrow> jobData" where
  "progressJob data = \<lparr>jdId = jdId data, jdUrl = Some (strOr (jdUrl data) []), jdTitle = None,
     jdStatus = Some ''processing'', jdCreated = None, jdUpdated = None, jdSortKey = None,
     jdProgress = jdProgress data\<rparr>"

definition handleProgressUpdate :: "pageEnv \<Rightarrow> int \<Rightarrow> jobData option \<Rightarrow> board \<Rightarrow> board" where
  "handleProgressUpdate env now detail b0 = (let b = seen now b0 in
     case detail of None \<Rightarrow> b
     | Some data \<Rightarrow>
         if jdId data = [] then b
         else if rowById (jdId data) b = None \<and>
             (case optimisticRow b of None \<Rightarrow> False
              | Some o1 \<Rightarrow> strOr (jdUrl data) [] \<noteq> [] \<and> Some (rwText o1) = jdUrl data) then b
         else
           (let b1 = (if rowById (jdId data) b = None
                      then let r = createDownloadRow env now (progressJob data)
                           in announceNew data r (addRow env now r data b)
                      else b)
            in case jdProgress data of None \<Rightarrow> b1
               | Some p \<Rightarrow> b1\<lparr>bdRows := updateFirst (hasId (jdId data)) (\<lambda>r. updateDownloadProgress r p) (bdRows b1)\<rparr>))"

section \<open>Submitting a URL\<close>

text \<open>The listener \<open>replace\<close> number \<open>k\<close>: the optimistic row becomes the row of the job with its URL.\<close>

definition isOptimisticOf :: "string \<Rightarrow> row \<Rightarrow> bool" where
  "isOptimisticOf url r \<longleftrightarrow> rwOptimistic r \<and> rwText r = url"

definition adopt :: "string \<Rightarrow> row \<Rightarrow> row" where
  "adopt i r = r\<lparr>rwJob := Some i, rwOptimistic := False\<rparr>"

definition replaceListener :: "pageEnv \<Rightarrow> int \<Rightarrow> nat \<Rightarrow> jobData option \<Rightarrow> board \<Rightarrow> board" where
  "replaceListener env now k detail b = (case detail of None \<Rightarrow> b
     | Some data \<Rightarrow>
         let url = strOr (jdUrl data) [] in
         if url = [] then b
         else (case optimisticRow b of None \<Rightarrow> b
           | Some o1 \<Rightarrow>
               if rwText o1 = url then
                 (case updateDownloadRow env now (adopt (jdId data) o1) data of (r1, said) \<Rightarrow>
                    (let b1 = b\<lparr>bdRows := updateFirst rwOptimistic (\<lambda>_. r1) (bdRows b)\<rparr>;
                         b2 = (case said of None \<Rightarrow> b1 | Some m \<Rightarrow> announceDownloadUpdate m b1)
                     in b2\<lparr>bdReplacers := filter (\<lambda>j. j \<noteq> k) (bdReplacers b2)\<rparr>))
               else b))"

text \<open>Dispatching \<open>job-update\<close>: the handler, then the listeners registered when the event is sent.\<close>

definition dispatchJobUpdate :: "pageEnv \<Rightarrow> int \<Rightarrow> jobData option \<Rightarrow> board \<Rightarrow> board" where
  "dispatchJobUpdate env now detail b =
     foldl (\<lambda>b1 k. if k \<in> set (bdReplacers b1) then replaceListener env now k detail b1 else b1)
       (handleJobUpdate env now detail b) (bdReplacers b)"

text \<open>
  A message of the event source: text that is no JSON, JSON that is no object, or the data of a
  job. Only data with an id are sent on.
\<close>

datatype sseMessage = NotJson | NoObject | Parsed jobData

definition parseSseData :: "sseMessage \<Rightarrow> jobData option" where
  "parseSseData m = (case m of NotJson \<Rightarrow> None | NoObject \<Rightarrow> None
     | Parsed data \<Rightarrow> if jdId data = [] then None else Some data)"

definition bridgeJobUpdate :: "pageEnv \<Rightarrow> int \<Rightarrow> sseMessage \<Rightarrow> board \<Rightarrow> board" where
  "bridgeJobUpdate env now m b = (case parseSseData m of None \<Rightarrow> b
     | Some data \<Rightarrow> dispatchJobUpdate env now (Some data) b)"

definition bridgeProgressUpdate :: "pageEnv \<Rightarrow> int \<Rightarrow> sseMessage \<Rightarrow> board \<Rightarrow> board" where
  "bridgeProgressUpdate env now m b = (case parseSseData m of None \<Rightarrow> b
     | Some data \<Rightarrow> handleProgressUpdate env now (Some data) b)"

text \<open>
  The row for a submitted URL: \<open>optId\<close> is the made-up id (time and random text), \<open>stamp\<close> the
  current time as text.
\<close>

definition optimisticJob :: "int \<Rightarrow> string \<Rightarrow> string \<Rightarrow> string \<Rightarrow> jobData" where
  "optimisticJob now optId stamp url = \<lparr>jdId = optId, jdUrl = Some url, jdTitle = None,
     jdStatus = Some ''pending'', jdCreated = Some stamp, jdUpdated = Some stamp,
     jdSortKey = Some (roundDouble (of_int now / 1000)), jdProgress = None\<rparr>"

definition onSubmit :: "pageEnv \<Rightarrow> int \<Rightarrow> string \<Rightarrow> string \<Rightarrow> string option \<Rightarrow> board \<Rightarrow> board" where
  "onSubmit env now optId stamp input b =
     (let url = (case input of None \<Rightarrow> [] | Some v \<Rightarrow> trim v) in
      if url = [] then b
      else if (case optimisticRow b of None \<Rightarrow> False | Some o1 \<Rightarrow> rwText o1 = url) then b
      else
        (let b1 = b\<lparr>bdRows := removeFirst rwOptimistic (bdRows b)\<rparr>;
             data = optimisticJob now optId stamp url;
             r = (createDownloadRow env now data)\<lparr>rwOptimistic := True\<rparr>;
             b2 = updateStats (addRow env now r data b1)
         in b2\<lparr>bdReplacers := bdReplacers b2 @ [bdNextReplacer b2], bdNextReplacer := Suc (bdNextReplacer b2)\<rparr>))"

section \<open>htmx events\<close>

text \<open>
  The rows that stay after \<open>htmx:afterOnLoad\<close>: the first of each id, and those without one.
\<close>

fun dedupe :: "string set \<Rightarrow> row list \<Rightarrow> row list" where
  "dedupe ids [] = []"
| "dedupe ids (r # rs) = (case rwJob r of
     None \<Rightarrow> r # dedupe ids rs
   | Some i \<Rightarrow>
       if i = [] then r # dedupe ids rs
       else if i \<in> ids then dedupe ids rs else r # dedupe (insert i ids) rs)"

definition afterOnLoad :: "string option \<Rightarrow> board \<Rightarrow> board" where
  "afterOnLoad rowId b =
     (let b1 = (case rowId of None \<Rightarrow> b | Some i \<Rightarrow> if i = [] then b else b\<lparr>bdPending := insert i (bdPending b)\<rparr>)
      in if bdPlace b1 = RowsElement
         then b1\<lparr>bdRows := filter (\<lambda>r. \<not> rwOptimistic r) (dedupe {} (bdRows b1))\<rparr> else b1)"

text \<open>A row of the template \<open>_download_item.html\<close>: it has no sort key.\<close>

definition serverRow :: "string \<Rightarrow> string \<Rightarrow> string \<Rightarrow> badge \<Rightarrow> bool \<Rightarrow> row" where
  "serverRow jobId label time bg save = \<lparr>rwJob = Some jobId, rwOptimistic = False, rwText = label, rwTime = time,
     rwBadge = Some bg, rwSave = (if save then Some (''/web/downloads/'' @ jobId @ ''/file'', True) else None),
     rwDelete = ''/web/downloads/'' @ jobId, rwSort = Fin 0, rwBar = None, rwEta = None\<rparr>"

definition afterSwap :: "board \<Rightarrow> board" where
  "afterSwap b = updateStats (clearSkel b)"

datatype boardEvent =
    JobMessage sseMessage
  | ProgressMessage sseMessage
  | Submit string string "string option"
  | SwapIn string string string badge bool
  | SwapOut string
  | LoadDone "string option"
  | PendingExpires string
  | ReplacerExpires nat
  | SkeletonTimer
  | SseFails
  | Mutation
  | AnnounceFires
  | ConnectionEvent monEvent

fun boardStep :: "pageEnv \<Rightarrow> int \<Rightarrow> boardEvent \<Rightarrow> board \<Rightarrow> board" where
  "boardStep env now (JobMessage m) b = bridgeJobUpdate env now m b"
| "boardStep env now (ProgressMessage m) b = bridgeProgressUpdate env now m b"
| "boardStep env now (Submit optId stamp input) b = onSubmit env now optId stamp input b"
| "boardStep env now (SwapIn i label time bg save) b =
     afterSwap (b\<lparr>bdRows := serverRow i label time bg save # bdRows b\<rparr>)"
| "boardStep env now (SwapOut i) b = afterSwap (b\<lparr>bdRows := removeFirst (hasId i) (bdRows b)\<rparr>)"
| "boardStep env now (LoadDone i) b = afterOnLoad i b"
| "boardStep env now (PendingExpires i) b = b\<lparr>bdPending := bdPending b - {i}\<rparr>"
| "boardStep env now (ReplacerExpires k) b = b\<lparr>bdReplacers := filter (\<lambda>j. j \<noteq> k) (bdReplacers b)\<rparr>"
| "boardStep env now SkeletonTimer b = clearSkel b"
| "boardStep env now SseFails b = clearSkel b"
| "boardStep env now Mutation b = onMutation b"
| "boardStep env now AnnounceFires b = announceTimer b"
| "boardStep env now (ConnectionEvent e) b = b\<lparr>bdMon := monStep now e (bdMon b)\<rparr>"

definition boardRun :: "pageEnv \<Rightarrow> (int \<times> boardEvent) list \<Rightarrow> board \<Rightarrow> board" where
  "boardRun env es b = foldl (\<lambda>b1 (now, e). boardStep env now e b1) b es"

text \<open>The page as it loads: the server's rows under the skeleton, nothing submitted yet.\<close>

definition boardInit :: "row list \<Rightarrow> nat \<Rightarrow> listPlace \<Rightarrow> monitor \<Rightarrow> board" where
  "boardInit rows others place mon = observeSkeletonRows
     \<lparr>bdRows = rows, bdPlace = place, bdOthers = others, bdSkeleton = True, bdLoading = True,
      bdObserver = None, bdStats = (0, 0, 0), bdPending = {}, bdSpoken = [], bdSay = None,
      bdReplacers = [], bdNextReplacer = 0, bdMon = mon\<rparr>"

section \<open>Facts\<close>

named_theorems board_frame \<open>what the operations leave alone\<close>

definition ids :: "board \<Rightarrow> string option list" where
  "ids b = map rwJob (bdRows b)"

definition optimisticCount :: "board \<Rightarrow> nat" where
  "optimisticCount b = length (filter rwOptimistic (bdRows b))"

lemma clearSkel_frame [simp, board_frame]:
  "bdRows (clearSkel b) = bdRows b" "bdPlace (clearSkel b) = bdPlace b" "bdPending (clearSkel b) = bdPending b"
  "bdReplacers (clearSkel b) = bdReplacers b" "bdNextReplacer (clearSkel b) = bdNextReplacer b"
  by (simp_all add: clearSkel_def stopSkeletonObserver_def Let_def)

lemma seen_frame [simp, board_frame]:
  "bdRows (seen now b) = bdRows b" "bdPlace (seen now b) = bdPlace b" "bdPending (seen now b) = bdPending b"
  "bdReplacers (seen now b) = bdReplacers b"
  by (simp_all add: seen_def)

lemma announce_frame [simp, board_frame]:
  "bdRows (announceDownloadUpdate m b) = bdRows b" "bdPlace (announceDownloadUpdate m b) = bdPlace b"
  "bdReplacers (announceDownloadUpdate m b) = bdReplacers b" "bdPending (announceDownloadUpdate m b) = bdPending b"
  "bdStats (announceDownloadUpdate m b) = bdStats b"
  "bdRows (announceNew d r b) = bdRows b" "bdReplacers (announceNew d r b) = bdReplacers b"
  "bdRows (updateStats b) = bdRows b" "bdReplacers (updateStats b) = bdReplacers b"
  by (simp_all add: announceDownloadUpdate_def announceNew_def updateStats_def Let_def)

lemma onMutation_frame [simp]: "bdRows (onMutation b) = bdRows b"
  by (simp add: onMutation_def split: option.split)

lemma announceTimer_frame [simp]: "bdRows (announceTimer b) = bdRows b"
  by (simp add: announceTimer_def split: option.split)

lemmas board_views = optimisticRow_def optimisticCount_def rowById_def ids_def

text \<open>What an update keeps of its row.\<close>

lemma updateDownloadRow_keeps:
  "updateDownloadRow env now r d = (r1, said) \<Longrightarrow>
     rwJob r1 = rwJob r \<and> rwOptimistic r1 = rwOptimistic r \<and> rwText r1 = rwText r \<and> rwSort r1 = rwSort r \<and>
     rwDelete r1 = rwDelete r"
  by (auto simp: updateDownloadRow_def Let_def split: option.splits if_splits)

lemma updateDownloadProgress_keeps [simp]:
  "rwJob (updateDownloadProgress r p) = rwJob r"
  "rwOptimistic (updateDownloadProgress r p) = rwOptimistic r"
  by (simp_all add: updateDownloadProgress_def Let_def split: option.split)

lemma createDownloadRow_fields [simp]:
  "rwJob (createDownloadRow env now d) = Some (jdId d)" "\<not> rwOptimistic (createDownloadRow env now d)"
  "rwDelete (createDownloadRow env now d) = jobPath (jdId d)"
  by (simp_all add: createDownloadRow_def Let_def)

lemma map_updateFirst: "(\<And>x. x \<in> set xs \<Longrightarrow> P x \<Longrightarrow> g (f x) = g x) \<Longrightarrow> map g (updateFirst P f xs) = map g xs"
  by (induction xs) auto

lemma find_None: "find P xs = None \<longleftrightarrow> (\<forall>x\<in>set xs. \<not> P x)"
  by (auto simp: find_None_iff)

lemma find_Some_in: "find P xs = Some x \<Longrightarrow> x \<in> set xs \<and> P x"
  by (induction xs) (auto split: if_splits)

lemma updateFirst_found: "find P xs = Some x \<Longrightarrow> g y = g x \<Longrightarrow> map g (updateFirst P (\<lambda>_. y) xs) = map g xs"
  by (induction xs) (auto split: if_splits)

text \<open>The number of rows with a property, as a function of the list.\<close>

definition countOf :: "('a \<Rightarrow> bool) \<Rightarrow> 'a list \<Rightarrow> nat" where
  "countOf P xs = length (filter P xs)"

lemma countOf_map: "map P xs = map P ys \<Longrightarrow> countOf P xs = countOf P ys"
proof -
  assume "map P xs = map P ys"
  moreover have "countOf P zs = length (filter id (map P zs))" for zs
    by (simp add: countOf_def filter_map)
  ultimately show ?thesis by metis
qed

lemma countOf_placeRow: "countOf P (placeRow r xs) = countOf P (r # xs)"
proof -
  have "length (filter P (placeRow r xs)) = size (filter_mset P (mset (placeRow r xs)))"
    by (metis mset_filter size_mset)
  also have "\<dots> = size (filter_mset P (mset (r # xs)))" by (simp add: mset_placeRow)
  finally show ?thesis by (simp add: countOf_def flip: mset_filter)
qed

lemma countOf_removeFirst: "countOf P (removeFirst P xs) = countOf P xs - 1"
  by (induction xs) (auto simp: countOf_def)

lemma countOf_removeFirst_le: "countOf P (removeFirst Q xs) \<le> countOf P xs"
  by (induction xs) (auto simp: countOf_def)

lemma countOf_updateFirst_out: "find P xs = Some x \<Longrightarrow> \<not> P y \<Longrightarrow> countOf P (updateFirst P (\<lambda>_. y) xs) = countOf P xs - 1"
  by (induction xs) (auto simp: countOf_def split: if_splits)

lemma countOf_zero: "countOf P xs = 0 \<longleftrightarrow> find P xs = None"
  by (simp add: countOf_def find_None filter_empty_conv)

lemma optimisticCount_eq: "optimisticCount b = countOf rwOptimistic (bdRows b)"
  by (simp add: optimisticCount_def countOf_def)

section \<open>At most one optimistic row\<close>

lemma addRow_count: "optimisticCount (addRow env now r d b) \<le> optimisticCount b + (if rwOptimistic r then 1 else 0)"
  by (auto simp: addRow_def insertRowSorted_def optimisticCount_eq countOf_placeRow) (simp_all add: countOf_def)

lemma updateListed_rows:
  "map rwJob (bdRows (updateListed env now P d b)) = map rwJob (bdRows b)"
  "map rwOptimistic (bdRows (updateListed env now P d b)) = map rwOptimistic (bdRows b)"
  by (auto simp: updateListed_def Let_def updateFirst_found dest: updateDownloadRow_keeps
      split: option.split prod.split)

lemma optimisticCount_map: "map rwOptimistic (bdRows a) = map rwOptimistic (bdRows b) \<Longrightarrow> optimisticCount a = optimisticCount b"
  unfolding optimisticCount_eq by (rule countOf_map)

lemma handleJobUpdate_count: "optimisticCount (handleJobUpdate env now d b) \<le> optimisticCount b"
proof -
  have u: "optimisticCount (updateStats (updateListed env now P data (seen now b))) = optimisticCount b" for P data
    by (rule optimisticCount_map) (simp add: updateListed_rows)
  have a: "optimisticCount (updateStats (announceNew data (createDownloadRow env now data)
      (addRow env now (createDownloadRow env now data) data (seen now b)))) \<le> optimisticCount b" for data
    using addRow_count [of env now "createDownloadRow env now data" data "seen now b"] by (simp add: board_views)
  have s: "optimisticCount (seen now b) = optimisticCount b" by (simp add: board_views)
  show ?thesis using u a s
    by (simp add: handleJobUpdate_def Let_def split: option.split)
qed

lemma handleProgressUpdate_count: "optimisticCount (handleProgressUpdate env now d b) \<le> optimisticCount b"
proof -
  have a: "countOf rwOptimistic (bdRows (addRow env now (createDownloadRow env now y) x (seen now b)))
      \<le> countOf rwOptimistic (bdRows b)" for x y
    using addRow_count [of env now "createDownloadRow env now y" x "seen now b"] by (simp add: optimisticCount_eq)
  have p: "countOf rwOptimistic (updateFirst Q (\<lambda>r. updateDownloadProgress r g) rs) = countOf rwOptimistic rs" for Q g rs
    by (rule countOf_map) (simp add: map_updateFirst)
  show ?thesis
    by (simp add: handleProgressUpdate_def Let_def optimisticCount_eq p a split: option.split)
qed

lemma replaceListener_count: "optimisticCount (replaceListener env now k d b) \<le> optimisticCount b"
proof -
  have "optimisticCount (c\<lparr>bdReplacers := x\<rparr>) = optimisticCount c" for c x by (simp add: board_views)
  moreover have "countOf rwOptimistic (updateFirst rwOptimistic (\<lambda>_. r1) (bdRows b)) \<le> countOf rwOptimistic (bdRows b)"
    if "find rwOptimistic (bdRows b) = Some o1" "updateDownloadRow env now (adopt i o1) data = (r1, said)"
    for o1 i data r1 said
    using countOf_updateFirst_out [OF that(1), of r1] updateDownloadRow_keeps [OF that(2)] by (simp add: adopt_def)
  ultimately show ?thesis
    by (auto simp: replaceListener_def Let_def optimisticCount_eq optimisticRow_def split: option.split prod.split)
qed

lemma dispatch_count: "optimisticCount (dispatchJobUpdate env now d b) \<le> optimisticCount b"
proof -
  have "optimisticCount (foldl (\<lambda>b1 k. if k \<in> set (bdReplacers b1) then replaceListener env now k d b1 else b1) c ks)
      \<le> optimisticCount c" for c ks
  proof (induction ks arbitrary: c)
    case (Cons k ks)
    then show ?case using Cons.IH [of "replaceListener env now k d c"] replaceListener_count [of env now k d c]
      by (auto intro: order_trans)
  qed simp
  then show ?thesis unfolding dispatchJobUpdate_def using handleJobUpdate_count order_trans by blast
qed

lemma onSubmit_count: "optimisticCount b \<le> 1 \<Longrightarrow> optimisticCount (onSubmit env now i stamp input b) \<le> 1"
proof -
  assume b: "optimisticCount b \<le> 1"
  let ?b1 = "b\<lparr>bdRows := removeFirst rwOptimistic (bdRows b)\<rparr>"
  have z: "optimisticCount ?b1 = 0" using b by (simp add: optimisticCount_eq countOf_removeFirst)
  have "optimisticCount (addRow env now r d ?b1) \<le> 1" for r d
    using addRow_count [of env now r d ?b1] z by (auto split: if_splits)
  then show ?thesis using b by (auto simp: onSubmit_def Let_def optimisticCount_def)
qed

lemma dedupe_sub: "countOf P (dedupe s rs) \<le> countOf P rs"
  by (induction s rs rule: dedupe.induct) (auto simp: countOf_def split: option.splits)

lemma boardStep_count: "optimisticCount b \<le> 1 \<Longrightarrow> optimisticCount (boardStep env now e b) \<le> 1"
proof (cases e)
  case (JobMessage m)
  then show "optimisticCount b \<le> 1 \<Longrightarrow> ?thesis"
    using le_trans [OF dispatch_count] by (simp add: bridgeJobUpdate_def split: option.split)
next
  case (ProgressMessage m)
  then show "optimisticCount b \<le> 1 \<Longrightarrow> ?thesis"
    using le_trans [OF handleProgressUpdate_count] by (simp add: bridgeProgressUpdate_def split: option.split)
next
  case (SwapOut i)
  then show "optimisticCount b \<le> 1 \<Longrightarrow> ?thesis"
    using countOf_removeFirst_le [of rwOptimistic "hasId i" "bdRows b"]
    by (simp add: afterSwap_def optimisticCount_eq)
next
  case (LoadDone i)
  then show "optimisticCount b \<le> 1 \<Longrightarrow> ?thesis"
    by (simp add: afterOnLoad_def Let_def optimisticCount_def filter_filter split: option.split)
next
  case (Submit i stamp input)
  then show "optimisticCount b \<le> 1 \<Longrightarrow> ?thesis" using onSubmit_count by simp
qed (simp_all add: optimisticCount_def afterSwap_def serverRow_def)

lemma boardRun_snoc [simp]: "boardRun env (es @ [(now, e)]) b = boardStep env now e (boardRun env es b)"
  by (simp add: boardRun_def)

lemma boardRun_count: "optimisticCount b \<le> 1 \<Longrightarrow> optimisticCount (boardRun env es b) \<le> 1"
proof (induction es rule: rev_induct)
  case (snoc x es)
  then show ?case using boardStep_count by (cases x) simp
qed (simp add: boardRun_def)

section \<open>Row ids\<close>

text \<open>What handling a job message does to the ids: nothing, or it adds the new id.\<close>

lemma mset_map_placeRow: "mset (map g (placeRow r xs)) = add_mset (g r) (mset (map g xs))"
  by (induction xs) auto

lemma ids_addRow:
  "mset (ids (addRow env now r d b)) = (if bdPlace b = NoList then mset (ids b) else add_mset (rwJob r) (mset (ids b)))"
  by (simp add: ids_def addRow_def insertRowSorted_def mset_map_placeRow del: mset_map)

lemma rowById_None: "rowById i b = None \<longleftrightarrow> Some i \<notin> set (ids b)"
  by (auto simp: rowById_def find_None hasId_def ids_def image_iff)

lemma find_placeRow: "\<not> P r \<Longrightarrow> find P (placeRow r xs) = find P xs"
  by (induction xs) auto

text \<open>Whether the message is taken by the optimistic row.\<close>

definition takenBy :: "jobData \<Rightarrow> board \<Rightarrow> bool" where
  "takenBy data b \<longleftrightarrow> (case optimisticRow b of None \<Rightarrow> False | Some o1 \<Rightarrow> Some (rwText o1) = jdUrl data)"

lemma handleJobUpdate_unknown:
  assumes "rowById (jdId data) b = None" "jdId data \<noteq> []"
  shows "mset (ids (handleJobUpdate env now (Some data) b)) =
    (if jdId data \<in> bdPending b \<or> takenBy data b \<or> bdPlace b = NoList then mset (ids b)
     else add_mset (Some (jdId data)) (mset (ids b)))"
  using assms ids_addRow [of env now "createDownloadRow env now data" data "seen now b"]
  by (simp add: handleJobUpdate_def Let_def takenBy_def board_views)

lemma handleJobUpdate_known:
  assumes "rowById (jdId data) b \<noteq> None"
  shows "ids (handleJobUpdate env now (Some data) b) = ids b"
proof (cases "jdId data = []")
  case False
  then show ?thesis using assms updateListed_rows(1) [of env now "hasId (jdId data)" data "seen now b"]
    by (auto simp: handleJobUpdate_def Let_def board_views split: option.split)
qed (simp add: handleJobUpdate_def Let_def board_views)

text \<open>At most one listener adopts the optimistic row in one dispatch.\<close>

lemma replace_none: "optimisticRow b = None \<Longrightarrow> replaceListener env now k d b = b"
  by (simp add: replaceListener_def Let_def split: option.split)

lemma replace_cases:
  "replaceListener env now k d b = b \<or> optimisticCount (replaceListener env now k d b) = optimisticCount b - 1"
proof -
  have "countOf rwOptimistic (updateFirst rwOptimistic (\<lambda>_. r1) (bdRows b)) = countOf rwOptimistic (bdRows b) - 1"
    if "find rwOptimistic (bdRows b) = Some o1" "updateDownloadRow env now (adopt i o1) data = (r1, said)"
    for o1 i data r1 said
    using countOf_updateFirst_out [OF that(1), of r1] updateDownloadRow_keeps [OF that(2)] by (simp add: adopt_def)
  then show ?thesis
    by (auto simp: replaceListener_def Let_def optimisticCount_eq optimisticRow_def split: option.split prod.split)
qed

lemma dispatch_cases:
  assumes "optimisticCount b \<le> 1"
  shows "dispatchJobUpdate env now d b = handleJobUpdate env now d b \<or>
    (\<exists>k. dispatchJobUpdate env now d b = replaceListener env now k d (handleJobUpdate env now d b))"
proof -
  let ?f = "\<lambda>b1 k. if k \<in> set (bdReplacers b1) then replaceListener env now k d b1 else b1"
  have none: "foldl ?f c ks = c" if "optimisticRow c = None" for c ks
    using that by (induction ks) (simp_all add: replace_none)
  have "foldl ?f c ks = c \<or> (\<exists>k. foldl ?f c ks = replaceListener env now k d c)" if le: "optimisticCount c \<le> 1" for c ks
  proof (induction ks)
    case (Cons k ks)
    let ?r = "replaceListener env now k d c"
    consider (same) "k \<notin> set (bdReplacers c) \<or> ?r = c" | (adopted) "k \<in> set (bdReplacers c)" "optimisticRow ?r = None"
    proof (cases "k \<in> set (bdReplacers c) \<and> ?r \<noteq> c")
      case True
      then have "countOf rwOptimistic (bdRows ?r) = 0"
        using replace_cases [of env now k d c] le by (simp add: optimisticCount_eq)
      then show ?thesis using True countOf_zero [of rwOptimistic "bdRows ?r"]
        by (intro that(2)) (simp_all add: optimisticRow_def)
    qed blast
    then show ?case
    proof cases
      case same
      then have "?f c k = c" by auto
      with Cons show ?thesis by simp
    next
      case adopted
      then have "foldl ?f c (k # ks) = ?r" by (simp add: none)
      then show ?thesis by blast
    qed
  qed simp
  with order_trans [OF handleJobUpdate_count assms] show ?thesis unfolding dispatchJobUpdate_def by blast
qed

lemma replace_not_taken: "\<not> takenBy data b \<Longrightarrow> replaceListener env now k (Some data) b = b"
  by (auto simp: replaceListener_def Let_def takenBy_def strOr_def split: option.splits if_splits)

lemma updateFirst_new_id:
  "i \<notin> set (map g xs) \<Longrightarrow> distinct (map g xs) \<Longrightarrow> g y = i \<Longrightarrow>
     distinct (map g (updateFirst P (\<lambda>_. y) xs)) \<and> set (map g (updateFirst P (\<lambda>_. y) xs)) \<subseteq> insert i (set (map g xs))"
  by (induction xs) auto

lemma replace_fresh:
  assumes "Some (jdId data) \<notin> set (ids b)" "distinct (ids b)"
  shows "distinct (ids (replaceListener env now k (Some data) b))"
proof -
  have "distinct (map rwJob (updateFirst rwOptimistic (\<lambda>_. r1) (bdRows b)))"
    if "updateDownloadRow env now (adopt (jdId data) o1) data = (r1, said)" for o1 r1 said
    using updateFirst_new_id [of "Some (jdId data)" rwJob "bdRows b" r1 rwOptimistic] assms
      updateDownloadRow_keeps [OF that] by (simp add: ids_def adopt_def)
  then show ?thesis using assms(2)
    by (auto simp: replaceListener_def Let_def ids_def split: option.split prod.split)
qed

lemma find_text:
  "map rwOptimistic xs = map rwOptimistic ys \<Longrightarrow> map rwText xs = map rwText ys \<Longrightarrow>
     map_option rwText (find rwOptimistic xs) = map_option rwText (find rwOptimistic ys)"
proof (induction xs arbitrary: ys)
  case (Cons x xs)
  then show ?case by (cases ys) auto
qed simp

lemma takenBy_text: "takenBy data b \<longleftrightarrow> jdUrl data \<noteq> None \<and> map_option rwText (optimisticRow b) = jdUrl data"
  by (cases "jdUrl data") (auto simp: takenBy_def split: option.split)

lemma updateListed_text: "map rwText (bdRows (updateListed env now P d b)) = map rwText (bdRows b)"
  by (auto simp: updateListed_def Let_def updateFirst_found dest: updateDownloadRow_keeps
      split: option.split prod.split)

lemma handleJobUpdate_taken:
  assumes "\<not> takenBy data b"
  shows "\<not> takenBy data (handleJobUpdate env now (Some data) b)"
proof -
  have known: "map_option rwText (find rwOptimistic (bdRows (updateListed env now (hasId (jdId data)) data (seen now b)))) =
      map_option rwText (find rwOptimistic (bdRows b))"
    by (rule find_text) (simp_all add: updateListed_rows updateListed_text)
  have new: "find rwOptimistic (bdRows (addRow env now (createDownloadRow env now data) data (seen now b))) =
      find rwOptimistic (bdRows b)"
    by (simp add: addRow_def insertRowSorted_def find_placeRow)
  show ?thesis using assms known new unfolding takenBy_text
    by (cases "jdUrl data") (auto simp: handleJobUpdate_def Let_def optimisticRow_def split: option.split)
qed

lemma dispatch_distinct:
  assumes one: "optimisticCount b \<le> 1" and dist: "distinct (ids b)" and id: "jdId data \<noteq> []"
    and free: "Some (jdId data) \<in> set (ids b) \<Longrightarrow> \<not> takenBy data b"
  shows "distinct (ids (dispatchJobUpdate env now (Some data) b))"
proof -
  let ?h = "handleJobUpdate env now (Some data) b"
  show ?thesis
  proof (cases "takenBy data b")
    case True
    then have u: "rowById (jdId data) b = None" using free by (auto simp: rowById_None)
    then have "mset (ids ?h) = mset (ids b)" using True by (simp add: handleJobUpdate_unknown id)
    then have "distinct (ids ?h)" "Some (jdId data) \<notin> set (ids ?h)"
      using dist u mset_eq_imp_distinct_iff mset_eq_setD by (metis, metis rowById_None)
    then show ?thesis using dispatch_cases [OF one, of env now "Some data"] replace_fresh by metis
  next
    case False
    then have "dispatchJobUpdate env now (Some data) b = ?h"
      using dispatch_cases [OF one, of env now "Some data"] handleJobUpdate_taken replace_not_taken by metis
    moreover have "distinct (ids ?h)"
    proof (cases "rowById (jdId data) b")
      case None
      then have "distinct (Some (jdId data) # ids b)" using dist by (simp add: rowById_None)
      moreover have "mset (ids ?h) = mset (ids b) \<or> mset (ids ?h) = mset (Some (jdId data) # ids b)"
        using handleJobUpdate_unknown [OF None id] by (auto split: if_splits)
      ultimately show ?thesis using dist mset_eq_imp_distinct_iff by metis
    qed (simp add: handleJobUpdate_known dist)
    ultimately show ?thesis by simp
  qed
qed

section \<open>After a load\<close>

lemma dedupe_props:
  "subseq (dedupe s rs) rs \<and> (\<forall>r\<in>set (dedupe s rs). \<forall>i\<in>s. i \<noteq> [] \<longrightarrow> rwJob r \<noteq> Some i) \<and>
   (\<forall>r\<in>set rs. \<forall>i. rwJob r = Some i \<and> i \<notin> s \<longrightarrow> (\<exists>q\<in>set (dedupe s rs). rwJob q = Some i))"
proof (induction s rs rule: dedupe.induct)
  case (2 s r rs)
  show ?case
  proof (cases "rwJob r")
    case None
    with 2(1) show ?thesis by auto
  next
    case (Some i)
    show ?thesis
    proof (cases "i = []")
      case True
      with 2(2) [OF Some] Some show ?thesis by auto
    next
      case False
      note F = this
      show ?thesis
      proof (cases "i \<in> s")
        case True
        with 2(3) [OF Some F] Some F show ?thesis by auto
      next
        case False
        with 2(4) [OF Some F False] Some F show ?thesis by auto
      qed
    qed
  qed
qed simp

lemma dedupe_distinct:
  "distinct (filter (\<lambda>j. j \<noteq> None \<and> j \<noteq> Some []) (map rwJob (dedupe s rs)))"
proof (induction s rs rule: dedupe.induct)
  case (2 s r rs)
  show ?case
  proof (cases "rwJob r")
    case None
    with 2(1) show ?thesis by simp
  next
    case (Some i)
    show ?thesis
    proof (cases "i = [] \<or> i \<in> s")
      case True
      with 2 Some show ?thesis by auto
    next
      case False
      then have "distinct (filter (\<lambda>j. j \<noteq> None \<and> j \<noteq> Some []) (map rwJob (dedupe (insert i s) rs)))"
        using 2(4) [OF Some] by simp
      moreover have "Some i \<notin> set (map rwJob (dedupe (insert i s) rs))"
        using dedupe_props [of "insert i s" rs] False by fastforce
      ultimately show ?thesis using Some False by auto
    qed
  qed
qed simp

text \<open>
  The load handler leaves at most one row of each id and no optimistic row, keeps the order, and
  loses the id of no job whose rows are all the server's or adopted.
\<close>

theorem afterOnLoad_clean:
  assumes "bdPlace b = RowsElement"
  shows "distinct (filter (\<lambda>j. j \<noteq> None \<and> j \<noteq> Some []) (ids (afterOnLoad i b))) \<and>
    optimisticCount (afterOnLoad i b) = 0 \<and> subseq (bdRows (afterOnLoad i b)) (bdRows b) \<and>
    (\<forall>r\<in>set (bdRows b). \<forall>j. rwJob r = Some j \<and> (\<forall>q\<in>set (bdRows b). rwJob q = Some j \<longrightarrow> \<not> rwOptimistic q) \<longrightarrow>
       Some j \<in> set (ids (afterOnLoad i b)))"
proof -
  have rows: "bdRows (afterOnLoad i b) = filter (\<lambda>r. \<not> rwOptimistic r) (dedupe {} (bdRows b))"
    using assms by (simp add: afterOnLoad_def Let_def split: option.split)
  note d = dedupe_props [of "{}" "bdRows b"]
  have "distinct (filter P (map rwJob xs)) \<Longrightarrow> distinct (filter P (map rwJob (filter Q xs)))" for P Q xs
    by (induction xs) auto
  then have "distinct (filter (\<lambda>j. j \<noteq> None \<and> j \<noteq> Some []) (ids (afterOnLoad i b)))"
    unfolding ids_def rows using dedupe_distinct by blast
  moreover have "subseq (bdRows (afterOnLoad i b)) (bdRows b)"
    unfolding rows using d subseq_filter_left subseq_order.order_trans by blast
  moreover have "Some j \<in> set (ids (afterOnLoad i b))"
    if r: "r \<in> set (bdRows b)" "rwJob r = Some j" "\<forall>q\<in>set (bdRows b). rwJob q = Some j \<longrightarrow> \<not> rwOptimistic q" for r j
  proof -
    obtain q where q: "q \<in> set (dedupe {} (bdRows b))" "rwJob q = Some j" using d r by blast
    have "subseq (dedupe {} (bdRows b)) (bdRows b)" using d by blast
    from list_emb_set [OF this q(1)] have "q \<in> set (bdRows b)" by auto
    then have "\<not> rwOptimistic q" using r(3) q(2) by simp
    then show ?thesis using q by (force simp: ids_def rows)
  qed
  ultimately show ?thesis by (simp add: optimisticCount_def rows)
qed

section \<open>Order\<close>

lemma newestFirst_keys: "map rwSort xs = map rwSort ys \<Longrightarrow> newestFirst xs = newestFirst ys"
proof -
  have "newestFirst zs \<longleftrightarrow> sorted_wrt (\<lambda>a b. b \<le> a) (filter (\<lambda>k. k \<noteq> NaN) (map rwSort zs))" for zs
    by (simp add: newestFirst_def keyed_def filter_map sorted_wrt_map comp_def)
  then show "map rwSort xs = map rwSort ys \<Longrightarrow> newestFirst xs = newestFirst ys" by simp
qed

lemma updateListed_keys: "map rwSort (bdRows (updateListed env now P d b)) = map rwSort (bdRows b)"
  by (auto simp: updateListed_def Let_def updateFirst_found dest: updateDownloadRow_keeps
      split: option.split prod.split)

lemma handleJobUpdate_order:
  assumes "newestFirst (bdRows b)"
  shows "newestFirst (bdRows (handleJobUpdate env now d b))"
proof -
  have "newestFirst (bdRows (updateListed env now P x (seen now b)))" for P x
    using newestFirst_keys [OF updateListed_keys [of env now P x "seen now b"]] assms by simp
  moreover have "newestFirst (bdRows (addRow env now r x (seen now b)))" for r x
    using newestFirst_placeRow [OF assms] assms by (simp add: addRow_def insertRowSorted_def)
  ultimately show ?thesis using assms
    by (simp add: handleJobUpdate_def Let_def split: option.split)
qed

section \<open>Properties\<close>


definition sampleBoard :: board where
  "sampleBoard = boardInit [sampleRow ''a'' ''v'' (Fin 5), sampleRow ''b'' ''w'' (Fin 3)] 0 RowsElement (monInit 0 True None)"

lemma sampleBoard_simps:
  "newestFirst (bdRows sampleBoard)" "ids sampleBoard = [Some ''a'', Some ''b'']" "bdPending sampleBoard = {}"
  "bdPlace sampleBoard = RowsElement" "optimisticRow sampleBoard = None" "optimisticCount sampleBoard = 0"
  by (simp_all add: sampleBoard_def boardInit_def observeSkeletonRows_def newestFirst_def keyed_def sampleRow_def
      ids_def optimisticRow_def optimisticCount_def sampleJob_def)


text \<open>C33: A job message, with the handler and the listeners of submitted forms together, keeps the ids
  of the rows distinct, unless the optimistic row has the URL of a job that already has a row.
\<close>

theorem job_message_ids_distinct:
  assumes "optimisticCount b \<le> 1" "distinct (ids b)"
    "\<And>data. m = Parsed data \<Longrightarrow> Some (jdId data) \<in> set (ids b) \<Longrightarrow> \<not> takenBy data b"
  shows "distinct (ids (bridgeJobUpdate env now m b))"
proof (cases "parseSseData m")
  case (Some data)
  then have "m = Parsed data" "jdId data \<noteq> []" by (auto simp: parseSseData_def split: sseMessage.splits if_splits)
  then show ?thesis using Some dispatch_distinct [OF assms(1,2)] assms(3) by (simp add: bridgeJobUpdate_def)
qed (simp add: bridgeJobUpdate_def assms(2))

theorem job_message_ids_distinct_witness:
  "distinct (ids (bridgeJobUpdate samplePage 0 (Parsed (sampleJob ''c'' ''u'' (Some (Fin 4)))) sampleBoard))"
  by (rule job_message_ids_distinct) (simp_all add: sampleBoard_simps takenBy_def)

text \<open>However messages, submissions, swaps and timers follow each other, the page never shows more
  than one optimistic row.
\<close>

theorem optimistic_row_unique:
  assumes "\<forall>r\<in>set rows. \<not> rwOptimistic r"
  shows "optimisticCount (boardRun env es (boardInit rows others place mon)) \<le> 1"
proof (rule boardRun_count)
  show "optimisticCount (boardInit rows others place mon) \<le> 1"
    using assms by (simp add: optimisticCount_def boardInit_def observeSkeletonRows_def filter_empty_conv)
qed

definition sampleSubmits :: "(int \<times> boardEvent) list" where
  "sampleSubmits = [(0, Submit ''o1'' ''d'' (Some ''u'')), (0, Submit ''o2'' ''d'' (Some ''w''))]"

theorem optimistic_row_unique_witness:
  "optimisticCount (boardRun samplePage sampleSubmits (boardInit [] 1 RowsElement (monInit 0 True None))) \<le> 1"
  by (rule optimistic_row_unique) simp

section \<open>What the code does not keep\<close>

lemma set_updateFirst: "find P xs = Some x \<Longrightarrow> y \<in> set (updateFirst P (\<lambda>_. y) xs)"
  by (induction xs) (auto split: if_splits)

text \<open>
  The adopted row keeps the delete address of the made-up id: its button asks to delete a job that
  does not exist.
\<close>

theorem adopted_row_delete_address:
  assumes "optimisticRow b = Some o1" "jdUrl data = Some (rwText o1)" "rwText o1 \<noteq> []"
  shows "\<exists>r\<in>set (bdRows (replaceListener env now k (Some data) b)). rwJob r = Some (jdId data) \<and> rwDelete r = rwDelete o1"
proof -
  obtain r1 said where u: "updateDownloadRow env now (adopt (jdId data) o1) data = (r1, said)"
    by (cases "updateDownloadRow env now (adopt (jdId data) o1) data")
  have "r1 \<in> set (bdRows (replaceListener env now k (Some data) b))"
    using assms u set_updateFirst [of rwOptimistic "bdRows b" o1 r1]
    by (simp add: replaceListener_def Let_def strOr_def optimisticRow_def split: option.split)
  then show ?thesis using updateDownloadRow_keeps [OF u] by (intro bexI [of _ r1]) (simp_all add: adopt_def)
qed

text \<open>An id that already has a row is given to the optimistic row as well.\<close>

lemma updateFirst_twice:
  "find P xs = Some z \<Longrightarrow> x \<in> set xs \<Longrightarrow> \<not> P x \<Longrightarrow> g y = g x \<Longrightarrow> \<not> distinct (map g (updateFirst P (\<lambda>_. y) xs))"
proof (induction xs)
  case (Cons w ws)
  show ?case
  proof (cases "P w")
    case True
    with Cons.prems show ?thesis by (force simp: image_iff)
  next
    case False
    with Cons.prems have w: "find P ws = Some z" by simp
    show ?thesis
    proof (cases "x = w")
      case True
      have "g y \<in> set (map g (updateFirst P (\<lambda>_. y) ws))" using set_updateFirst [OF w, of y] by simp
      then show ?thesis using True False Cons.prems(4) by simp
    next
      case x: False
      with Cons.prems have "x \<in> set ws" by simp
      with Cons.IH [OF w this Cons.prems(3,4)] False show ?thesis by simp
    qed
  qed
qed simp

theorem adoption_repeats_id:
  assumes "optimisticRow b = Some o1" "jdUrl data = Some (rwText o1)" "rwText o1 \<noteq> []"
    "x \<in> set (bdRows b)" "\<not> rwOptimistic x" "rwJob x = Some (jdId data)"
  shows "\<not> distinct (ids (replaceListener env now k (Some data) b))"
proof -
  obtain r1 said where u: "updateDownloadRow env now (adopt (jdId data) o1) data = (r1, said)"
    by (cases "updateDownloadRow env now (adopt (jdId data) o1) data")
  have "\<not> distinct (map rwJob (updateFirst rwOptimistic (\<lambda>_. r1) (bdRows b)))"
    using assms updateDownloadRow_keeps [OF u]
    by (intro updateFirst_twice [of rwOptimistic "bdRows b" o1 x]) (simp_all add: optimisticRow_def adopt_def)
  then show ?thesis using assms(1-3) u
    by (simp add: replaceListener_def Let_def strOr_def ids_def split: option.split)
qed

text \<open>A row made for a progress report is not counted.\<close>

theorem progress_row_not_counted: "bdStats (handleProgressUpdate env now d b) = bdStats b"
proof -
  have s: "bdStats (seen now b) = bdStats b"
    by (simp add: seen_def clearSkel_def stopSkeletonObserver_def Let_def)
  have a: "bdStats (announceNew x r (addRow env now r y (seen now b))) = bdStats b" for x r y
    by (simp add: announceNew_def Let_def addRow_def s)
  show ?thesis by (simp add: handleProgressUpdate_def Let_def a s split: option.split)
qed

text \<open>
  A row of the server has no sort key and reads as key 0, so every dated row is placed above it,
  however old its job is.
\<close>

theorem server_row_sinks:
  "Fin 0 < sortKey env now data \<Longrightarrow>
     insertRowSorted env now r data (serverRow i label time bg save # rows) =
       r\<lparr>rwSort := sortKey env now data\<rparr> # serverRow i label time bg save # rows"
  by (simp add: insertRowSorted_def serverRow_def)

end
