(* ===== verification/Notices.thy ===== *)
theory Notices
  imports Json Forms
begin

text \<open>
  What the page's small scripts tell the user: the toasts (\<open>toast.js\<close>), the answers to failed
  requests (\<open>htmx-error-handler.js\<close>), the messages of the sign-in pages (\<open>auth.js\<close>), the checks
  of the settings page (\<open>settings.js\<close>), the status panel (\<open>chaos-lab.js\<close>) and the JSON encoding of
  forms (\<open>json-enc.js\<close>). The browser's \<open>JSON.parse\<close>, its HTML parser (\<open>htmlText\<close>: the text content
  of parsed HTML) and the text of a number are parameters.
\<close>

section \<open>Toasts\<close>

datatype fade = Visible | Fading | Gone

text \<open>A toast or a success box: its class, text, fading, and the mark of a scheduled dismissal.\<close>

record notice =
  noClass :: string
  noText :: string
  noFade :: fade
  noScheduled :: bool

text \<open>The notices by number, and the pending timers of the two stages of \<open>removeAfterFade\<close>.\<close>

record toastArea =
  taContainer :: bool
  taNotices :: "notice list"
  taFirst :: "nat list"
  taSecond :: "nat list"

definition removeAfterFade :: "nat \<Rightarrow> toastArea \<Rightarrow> toastArea" where
  "removeAfterFade i a = a\<lparr>taFirst := taFirst a @ [i]\<rparr>"

definition setFade :: "nat \<Rightarrow> fade \<Rightarrow> toastArea \<Rightarrow> toastArea" where
  "setFade i f a = a\<lparr>taNotices := (if i < length (taNotices a)
     then (taNotices a)[i := (taNotices a ! i)\<lparr>noFade := f\<rparr>] else taNotices a)\<rparr>"

definition firstTimer :: "nat \<Rightarrow> toastArea \<Rightarrow> toastArea" where
  "firstTimer i a = (if i \<in> set (taFirst a)
     then (setFade i Fading a)\<lparr>taFirst := remove1 i (taFirst a), taSecond := taSecond a @ [i]\<rparr> else a)"

definition secondTimer :: "nat \<Rightarrow> toastArea \<Rightarrow> toastArea" where
  "secondTimer i a = (if i \<in> set (taSecond a) then (setFade i Gone a)\<lparr>taSecond := remove1 i (taSecond a)\<rparr> else a)"

definition scheduleSuccessBoxDismiss :: "nat \<Rightarrow> toastArea \<Rightarrow> toastArea" where
  "scheduleSuccessBoxDismiss i a =
     (if length (taNotices a) \<le> i \<or> noScheduled (taNotices a ! i) then a
      else removeAfterFade i (a\<lparr>taNotices := (taNotices a)[i := (taNotices a ! i)\<lparr>noScheduled := True\<rparr>]\<rparr>))"

definition scheduleSuccessBoxDismissals :: "nat list \<Rightarrow> toastArea \<Rightarrow> toastArea" where
  "scheduleSuccessBoxDismissals boxes a = foldl (\<lambda>a1 i. scheduleSuccessBoxDismiss i a1) a boxes"

definition toastNotice :: "string \<Rightarrow> string option \<Rightarrow> notice" where
  "toastNotice message kind = \<lparr>noClass = ''toast toast-'' @ (case kind of None \<Rightarrow> ''info'' | Some k \<Rightarrow> if k = [] then ''info'' else k),
     noText = message, noFade = Visible, noScheduled = False\<rparr>"

definition showToast :: "string \<Rightarrow> string option \<Rightarrow> toastArea \<Rightarrow> toastArea" where
  "showToast message kind a = (if \<not> taContainer a then a
     else removeAfterFade (length (taNotices a)) (a\<lparr>taNotices := taNotices a @ [toastNotice message kind]\<rparr>))"

section \<open>Failed requests\<close>

text \<open>
  A response: its status, its body and the \<open>Retry-After\<close> header; and where its request came from:
  the path, and the target of the source element, if that has one and it is in the page.
\<close>

record failedReply =
  frStatus :: nat
  frText :: string
  frRetryAfter :: "string option"
  frPath :: "string option"
  frTarget :: "string option"

text \<open>The errors shown beside a target, the address the page is sent to, and the toasts.\<close>

record screen =
  scInline :: "string \<rightharpoonup> string"
  scLocation :: "string option"
  scToasts :: toastArea

definition AUTH_FORM_ENDPOINT_PREFIXES :: "string list" where
  "AUTH_FORM_ENDPOINT_PREFIXES = [''/web/login'', ''/web/register'']"

definition requestPath :: "failedReply \<Rightarrow> string" where
  "requestPath r = (case frPath r of None \<Rightarrow> [] | Some p \<Rightarrow> p)"

definition isAuthFormRequest :: "failedReply \<Rightarrow> bool" where
  "isAuthFormRequest r \<longleftrightarrow> list_ex (startsWith (requestPath r)) AUTH_FORM_ENDPOINT_PREFIXES"

definition isWebFormRequest :: "failedReply \<Rightarrow> bool" where
  "isWebFormRequest r \<longleftrightarrow> startsWith (requestPath r) ''/web/''"

definition renderErrorNextToTarget :: "failedReply \<Rightarrow> screen \<Rightarrow> screen option" where
  "renderErrorNextToTarget r s = (if frText r = [] then None
     else (case frTarget r of None \<Rightarrow> None | Some t \<Rightarrow> Some (s\<lparr>scInline := (scInline s)(t \<mapsto> frText r)\<rparr>)))"

definition toast :: "string \<Rightarrow> string \<Rightarrow> screen \<Rightarrow> screen" where
  "toast message kind s = s\<lparr>scToasts := showToast message (Some kind) (scToasts s)\<rparr>"

definition rateLimitText :: "string option \<Rightarrow> string" where
  "rateLimitText retryAfter = (if truthyStr retryAfter then ''Rate limited. Try again in '' @ the retryAfter @ ''s''
     else ''Too many requests. Please wait before trying again.'')"

definition statusNotice :: "failedReply \<Rightarrow> screen \<Rightarrow> screen" where
  "statusNotice r s =
     (if frStatus r = 401 then (if isAuthFormRequest r then s else s\<lparr>scLocation := Some ''/web/login?expired=1''\<rparr>)
      else if frStatus r = 403 then toast ''You do not have permission to perform this action'' ''error'' s
      else if frStatus r = 429 then toast (rateLimitText (frRetryAfter r)) ''warning'' s
      else if 500 \<le> frStatus r then toast ''Server error. Please try again later.'' ''error'' s
      else if 400 \<le> frStatus r then toast ''Request failed. Please check your input.'' ''error'' s
      else s)"

definition onErrorResponse :: "failedReply \<Rightarrow> screen \<Rightarrow> screen" where
  "onErrorResponse r s =
     (if isWebFormRequest r \<and> 400 \<le> frStatus r \<and> frStatus r < 500 then
        (case renderErrorNextToTarget r s of None \<Rightarrow> statusNotice r s
         | Some s1 \<Rightarrow> if frStatus r \<noteq> 401 then s1 else statusNotice r s1)
      else statusNotice r s)"

text \<open>The browser's parsers, as \<open>onAfterRequest\<close> uses them; \<open>paJson\<close> is \<open>None\<close> where \<open>JSON.parse\<close> throws.\<close>

record parsers =
  paJson :: "string \<Rightarrow> json option"
  paHtmlText :: "string \<Rightarrow> string"
  paShowNum :: "jsnum \<Rightarrow> string"

text \<open>The message in a validation response; \<open>None\<close>: there is none, or looking for it throws.\<close>

definition fieldError :: "parsers \<Rightarrow> json \<Rightarrow> string" where
  "fieldError P e = (case jget ''message'' e of
     Some m \<Rightarrow> if truthyJson m then toText (paShowNum P) m else stringify (paShowNum P) e
   | None \<Rightarrow> stringify (paShowNum P) e)"

definition nestedError :: "parsers \<Rightarrow> json \<Rightarrow> json" where
  "nestedError P e = (case e of JStr s \<Rightarrow> e
     | _ \<Rightarrow> if truthyField (jget ''error'' e) then the (jget ''error'' e)
           else if truthyField (jget ''detail'' e) then the (jget ''detail'' e)
           else JStr (stringify (paShowNum P) e))"

definition errorMessage :: "parsers \<Rightarrow> json \<Rightarrow> json option" where
  "errorMessage P r = (if r = JNull then None
     else (let err = jget ''error'' r in
       if truthyField (Option.bind err (jget ''message'')) then Option.bind err (jget ''message'')
       else if truthyField (jget ''message'' r) then jget ''message'' r
       else if truthyField err then Some (nestedError P (the err))
       else (case jget ''errors'' r of
           Some (JArr es) \<Rightarrow> (if JNull \<in> set es then None else Some (JStr (joinWith ''; '' (map (fieldError P) es))))
         | _ \<Rightarrow> if truthyField (jget ''detail'' r) then jget ''detail'' r else None)))"

definition GENERIC_FAILURE :: string where
  "GENERIC_FAILURE = ''Request failed. Please try again.''"

definition plainText :: "parsers \<Rightarrow> string \<Rightarrow> string" where
  "plainText P html = (let t = trim (paHtmlText P html) in if t = [] then GENERIC_FAILURE else t)"

definition onAfterRequest :: "parsers \<Rightarrow> failedReply \<Rightarrow> screen \<Rightarrow> screen" where
  "onAfterRequest P r s =
     (if frStatus r \<noteq> 422 then s
      else (let msg = Option.bind (paJson P (frText r)) (errorMessage P) in
        if truthyField msg then toast (plainText P (toText (paShowNum P) (the msg))) ''error'' s
        else if frText r \<noteq> [] then toast (plainText P (frText r)) ''error'' s
        else toast GENERIC_FAILURE ''error'' s))"

section \<open>Sign-in pages\<close>

definition PUBLIC_PAGES :: "string list" where
  "PUBLIC_PAGES = [''/web/login'', ''/web/register'', ''/web/health'']"

text \<open>The toasts of \<open>initAuth\<close>; \<open>get\<close> is \<open>URLSearchParams.get\<close>. Each also drops the query from the address.\<close>

definition sessionMessages :: "(string \<times> string) list" where
  "sessionMessages = [(''logged_out'', ''You have been logged out successfully.''),
     (''expired'', ''Your session has expired. Please log in again.''),
     (''account_deleted'', ''Your account has been deleted.'')]"

definition initAuth :: "(string \<Rightarrow> string option) \<Rightarrow> string \<Rightarrow> screen \<Rightarrow> screen" where
  "initAuth get pathname s =
     foldl (\<lambda>s1 (k, m). if get k = Some ''1'' then (toast m ''info'' s1)\<lparr>scLocation := Some pathname\<rparr> else s1)
       s sessionMessages"

text \<open>\<open>refreshAccessToken\<close>: the request's headers, and whether it succeeded (\<open>None\<close>: \<open>fetch\<close> rejects).\<close>

definition refreshHeaders :: "string option option \<Rightarrow> (string \<times> string option) list" where
  "refreshHeaders csrfMeta = [(''Content-Type'', Some ''application/json''),
     (''X-CSRF-Token'', (case csrfMeta of None \<Rightarrow> Some [] | Some content \<Rightarrow> content))]"

definition refreshAccessToken :: "bool option \<Rightarrow> bool" where
  "refreshAccessToken reply = (case reply of None \<Rightarrow> False | Some ok \<Rightarrow> ok)"

section \<open>Settings\<close>

definition evaluatePasswordStrength :: "string \<Rightarrow> string \<times> string" where
  "evaluatePasswordStrength password =
     (let hasMinimumLength = 8 \<le> length password;
          hasNumber = list_ex isDigit password;
          hasSpecialCharacter = list_ex (\<lambda>c. \<not> (isWordChar c \<and> c \<noteq> CHR ''_'')) password;
          checksPassed = length (filter id [hasMinimumLength, hasNumber, hasSpecialCharacter])
      in if length password = 0 then ([], [])
         else if \<not> hasMinimumLength then (''is-weak'', ''Weak password'')
         else if checksPassed = 3 then (''is-strong'', ''Strong password'')
         else if checksPassed = 2 then (''is-medium'', ''Medium strength password'')
         else (''is-weak'', ''Weak password''))"

text \<open>The password form: \<open>False\<close> is a submission that is stopped. A missing field lets it pass.\<close>

definition submitPassword :: "string option \<Rightarrow> string option \<Rightarrow> screen \<Rightarrow> bool \<times> screen" where
  "submitPassword new confirm s = (case (new, confirm) of
     (Some a, Some b) \<Rightarrow> if a \<noteq> b then (False, toast ''New password and confirmation do not match.'' ''error'' s) else (True, s)
   | _ \<Rightarrow> (True, s))"

definition submitDelete :: "string option \<Rightarrow> screen \<Rightarrow> bool \<times> screen" where
  "submitDelete confirm s =
     (let confirmValue = (case confirm of None \<Rightarrow> [] | Some v \<Rightarrow> toUpper (trim v)) in
      if confirmValue \<noteq> ''DELETE''
      then (False, toast (''Type '' @ [CHR 34] @ ''DELETE'' @ [CHR 34] @ '' to confirm account deletion.'') ''warning'' s)
      else (True, s))"

text \<open>
  The form to save the user name while its request is under way, its parts present. \<open>Saving\<close> is the
  label with an ellipsis.
\<close>

datatype saveLabel = Saving | PlainLabel string

record saveButton =
  sbBusy :: bool
  sbDisabled :: bool
  sbSpinner :: bool
  sbLabel :: saveLabel

definition setUsernameSaveLoading :: "string \<Rightarrow> bool \<Rightarrow> saveButton \<Rightarrow> saveButton" where
  "setUsernameSaveLoading defaultLabel isLoading b = b\<lparr>sbBusy := isLoading, sbDisabled := isLoading,
     sbSpinner := isLoading, sbLabel := (if isLoading then Saving else PlainLabel defaultLabel)\<rparr>"

section \<open>The status panel\<close>

datatype panelBody = FailureText | Content string

record statusPanel =
  spFailed :: bool
  spBusy :: bool
  spBody :: panelBody

definition renderChaosStatusFailure :: "statusPanel \<Rightarrow> statusPanel" where
  "renderChaosStatusFailure p = p\<lparr>spFailed := True, spBusy := False, spBody := FailureText\<rparr>"

definition clearChaosStatusFailure :: "statusPanel \<Rightarrow> statusPanel" where
  "clearChaosStatusFailure p = p\<lparr>spFailed := False, spBusy := False\<rparr>"

datatype panelEvent = PanelRequest | PanelResponseError | PanelSendError | PanelDone "bool option" | PanelSwapped string

text \<open>htmx has put the new content in before it sends \<open>afterSwap\<close>. The listeners, for an event whose element or target is in the panel (\<open>isChaosStatusRequest\<close>).\<close>

fun panelStep :: "bool \<Rightarrow> panelEvent \<Rightarrow> statusPanel \<Rightarrow> statusPanel" where
  "panelStep False e p = p"
| "panelStep True PanelRequest p = p\<lparr>spBusy := True\<rparr>"
| "panelStep True PanelResponseError p = renderChaosStatusFailure p"
| "panelStep True PanelSendError p = renderChaosStatusFailure p"
| "panelStep True (PanelDone successful) p =
     (if successful = Some False then renderChaosStatusFailure p else clearChaosStatusFailure p)"
| "panelStep True (PanelSwapped content) p = clearChaosStatusFailure (p\<lparr>spBody := Content content\<rparr>)"

section \<open>Forms as JSON\<close>

text \<open>
  Assigning to \<open>__proto__\<close> of an object with a string does nothing. (Names that are array indices,
  which an object lists first, do not occur in the forms.)
\<close>

definition encodeParameters :: "(jsnum \<Rightarrow> string) \<Rightarrow> (string \<times> string) list \<Rightarrow> string" where
  "encodeParameters showN entries = stringify showN (JObj (foldl (\<lambda>m (k, v).
     if k = ''__proto__'' then m else om_set k (JStr v) m) [] entries))"

section \<open>Facts\<close>

lemma toast_frame [simp]:
  "scInline (toast m k s) = scInline s" "scLocation (toast m k s) = scLocation s"
  "taContainer (scToasts (toast m k s)) = taContainer (scToasts s)"
  by (simp_all add: toast_def showToast_def removeAfterFade_def)

lemma toast_adds:
  "taContainer (scToasts s) \<Longrightarrow>
     taNotices (scToasts (toast m k s)) = taNotices (scToasts s) @ [toastNotice m (Some k)]"
  by (simp add: toast_def showToast_def removeAfterFade_def)

text \<open>A response error that is shown beside its target.\<close>

definition shownInline :: "failedReply \<Rightarrow> bool" where
  "shownInline r \<longleftrightarrow> isWebFormRequest r \<and> 400 \<le> frStatus r \<and> frStatus r < 500 \<and> frText r \<noteq> [] \<and> frTarget r \<noteq> None"

lemma statusNotice_parts:
  assumes "taContainer (scToasts s)"
  shows "scInline (statusNotice r s) = scInline s"
    "scLocation (statusNotice r s) = (if frStatus r = 401 \<and> \<not> isAuthFormRequest r then Some ''/web/login?expired=1'' else scLocation s)"
    "length (taNotices (scToasts (statusNotice r s))) =
       length (taNotices (scToasts s)) + (if frStatus r = 401 \<or> frStatus r < 400 then 0 else 1)"
  using assms by (simp_all add: statusNotice_def toast_adds)

lemma render_parts:
  "renderErrorNextToTarget r s = (if frText r = [] \<or> frTarget r = None then None
     else Some (s\<lparr>scInline := (scInline s)(the (frTarget r) \<mapsto> frText r)\<rparr>))"
  by (simp add: renderErrorNextToTarget_def split: option.split)

lemma toasts_frame [simp]: "scToasts (s\<lparr>scInline := x\<rparr>) = scToasts s"
  by simp

section \<open>Properties\<close>


definition sampleScreen :: screen where
  "sampleScreen = \<lparr>scInline = Map.empty, scLocation = None,
     scToasts = \<lparr>taContainer = True, taNotices = [], taFirst = [], taSecond = []\<rparr>\<rparr>"

definition sampleResponse :: "nat \<Rightarrow> failedReply" where
  "sampleResponse n = \<lparr>frStatus = n, frText = ''bad'', frRetryAfter = None, frPath = Some ''/web/downloads'',
     frTarget = Some ''#download-rows''\<rparr>"


text \<open>
  A validation error of a web form is shown beside its target and in a toast as well: the second
  listener does not ask whether the first has shown it.
\<close>

theorem validation_error_shown_twice:
  assumes "frStatus r = 422" "isWebFormRequest r" "frText r \<noteq> []" "frTarget r = Some t" "taContainer (scToasts s)"
  shows "scInline (onAfterRequest P r (onErrorResponse r s)) t = Some (frText r) \<and>
    length (taNotices (scToasts (onAfterRequest P r (onErrorResponse r s)))) = Suc (length (taNotices (scToasts s)))"
  using assms by (simp add: onAfterRequest_def Let_def onErrorResponse_def render_parts toast_adds)

text \<open>A message that is no string is shown as the text of an object.\<close>

theorem array_detail_unreadable:
  assumes "frStatus r = 422" "paJson P (frText r) = Some (JObj [(''detail'', JArr [JObj kvs])])" "taContainer (scToasts s)"
  shows "taNotices (scToasts (onAfterRequest P r s)) =
    taNotices (scToasts s) @ [toastNotice (plainText P ''[object Object]'') (Some ''error'')]"
  using assms by (simp add: onAfterRequest_def Let_def errorMessage_def jget_def truthyField_def truthyJson_def toast_adds)

text \<open>What the strength meter asks of a strong password.\<close>

theorem strong_password_iff:
  "fst (evaluatePasswordStrength p) = ''is-strong'' \<longleftrightarrow>
     8 \<le> length p \<and> (\<exists>c\<in>set p. isDigit c) \<and> (\<exists>c\<in>set p. c = CHR ''_'' \<or> \<not> isWordChar c)"
  by (auto simp: evaluatePasswordStrength_def Let_def list_ex_iff)

text \<open>Of the fields with one name, the last is sent.\<close>

lemma encode_last: 
  "om_get (foldl (\<lambda>m (k, v). if k = ''__proto__'' then m else om_set k (JStr v) m) m0 entries) k =
     (if k = ''__proto__'' then om_get m0 k
      else (case map_of (rev entries) k of None \<Rightarrow> om_get m0 k | Some v \<Rightarrow> Some (JStr v)))"
  by (induction entries rule: rev_induct) (auto split: prod.split option.split)

end
