(* ===== verification/Pages.thy ===== *)
theory Pages
  imports Notices
begin

text \<open>
  The listeners of the small page scripts as they run on their pages: the settings page
  (\<open>settings.js\<close>) as one state machine, the set-up of the success boxes (\<open>toast.js\<close>), the events of
  the JSON extension (\<open>json-enc.js\<close>), the test for requests of the status panel (\<open>chaos-lab.js\<close>) and
  the shared namespace (\<open>vooglaadija.js\<close>).
\<close>

section \<open>The settings page\<close>

datatype passwordLabel = Changing | PasswordText string

text \<open>
  \<open>seForm\<close>: the form of the user name is on the page; \<open>seSave\<close>: its button, with the spinner and the
  label, if all of them are; \<open>sePassword\<close>: the submit button of the password form, disabled or not, and
  its text; \<open>seMeter\<close>: the classes of the two parts of the strength meter and its text.
\<close>

record settingsPage =
  seForm :: bool
  seSave :: "saveButton option"
  seDefault :: string
  sePassword :: "(bool \<times> passwordLabel) option"
  seMeter :: "(string \<times> string \<times> string) option"
  seScreen :: screen

text \<open>
  The events; the flags of \<open>RequestDone\<close> and \<open>RequestLost\<close> say whether the element of the request is
  in the form of the user name and in the password form.
\<close>

datatype settingsEvent =
    UsernameRequest
  | PasswordRequest
  | RequestDone bool bool
  | RequestLost bool
  | PasswordSubmit "string option" "string option"
  | DeleteSubmit "string option"
  | PasswordTyped string

definition saveLoading :: "bool \<Rightarrow> settingsPage \<Rightarrow> settingsPage" where
  "saveLoading isLoading p = (if seForm p
     then p\<lparr>seSave := map_option (setUsernameSaveLoading (seDefault p) isLoading) (seSave p)\<rparr> else p)"

definition passwordButton :: "bool \<times> passwordLabel \<Rightarrow> settingsPage \<Rightarrow> settingsPage" where
  "passwordButton b p = p\<lparr>sePassword := map_option (\<lambda>_. b) (sePassword p)\<rparr>"

definition updatePasswordStrength :: "string \<Rightarrow> settingsPage \<Rightarrow> settingsPage" where
  "updatePasswordStrength v p = (case evaluatePasswordStrength v of (levelClass, label) \<Rightarrow>
     p\<lparr>seMeter := map_option (\<lambda>_. (''password-strength-fill '' @ levelClass, ''password-strength-text '' @ levelClass, label))
         (seMeter p)\<rparr>)"

text \<open>The second part of the result is \<open>False\<close> for a submission that is stopped.\<close>

fun settingsStep :: "settingsEvent \<Rightarrow> settingsPage \<Rightarrow> settingsPage \<times> bool" where
  "settingsStep UsernameRequest p = (saveLoading True p, True)"
| "settingsStep PasswordRequest p = (passwordButton (True, Changing) p, True)"
| "settingsStep (RequestDone ofName ofPassword) p =
     (let p1 = (if ofName then saveLoading False p else p)
      in (if ofPassword then passwordButton (False, PasswordText ''Change password'') p1 else p1, True))"
| "settingsStep (RequestLost ofName) p = (if ofName then saveLoading False p else p, True)"
| "settingsStep (PasswordSubmit new confirm) p =
     (case submitPassword new confirm (seScreen p) of (go, s) \<Rightarrow> (p\<lparr>seScreen := s\<rparr>, go))"
| "settingsStep (DeleteSubmit confirm) p =
     (case submitDelete confirm (seScreen p) of (go, s) \<Rightarrow> (p\<lparr>seScreen := s\<rparr>, go))"
| "settingsStep (PasswordTyped v) p = (updatePasswordStrength v p, True)"

text \<open>The default label is the text of the page, if that is not empty; the meter starts with the field's content.\<close>

definition settingsInit :: "string option \<Rightarrow> string \<Rightarrow> settingsPage \<Rightarrow> settingsPage" where
  "settingsInit labelText password p = updatePasswordStrength password
     (p\<lparr>seDefault := (case labelText of None \<Rightarrow> ''Save username'' | Some t \<Rightarrow> if t = [] then ''Save username'' else t)\<rparr>)"

definition settingsRun :: "string option \<Rightarrow> string \<Rightarrow> settingsPage \<Rightarrow> settingsEvent list \<Rightarrow> settingsPage" where
  "settingsRun labelText password p es = foldl (\<lambda>q e. fst (settingsStep e q)) (settingsInit labelText password p) es"

section \<open>The other scripts\<close>

definition toastInit :: "nat list \<Rightarrow> toastArea \<Rightarrow> toastArea" where
  "toastInit boxes a = scheduleSuccessBoxDismissals boxes a"

definition jsonEncEvent :: "string \<Rightarrow> (string \<rightharpoonup> string) \<Rightarrow> (string \<rightharpoonup> string)" where
  "jsonEncEvent name headers =
     (if name = ''htmx:configRequest'' then headers(''Content-Type'' \<mapsto> ''application/json'') else headers)"

text \<open>Whether the element and the target of a request are in the panel; \<open>None\<close>: the event names none.\<close>

definition isChaosStatusRequest :: "bool option \<Rightarrow> bool option \<Rightarrow> bool" where
  "isChaosStatusRequest elt target \<longleftrightarrow> elt = Some True \<or> target = Some True"

text \<open>The namespace: what another script has put there already stays.\<close>

record ('s, 'e, 'i) namespace =
  nsState :: "'s option"
  nsEvents :: "'e option"
  nsInit :: "'i option"

definition orElse :: "'a option \<Rightarrow> 'a \<Rightarrow> 'a option" where
  "orElse x d = (case x of None \<Rightarrow> Some d | Some y \<Rightarrow> Some y)"

definition vooglaadija ::
  "'s \<Rightarrow> 'e \<Rightarrow> 'i \<Rightarrow> ('s, 'e, 'i) namespace option \<Rightarrow> ('s, 'e, 'i) namespace" where
  "vooglaadija state events ini old =
     (let v = (case old of None \<Rightarrow> \<lparr>nsState = None, nsEvents = None, nsInit = None\<rparr> | Some o1 \<Rightarrow> o1)
      in \<lparr>nsState = orElse (nsState v) state, nsEvents = orElse (nsEvents v) events, nsInit = orElse (nsInit v) ini\<rparr>)"

section \<open>Facts\<close>

text \<open>Whether the last of the events that concern the form of the user name, or the password form, starts a request.\<close>

fun nameBusy :: "settingsEvent \<Rightarrow> bool \<Rightarrow> bool" where
  "nameBusy UsernameRequest b = True"
| "nameBusy (RequestDone ofName ofPassword) b = (if ofName then False else b)"
| "nameBusy (RequestLost ofName) b = (if ofName then False else b)"
| "nameBusy e b = b"

fun passwordBusy :: "settingsEvent \<Rightarrow> bool \<Rightarrow> bool" where
  "passwordBusy PasswordRequest b = True"
| "passwordBusy (RequestDone ofName ofPassword) b = (if ofPassword then False else b)"
| "passwordBusy e b = b"

fun lastTyped :: "settingsEvent \<Rightarrow> string \<Rightarrow> string" where
  "lastTyped (PasswordTyped v) t = v"
| "lastTyped e t = t"

lemma settingsRun_snoc [simp]:
  "settingsRun lt pw p (es @ [e]) = fst (settingsStep e (settingsRun lt pw p es))"
  by (simp add: settingsRun_def)

definition labelOf :: "string option \<Rightarrow> string" where
  "labelOf labelText = (case labelText of None \<Rightarrow> ''Save username'' | Some t \<Rightarrow> if t = [] then ''Save username'' else t)"

lemmas page_parts = saveLoading_def passwordButton_def updatePasswordStrength_def

section \<open>Properties\<close>

text \<open>
  Each form of the settings page is disabled exactly while its own request is under way, whatever the
  other one does, and gets its own label back; the meter rates what was typed last.
\<close>

theorem settings_page_state:
  fixes p :: settingsPage
  assumes "seForm p" "seSave p = Some \<lparr>sbBusy = False, sbDisabled = False, sbSpinner = False, sbLabel = PlainLabel (labelOf lt)\<rparr>"
    "sePassword p = Some (False, PasswordText ''Change password'')" "seMeter p = Some m"
  shows "seSave (settingsRun lt pw p es) = (let b = foldl (\<lambda>b e. nameBusy e b) False es in
      Some \<lparr>sbBusy = b, sbDisabled = b, sbSpinner = b, sbLabel = (if b then Saving else PlainLabel (labelOf lt))\<rparr>) \<and>
    sePassword (settingsRun lt pw p es) = (let b = foldl (\<lambda>b e. passwordBusy e b) False es in
      Some (b, if b then Changing else PasswordText ''Change password'')) \<and>
    map_option (\<lambda>(fill, cls, label). label) (seMeter (settingsRun lt pw p es)) =
      Some (snd (evaluatePasswordStrength (foldl (\<lambda>t e. lastTyped e t) pw es)))"
proof -
  have "seForm (settingsRun lt pw p es) \<and> seDefault (settingsRun lt pw p es) = labelOf lt \<and>
      seSave (settingsRun lt pw p es) = (let b = foldl (\<lambda>b e. nameBusy e b) False es in
        Some \<lparr>sbBusy = b, sbDisabled = b, sbSpinner = b, sbLabel = (if b then Saving else PlainLabel (labelOf lt))\<rparr>) \<and>
      sePassword (settingsRun lt pw p es) = (let b = foldl (\<lambda>b e. passwordBusy e b) False es in
        Some (b, if b then Changing else PasswordText ''Change password'')) \<and>
      map_option (\<lambda>(fill, cls, label). label) (seMeter (settingsRun lt pw p es)) =
        Some (snd (evaluatePasswordStrength (foldl (\<lambda>t e. lastTyped e t) pw es)))"
  proof (induction es rule: rev_induct)
    case Nil
    then show ?case using assms
      by (simp add: settingsRun_def settingsInit_def updatePasswordStrength_def labelOf_def split: prod.split)
  next
    case (snoc e es)
    then show ?case
      by (cases e) (auto simp: page_parts setUsernameSaveLoading_def Let_def split: prod.split)
  qed
  then show ?thesis by blast
qed

text \<open>Success boxes are scheduled once, however often a swap shows them to \<open>toast.js\<close> again.\<close>

lemma scheduled_once: "scheduleSuccessBoxDismiss i (scheduleSuccessBoxDismiss i a) = scheduleSuccessBoxDismiss i a"
  by (auto simp: scheduleSuccessBoxDismiss_def removeAfterFade_def)

lemma vooglaadija_twice:
  "vooglaadija s' e' i' (Some (vooglaadija s e i old)) = vooglaadija s e i old"
  by (simp add: vooglaadija_def orElse_def Let_def split: option.split)

end
