(* ===== verification/SseClient.thy ===== *)
theory SseClient
  imports Forms
begin

text \<open>
  \<open>sse.js\<close>, the htmx extension that keeps an element connected to a stream of server-sent events:
  the event sources of one element with \<open>sse-connect\<close>, the timers that reconnect it, and the
  listeners of the elements below it, for \<open>sse-swap\<close> and for \<open>hx-trigger\<close>. An event source is the
  browser's object; the model keeps its \<open>readyState\<close>, the variable \<open>retryCount\<close> its handlers share and
  the listeners added to it. Elements and sources are numbered. htmx hands the connected element to
  the extension once; other elements may come later.
\<close>

section \<open>State\<close>

datatype readyState = Connecting | Open | Closed

text \<open>A listener: the element it was added for, which attribute asked for it, and the name of its event.\<close>

datatype listenerKind = ForSwap | ForTrigger

type_synonym listener = "nat \<times> listenerKind \<times> string"

record eventSource =
  esUrl :: string
  esCredentials :: bool
  esState :: readyState
  esRetry :: nat
  esListeners :: "listener list"

datatype sseCall =
    SseOpen nat
  | SseError nat
  | SseClose nat string
  | SseSwap nat string string
  | SseTrigger nat string
  | SseMessage nat

text \<open>
  An element: its \<open>sse-swap\<close> attribute, the triggers of its \<open>hx-trigger\<close> attribute, and whether it is
  (still) below the connected element.
\<close>

record sseElt =
  elSwap :: string
  elTriggers :: "string list"
  elHere :: bool

text \<open>
  \<open>ecInBody\<close> says whether the connected element is in the page, \<open>ecConnect\<close> and \<open>ecClose\<close> are its
  attributes \<open>sse-connect\<close> and \<open>sse-close\<close>, \<open>ecSource\<close> is its internal \<open>sseEventSource\<close>, \<open>ecTimers\<close> are
  the pending reconnections (delay and \<open>retryCount\<close>), \<open>ecElts\<close> the elements with listeners (with \<open>ecSelf\<close>
  the first is the connected element itself), \<open>ecLog\<close> the htmx events triggered and the swaps made.
\<close>

record sseClient =
  ecInBody :: bool
  ecConnect :: string
  ecClose :: string
  ecSource :: "nat option"
  ecSources :: "eventSource list"
  ecTimers :: "(nat \<times> nat) list"
  ecElts :: "sseElt list"
  ecSelf :: bool
  ecLog :: "sseCall list"

definition sourceAt :: "nat \<Rightarrow> sseClient \<Rightarrow> eventSource option" where
  "sourceAt n c = (if n < length (ecSources c) then Some (ecSources c ! n) else None)"

definition setSource :: "nat \<Rightarrow> (eventSource \<Rightarrow> eventSource) \<Rightarrow> sseClient \<Rightarrow> sseClient" where
  "setSource n f c = (if n < length (ecSources c)
     then c\<lparr>ecSources := (ecSources c)[n := f (ecSources c ! n)]\<rparr> else c)"

definition logCall :: "sseCall \<Rightarrow> sseClient \<Rightarrow> sseClient" where
  "logCall e c = c\<lparr>ecLog := ecLog c @ [e]\<rparr>"

definition closeSource :: "nat \<Rightarrow> sseClient \<Rightarrow> sseClient" where
  "closeSource n c = setSource n (\<lambda>s. s\<lparr>esState := Closed\<rparr>) c"

definition createEventSource :: "string \<Rightarrow> nat \<Rightarrow> eventSource" where
  "createEventSource url retryCount =
     \<lparr>esUrl = url, esCredentials = True, esState = Connecting, esRetry = retryCount, esListeners = []\<rparr>"

section \<open>Listeners\<close>

text \<open>The names an element listens for: the parts of \<open>sse-swap\<close>, and the triggers that start with \<open>sse:\<close>.\<close>

definition swapNames :: "sseElt \<Rightarrow> string list" where
  "swapNames el = (if elSwap el = [] then [] else map trim (splitOn (CHR '','') (elSwap el)))"

definition triggerNames :: "sseElt \<Rightarrow> string list" where
  "triggerNames el = map (drop 4) (filter (\<lambda>t. startsWith t ''sse:'') (elTriggers el))"

definition listenersOf :: "nat \<Rightarrow> sseElt \<Rightarrow> listener list" where
  "listenersOf i el = map (\<lambda>name. (i, ForSwap, name)) (swapNames el) @ map (\<lambda>name. (i, ForTrigger, name)) (triggerNames el)"

text \<open>\<open>registerSSE\<close> for element \<open>i\<close>: its listeners go to the current source; without one nothing happens.\<close>

definition registerSSE :: "nat \<Rightarrow> sseClient \<Rightarrow> sseClient" where
  "registerSSE i c =
     (if length (ecElts c) \<le> i then c
      else (case ecSource c of None \<Rightarrow> c
        | Some n \<Rightarrow> setSource n (\<lambda>s. s\<lparr>esListeners := esListeners s @ listenersOf i (ecElts c ! i)\<rparr>) c))"

text \<open>The elements \<open>querySelectorAll\<close> finds below the connected one.\<close>

definition below :: "sseClient \<Rightarrow> nat list" where
  "below c = filter (\<lambda>i. elHere (ecElts c ! i)) [(if ecSelf c then 1 else 0)..<length (ecElts c)]"

definition registerAll :: "sseClient \<Rightarrow> sseClient" where
  "registerAll c = foldl (\<lambda>c1 i. registerSSE i c1) c (below c)"

section \<open>Connecting\<close>

definition maybeCloseSSESource :: "sseClient \<Rightarrow> bool \<times> sseClient" where
  "maybeCloseSSESource c =
     (if \<not> ecInBody c then
        (case ecSource c of None \<Rightarrow> (False, c)
         | Some n \<Rightarrow> (True, closeSource n (logCall (SseClose n ''nodeMissing'') c)))
      else (False, c))"

definition ensureEventSource :: "string \<Rightarrow> nat \<Rightarrow> sseClient \<Rightarrow> sseClient" where
  "ensureEventSource url retryCount c = c\<lparr>ecSources := ecSources c @ [createEventSource url retryCount],
     ecSource := Some (length (ecSources c))\<rparr>"

definition ensureEventSourceOnElement :: "nat \<Rightarrow> sseClient \<Rightarrow> sseClient" where
  "ensureEventSourceOnElement retryCount c =
     (let c1 = (if ecConnect c \<noteq> [] then ensureEventSource (ecConnect c) retryCount c else c)
      in if ecSelf c1 then registerSSE 0 c1 else c1)"

definition nextRetry :: "nat \<Rightarrow> nat" where
  "nextRetry retryCount = max (min (retryCount * 2) 128) 1"

definition onError :: "nat \<Rightarrow> bool \<Rightarrow> sseClient \<Rightarrow> sseClient" where
  "onError n fatal c =
     (let c1 = logCall (SseError n) (if fatal then closeSource n c else setSource n (\<lambda>s. s\<lparr>esState := Connecting\<rparr>) c)
      in case maybeCloseSSESource c1 of
           (True, c2) \<Rightarrow> c2
         | (False, c2) \<Rightarrow>
             (case sourceAt n c2 of None \<Rightarrow> c2
              | Some s \<Rightarrow>
                  if esState s = Closed then
                    (let r = nextRetry (esRetry s); c3 = setSource n (\<lambda>s. s\<lparr>esRetry := r\<rparr>) c2
                     in c3\<lparr>ecTimers := ecTimers c3 @ [(r * 500, r)]\<rparr>)
                  else c2))"

definition onOpen :: "nat \<Rightarrow> sseClient \<Rightarrow> sseClient" where
  "onOpen n c =
     (let c1 = logCall (SseOpen n) (setSource n (\<lambda>s. s\<lparr>esState := Open\<rparr>) c)
      in case sourceAt n c1 of None \<Rightarrow> c1
         | Some s \<Rightarrow> if 0 < esRetry s then setSource n (\<lambda>s. s\<lparr>esRetry := 0\<rparr>) (registerAll c1) else c1)"

text \<open>
  The data of a message pass through \<open>transformResponse\<close> of the extensions active on the element before
  they are swapped in; where and how is htmx's choice for the element.
\<close>

definition swapContent :: "(string \<Rightarrow> string) list \<Rightarrow> string \<Rightarrow> string" where
  "swapContent transforms content = foldl (\<lambda>s f. f s) content transforms"

text \<open>
  A message reaches one listener; \<open>allowed\<close> is the verdict of \<open>htmx:sseBeforeMessage\<close>. The listener of a
  trigger goes on after it has removed itself.
\<close>

definition onMessage ::
  "(nat \<Rightarrow> (string \<Rightarrow> string) list) \<Rightarrow> nat \<Rightarrow> string \<Rightarrow> (nat \<Rightarrow> bool) \<Rightarrow> listener \<Rightarrow> sseClient \<Rightarrow> sseClient" where
  "onMessage exts n content allowed l c =
     (case maybeCloseSSESource c of
        (True, c1) \<Rightarrow> c1
      | (False, c1) \<Rightarrow>
          (case l of (i, kind, name) \<Rightarrow>
             let gone = (length (ecElts c1) \<le> i \<or> \<not> elHere (ecElts c1 ! i));
                 c2 = (if gone then setSource n (\<lambda>s. s\<lparr>esListeners := remove1 l (esListeners s)\<rparr>) c1 else c1)
             in (case kind of
                   ForSwap \<Rightarrow>
                     if gone \<or> \<not> allowed i then c2
                     else logCall (SseMessage i) (logCall (SseSwap i name (swapContent (exts i) content)) c2)
                 | ForTrigger \<Rightarrow> logCall (SseMessage i) (logCall (SseTrigger i (''sse:'' @ name)) c2))))"

text \<open>The browser calls the listeners of the message's name in the order they were added.\<close>

definition dispatch ::
  "(nat \<Rightarrow> (string \<Rightarrow> string) list) \<Rightarrow> nat \<Rightarrow> string \<Rightarrow> string \<Rightarrow> (nat \<Rightarrow> bool) \<Rightarrow> sseClient \<Rightarrow> sseClient" where
  "dispatch exts n name content allowed c = (case sourceAt n c of None \<Rightarrow> c
     | Some s \<Rightarrow> foldl (\<lambda>c1 l. onMessage exts n content allowed l c1) c
         (filter (\<lambda>l. snd (snd l) = name) (esListeners s)))"

definition cleanupElement :: "sseClient \<Rightarrow> sseClient" where
  "cleanupElement c = (case ecSource c of None \<Rightarrow> c
     | Some n \<Rightarrow> closeSource n (logCall (SseClose n ''nodeReplaced'') c))"

definition onCloseMessage :: "nat \<Rightarrow> sseClient \<Rightarrow> sseClient" where
  "onCloseMessage n c = closeSource n (logCall (SseClose n ''message'') c)"

text \<open>
  The events of the browser. A message comes over an open source; a source that is closed sends
  nothing more; a timer is named by its place in the list. \<open>Processed\<close> is a new element below the
  connected one, \<open>EltGone\<close> one that is taken out, \<open>Removed\<close> takes the connected element out.
\<close>

datatype sseEvent =
    Opened nat
  | Failed nat bool
  | Arrived nat string string "nat \<Rightarrow> bool"
  | CloseArrived nat
  | TimerFires nat
  | Processed string "string list"
  | EltGone nat
  | Removed
  | CleanedUp

definition stateOf :: "sseClient \<Rightarrow> nat \<Rightarrow> readyState" where
  "stateOf c n = (case sourceAt n c of None \<Rightarrow> Closed | Some s \<Rightarrow> esState s)"

abbreviation live :: "sseClient \<Rightarrow> nat \<Rightarrow> bool" where
  "live c n \<equiv> stateOf c n \<noteq> Closed"

definition removeElt :: "nat \<Rightarrow> sseClient \<Rightarrow> sseClient" where
  "removeElt i c = (if i < length (ecElts c) then c\<lparr>ecElts := (ecElts c)[i := (ecElts c ! i)\<lparr>elHere := False\<rparr>]\<rparr> else c)"

fun sseStep :: "(nat \<Rightarrow> (string \<Rightarrow> string) list) \<Rightarrow> sseEvent \<Rightarrow> sseClient \<Rightarrow> sseClient" where
  "sseStep exts (Opened n) c = (if live c n then onOpen n c else c)"
| "sseStep exts (Failed n fatal) c = (if live c n then onError n fatal c else c)"
| "sseStep exts (Arrived n name content allowed) c =
     (if stateOf c n = Open then dispatch exts n name content allowed c else c)"
| "sseStep exts (CloseArrived n) c = (if ecClose c \<noteq> [] \<and> stateOf c n = Open then onCloseMessage n c else c)"
| "sseStep exts (TimerFires k) c = (if k < length (ecTimers c)
     then ensureEventSourceOnElement (snd (ecTimers c ! k)) (c\<lparr>ecTimers := take k (ecTimers c) @ drop (Suc k) (ecTimers c)\<rparr>)
     else c)"
| "sseStep exts (Processed swap triggers) c =
     registerSSE (length (ecElts c)) (c\<lparr>ecElts := ecElts c @ [\<lparr>elSwap = swap, elTriggers = triggers, elHere = True\<rparr>]\<rparr>)"
| "sseStep exts (EltGone i) c = removeElt i c"
| "sseStep exts Removed c = c\<lparr>ecInBody := False\<rparr>"
| "sseStep exts CleanedUp c = cleanupElement c"

text \<open>The connected element as htmx processes it (\<open>url\<close> and \<open>stop\<close> are its attributes), and then the elements below it.\<close>

definition sseInit :: "string \<Rightarrow> string \<Rightarrow> bool \<Rightarrow> sseElt list \<Rightarrow> sseClient" where
  "sseInit url stop self elts = registerAll (ensureEventSourceOnElement 0
     \<lparr>ecInBody = True, ecConnect = url, ecClose = stop, ecSource = None, ecSources = [], ecTimers = [], ecElts = elts,
      ecSelf = self, ecLog = []\<rparr>)"

definition sseRun ::
  "(nat \<Rightarrow> (string \<Rightarrow> string) list) \<Rightarrow> string \<Rightarrow> string \<Rightarrow> bool \<Rightarrow> sseElt list \<Rightarrow> sseEvent list \<Rightarrow> sseClient" where
  "sseRun exts url stop self elts es = foldl (\<lambda>c e. sseStep exts e c) (sseInit url stop self elts) es"

section \<open>Facts\<close>

text \<open>What a client holds open: its live sources and its pending timers.\<close>

definition liveCount :: "sseClient \<Rightarrow> nat" where
  "liveCount c = length (filter (\<lambda>s. esState s \<noteq> Closed) (ecSources c))"

definition holds :: "sseClient \<Rightarrow> nat" where
  "holds c = liveCount c + length (ecTimers c)"

definition timersOk :: "sseClient \<Rightarrow> bool" where
  "timersOk c \<longleftrightarrow> (\<forall>(d, r)\<in>set (ecTimers c). d = r * 500 \<and> 1 \<le> r \<and> r \<le> 128)"

lemma nextRetry_bounds: "1 \<le> nextRetry r" "nextRetry r \<le> 128"
  by (simp_all add: nextRetry_def)

lemma nextRetry_double: "1 \<le> x \<Longrightarrow> nextRetry (min x 128) = min (x * 2) 128"
  by (auto simp: nextRetry_def min_def max_def)

lemma nextRetry_iterate: "(nextRetry ^^ Suc k) 0 = min (2 ^ k) 128"
proof (induction k)
  case (Suc k)
  then have "(nextRetry ^^ Suc (Suc k)) 0 = nextRetry (min (2 ^ k) 128)" by simp
  also have "\<dots> = min (2 ^ Suc k) 128"
    using nextRetry_double [of "2 ^ k"] by (simp add: mult.commute)
  finally show ?case .
qed (simp add: nextRetry_def)

lemma count_update:
  "n < length xs \<Longrightarrow> length (filter P (xs[n := y])) + (if P (xs ! n) then 1 else 0) = length (filter P xs) + (if P y then 1 else 0)"
proof (induction xs arbitrary: n)
  case (Cons x xs)
  then show ?case by (cases n) auto
qed simp

lemma setSource_live:
  assumes "\<And>s. esState (f s) = esState s"
  shows "liveCount (setSource n f c) = liveCount c"
  using count_update [of n "ecSources c" "\<lambda>s. esState s \<noteq> Closed" "f (ecSources c ! n)"] assms
  by (auto simp: setSource_def liveCount_def split: if_splits)

lemma setSource_frame [simp]:
  "ecTimers (setSource n f c) = ecTimers c" "ecSource (setSource n f c) = ecSource c"
  "ecInBody (setSource n f c) = ecInBody c" "ecElts (setSource n f c) = ecElts c"
  "ecConnect (setSource n f c) = ecConnect c" "length (ecSources (setSource n f c)) = length (ecSources c)"
  by (simp_all add: setSource_def)

lemma logCall_frame [simp]:
  "ecTimers (logCall e c) = ecTimers c" "ecSource (logCall e c) = ecSource c" "ecSources (logCall e c) = ecSources c"
  "ecInBody (logCall e c) = ecInBody c" "ecElts (logCall e c) = ecElts c" "ecConnect (logCall e c) = ecConnect c"
  "liveCount (logCall e c) = liveCount c" "sourceAt n (logCall e c) = sourceAt n c"
  by (simp_all add: logCall_def liveCount_def sourceAt_def)

lemma closeSource_frame [simp]:
  "ecTimers (closeSource n c) = ecTimers c" "ecSource (closeSource n c) = ecSource c"
  "ecInBody (closeSource n c) = ecInBody c" "ecConnect (closeSource n c) = ecConnect c"
  "length (ecSources (closeSource n c)) = length (ecSources c)"
  by (simp_all add: closeSource_def)

lemma closeSource_le: "liveCount (closeSource n c) \<le> liveCount c"
  using count_update [of n "ecSources c" "\<lambda>s. esState s \<noteq> Closed" "(ecSources c ! n)\<lparr>esState := Closed\<rparr>"]
  by (auto simp: closeSource_def setSource_def liveCount_def split: if_splits)

lemma closeSource_live: "live c n \<Longrightarrow> Suc (liveCount (closeSource n c)) = liveCount c"
  using count_update [of n "ecSources c" "\<lambda>s. esState s \<noteq> Closed" "(ecSources c ! n)\<lparr>esState := Closed\<rparr>"]
  by (auto simp: closeSource_def setSource_def liveCount_def stateOf_def sourceAt_def split: if_splits)

lemma reviveSource: "live c n \<Longrightarrow> st \<noteq> Closed \<Longrightarrow> liveCount (setSource n (\<lambda>s. s\<lparr>esState := st\<rparr>) c) = liveCount c"
  using count_update [of n "ecSources c" "\<lambda>s. esState s \<noteq> Closed" "(ecSources c ! n)\<lparr>esState := st\<rparr>"]
  by (auto simp: setSource_def liveCount_def stateOf_def sourceAt_def split: if_splits)

lemma registerSSE_frame [simp]:
  "ecTimers (registerSSE i c) = ecTimers c" "liveCount (registerSSE i c) = liveCount c"
  "ecSource (registerSSE i c) = ecSource c" "ecInBody (registerSSE i c) = ecInBody c"
  "ecConnect (registerSSE i c) = ecConnect c" "length (ecSources (registerSSE i c)) = length (ecSources c)"
  by (simp_all add: registerSSE_def setSource_live split: option.split)

lemma registerAll_frame [simp]:
  "ecTimers (registerAll c) = ecTimers c" "liveCount (registerAll c) = liveCount c"
  "ecSource (registerAll c) = ecSource c" "ecInBody (registerAll c) = ecInBody c"
  "ecConnect (registerAll c) = ecConnect c" "length (ecSources (registerAll c)) = length (ecSources c)"
proof -
  have "ecTimers (foldl (\<lambda>c1 i. registerSSE i c1) c is) = ecTimers c \<and>
      liveCount (foldl (\<lambda>c1 i. registerSSE i c1) c is) = liveCount c \<and>
      ecSource (foldl (\<lambda>c1 i. registerSSE i c1) c is) = ecSource c \<and>
      ecInBody (foldl (\<lambda>c1 i. registerSSE i c1) c is) = ecInBody c \<and>
      ecConnect (foldl (\<lambda>c1 i. registerSSE i c1) c is) = ecConnect c \<and>
      length (ecSources (foldl (\<lambda>c1 i. registerSSE i c1) c is)) = length (ecSources c)" for "is"
    by (induction "is" arbitrary: c) simp_all
  then show "ecTimers (registerAll c) = ecTimers c" "liveCount (registerAll c) = liveCount c"
    "ecSource (registerAll c) = ecSource c" "ecInBody (registerAll c) = ecInBody c"
    "ecConnect (registerAll c) = ecConnect c" "length (ecSources (registerAll c)) = length (ecSources c)"
    by (simp_all add: registerAll_def)
qed

lemma maybeClose_parts:
  assumes "maybeCloseSSESource c = (b, c1)"
  shows "liveCount c1 \<le> liveCount c" "ecTimers c1 = ecTimers c" "\<not> b \<Longrightarrow> c1 = c"
  using assms closeSource_le
  by (auto simp: maybeCloseSSESource_def split: if_splits option.splits) (metis logCall_frame(7))+

lemma ensure_parts [simp]:
  "liveCount (ensureEventSource url r c) = Suc (liveCount c)" "ecTimers (ensureEventSource url r c) = ecTimers c"
  by (simp_all add: ensureEventSource_def createEventSource_def liveCount_def)

text \<open>An error with the connection lost for good trades the live source for one timer.\<close>

lemma onError_holds:
  assumes l: "live c n" and t: "timersOk c"
  shows "holds (onError n fatal c) \<le> holds c \<and> timersOk (onError n fatal c)"
proof -
  let ?c0 = "if fatal then closeSource n c else setSource n (\<lambda>s. s\<lparr>esState := Connecting\<rparr>) c"
  let ?c1 = "logCall (SseError n) ?c0"
  obtain b c2 where m: "maybeCloseSSESource ?c1 = (b, c2)" by fastforce
  note parts = maybeClose_parts [OF m]
  have t1: "ecTimers ?c1 = ecTimers c" by simp
  show ?thesis
  proof (cases b)
    case True
    have "liveCount ?c1 \<le> liveCount c" using closeSource_le reviveSource [OF l, of Connecting] by simp
    then have "onError n fatal c = c2" "liveCount c2 \<le> liveCount c" "ecTimers c2 = ecTimers c"
      using m True parts t1 by (simp_all add: onError_def)
    then show ?thesis using t by (simp add: holds_def timersOk_def)
  next
    case False
    then have c2: "c2 = ?c1" using parts by simp
    have st: "sourceAt n ?c1 = Some s \<Longrightarrow> esState s = (if fatal then Closed else Connecting)" for s
      using l by (auto simp: sourceAt_def closeSource_def setSource_def stateOf_def split: if_splits)
    show ?thesis
    proof (cases fatal)
      case True
      then have n: "Suc (liveCount ?c1) = liveCount c" using closeSource_live [OF l] by simp
      obtain s where s: "sourceAt n ?c1 = Some s"
        using l True by (auto simp: sourceAt_def closeSource_def setSource_def stateOf_def split: if_splits option.splits)
      let ?r = "nextRetry (esRetry s)"
      have eq: "onError n fatal c = (setSource n (\<lambda>s. s\<lparr>esRetry := ?r\<rparr>) ?c1)\<lparr>ecTimers := ecTimers c @ [(?r * 500, ?r)]\<rparr>"
        using m False c2 s st [OF s] True by (simp add: onError_def Let_def)
      have "liveCount (onError n fatal c) = liveCount ?c1"
        unfolding eq using setSource_live [of "\<lambda>s. s\<lparr>esRetry := ?r\<rparr>" n ?c1] by (simp add: liveCount_def)
      then show ?thesis using n t nextRetry_bounds [of "esRetry s"] unfolding holds_def timersOk_def eq by simp
    next
      case False
      have "onError n fatal c = ?c1"
        using m \<open>\<not> b\<close> c2 st False by (auto simp: onError_def Let_def split: option.split)
      then show ?thesis using t reviveSource [OF l, of Connecting] False by (simp add: holds_def timersOk_def)
    qed
  qed
qed

lemma onOpen_holds: "live c n \<Longrightarrow> timersOk c \<Longrightarrow> holds (onOpen n c) \<le> holds c \<and> timersOk (onOpen n c)"
  using reviveSource [of c n Open] setSource_live [of "\<lambda>s. s\<lparr>esRetry := 0\<rparr>"]
  by (simp add: onOpen_def Let_def holds_def timersOk_def split: option.split)

lemma onMessage_holds:
  "timersOk c \<Longrightarrow> holds (onMessage exts n w a l c) \<le> holds c \<and> timersOk (onMessage exts n w a l c)"
proof -
  assume t: "timersOk c"
  obtain b c1 where m: "maybeCloseSSESource c = (b, c1)" by fastforce
  note parts = maybeClose_parts [OF m]
  have "liveCount (setSource n (\<lambda>s. s\<lparr>esListeners := remove1 l (esListeners s)\<rparr>) c1) = liveCount c1"
    by (rule setSource_live) simp
  then show ?thesis using t parts m
    by (auto simp: onMessage_def holds_def timersOk_def Let_def split: bool.split prod.split listenerKind.split)
qed

lemma dispatch_holds:
  "timersOk c \<Longrightarrow> holds (dispatch exts n name w a c) \<le> holds c \<and> timersOk (dispatch exts n name w a c)"
proof -
  have "timersOk c \<Longrightarrow> holds (foldl (\<lambda>c1 l. onMessage exts n w a l c1) c ls) \<le> holds c
      \<and> timersOk (foldl (\<lambda>c1 l. onMessage exts n w a l c1) c ls)" for ls
  proof (induction ls arbitrary: c)
    case (Cons l ls)
    note one = onMessage_holds [OF Cons.prems, of exts n w a l]
    then show ?case using Cons.IH [of "onMessage exts n w a l c"] by simp
  qed simp
  then show "timersOk c \<Longrightarrow> ?thesis" by (simp add: dispatch_def split: option.split)
qed

lemma close_holds: "timersOk c \<Longrightarrow> holds (closeSource n (logCall e c)) \<le> holds c \<and> timersOk (closeSource n (logCall e c))"
  using closeSource_le [of n "logCall e c"] by (simp add: holds_def timersOk_def)

lemma timer_holds:
  assumes "k < length (ecTimers c)" "timersOk c"
  shows "holds (sseStep exts (TimerFires k) c) \<le> holds c \<and> timersOk (sseStep exts (TimerFires k) c)"
proof -
  have "set (take k (ecTimers c) @ drop (Suc k) (ecTimers c)) \<subseteq> set (ecTimers c)"
    using set_take_subset set_drop_subset by fastforce
  then show ?thesis using assms
    by (auto simp: ensureEventSourceOnElement_def Let_def holds_def timersOk_def) (simp_all add: liveCount_def)
qed

lemma sseStep_holds: "timersOk c \<Longrightarrow> holds (sseStep exts e c) \<le> holds c \<and> timersOk (sseStep exts e c)"
proof (cases e)
  case (TimerFires k)
  then show "timersOk c \<Longrightarrow> ?thesis" using timer_holds by (cases "k < length (ecTimers c)") auto
next
  case (EltGone i)
  then show "timersOk c \<Longrightarrow> ?thesis" by (simp add: removeElt_def holds_def timersOk_def liveCount_def)
next
  case (Processed w ts)
  then show "timersOk c \<Longrightarrow> ?thesis" by (simp add: holds_def timersOk_def) (simp add: liveCount_def)
next
  case Removed
  then show "timersOk c \<Longrightarrow> ?thesis" by (simp add: holds_def timersOk_def liveCount_def)
qed (auto simp: onOpen_holds onError_holds dispatch_holds onCloseMessage_def cleanupElement_def close_holds split: option.split)

lemma sseInit_holds: "holds (sseInit url stop self elts) \<le> 1 \<and> timersOk (sseInit url stop self elts)"
  by (simp add: sseInit_def ensureEventSourceOnElement_def Let_def holds_def timersOk_def) (simp add: liveCount_def)

lemma sseRun_snoc [simp]: "sseRun exts url stop self elts (es @ [e]) = sseStep exts e (sseRun exts url stop self elts es)"
  by (simp add: sseRun_def)

lemma sseRun_holds: "holds (sseRun exts url stop self elts es) \<le> 1 \<and> timersOk (sseRun exts url stop self elts es)"
proof (induction es rule: rev_induct)
  case Nil
  then show ?case using sseInit_holds [of url stop self elts] by (simp add: sseRun_def)
next
  case (snoc e es)
  then show ?case using sseStep_holds [of "sseRun exts url stop self elts es" exts e] by fastforce
qed

section \<open>Facts: who listens on the current source\<close>

text \<open>
  A reconnection is under way from the timer until the new source opens. The elements below the
  connected one are registered again at that moment, so the theorems ask that no new element is
  processed in between.
\<close>

definition reconnecting :: "sseClient \<Rightarrow> bool" where
  "reconnecting c \<longleftrightarrow> (case ecSource c of None \<Rightarrow> False
     | Some n \<Rightarrow> live c n \<and> (case sourceAt n c of None \<Rightarrow> False | Some s \<Rightarrow> 0 < esRetry s))"

inductive sseReach ::
  "(nat \<Rightarrow> (string \<Rightarrow> string) list) \<Rightarrow> string \<Rightarrow> string \<Rightarrow> bool \<Rightarrow> sseElt list \<Rightarrow> sseClient \<Rightarrow> bool"
  for exts url stop self elts where
  start: "url \<noteq> [] \<Longrightarrow> sseReach exts url stop self elts (sseInit url stop self elts)"
| step: "sseReach exts url stop self elts c \<Longrightarrow> (\<And>w ts. e = Processed w ts \<Longrightarrow> \<not> reconnecting c) \<Longrightarrow>
    sseReach exts url stop self elts (sseStep exts e c)"

definition heard :: "sseClient \<Rightarrow> nat \<Rightarrow> listener list" where
  "heard c n = (case sourceAt n c of None \<Rightarrow> [] | Some s \<Rightarrow> esListeners s)"

definition retryOf :: "sseClient \<Rightarrow> nat \<Rightarrow> nat" where
  "retryOf c n = (case sourceAt n c of None \<Rightarrow> 0 | Some s \<Rightarrow> esRetry s)"

lemmas source_defs = stateOf_def heard_def retryOf_def sourceAt_def

text \<open>A listener of an element that is there is on the current source exactly as often as its attributes ask.\<close>

definition onceOn :: "sseClient \<Rightarrow> nat \<Rightarrow> bool" where
  "onceOn c n \<longleftrightarrow> (\<forall>l\<in>set (heard c n). fst l < length (ecElts c))
     \<and> (\<forall>i<length (ecElts c). elHere (ecElts c ! i) \<longrightarrow> (\<forall>l. fst l = i \<longrightarrow>
          count_list (heard c n) l =
            (if retryOf c n = 0 \<or> ecSelf c \<and> i = 0 then count_list (listenersOf i (ecElts c ! i)) l else 0)))"

definition sseOk :: "sseClient \<Rightarrow> bool" where
  "sseOk c \<longleftrightarrow> holds c \<le> 1 \<and> timersOk c \<and> ecConnect c \<noteq> []
     \<and> (\<forall>n. live c n \<longrightarrow> ecSource c = Some n \<and> onceOn c n \<and> (stateOf c n = Open \<longrightarrow> retryOf c n = 0))"

lemma onceOn_count:
  "onceOn c n \<Longrightarrow> i < length (ecElts c) \<Longrightarrow> elHere (ecElts c ! i) \<Longrightarrow> fst l = i \<Longrightarrow>
   count_list (heard c n) l = (if retryOf c n = 0 \<or> ecSelf c \<and> i = 0 then count_list (listenersOf i (ecElts c ! i)) l else 0)"
  unfolding onceOn_def by blast

lemma sourceAt_set [simp]: "sourceAt m (setSource n f c) = (if m = n then map_option f (sourceAt n c) else sourceAt m c)"
  by (simp add: setSource_def sourceAt_def)

lemma sourceAt_Some: "n < length (ecSources c) \<Longrightarrow> \<exists>s. sourceAt n c = Some s"
  by (simp add: sourceAt_def)

lemma listenersOf_fst: "l \<in> set (listenersOf i el) \<Longrightarrow> fst l = i"
  by (auto simp: listenersOf_def)

lemma count_other: "fst l \<noteq> i \<Longrightarrow> count_list (listenersOf i el) l = 0"
  by (metis count_notin listenersOf_fst)

lemma listenersOf_here: "listenersOf i (el\<lparr>elHere := b\<rparr>) = listenersOf i el"
  by (simp add: listenersOf_def swapNames_def triggerNames_def)

lemma count_concat:
  "distinct is \<Longrightarrow> count_list (concat (map (\<lambda>j. listenersOf j (f j)) is)) l =
     (if fst l \<in> set is then count_list (listenersOf (fst l) (f (fst l))) l else 0)"
proof (induction "is")
  case (Cons j js)
  then show ?case using count_other [of l j "f j"] by (cases "fst l = j") auto
qed simp

lemma registerSSE_heard:
  assumes "ecSource c = Some n" "n < length (ecSources c)" "i < length (ecElts c)"
  shows "heard (registerSSE i c) n = heard c n @ listenersOf i (ecElts c ! i)"
    "stateOf (registerSSE i c) n = stateOf c n" "retryOf (registerSSE i c) n = retryOf c n"
  using assms by (simp_all add: registerSSE_def setSource_def source_defs)

lemma registerSSE_elts [simp]: "ecElts (registerSSE i c) = ecElts c" "ecSelf (registerSSE i c) = ecSelf c"
  by (simp_all add: registerSSE_def setSource_def split: option.split)

lemma registerAll_heard:
  assumes "ecSource c = Some n" "n < length (ecSources c)"
  shows "heard (registerAll c) n = heard c n @ concat (map (\<lambda>i. listenersOf i (ecElts c ! i)) (below c))
    \<and> stateOf (registerAll c) n = stateOf c n \<and> retryOf (registerAll c) n = retryOf c n
    \<and> ecElts (registerAll c) = ecElts c \<and> ecSelf (registerAll c) = ecSelf c"
proof -
  have "heard (foldl (\<lambda>c1 i. registerSSE i c1) c is) n = heard c n @ concat (map (\<lambda>i. listenersOf i (ecElts c ! i)) is)
      \<and> stateOf (foldl (\<lambda>c1 i. registerSSE i c1) c is) n = stateOf c n
      \<and> retryOf (foldl (\<lambda>c1 i. registerSSE i c1) c is) n = retryOf c n
      \<and> ecElts (foldl (\<lambda>c1 i. registerSSE i c1) c is) = ecElts c
      \<and> ecSelf (foldl (\<lambda>c1 i. registerSSE i c1) c is) = ecSelf c"
    if "\<forall>i\<in>set is. i < length (ecElts c)" for "is"
    using that assms
  proof (induction "is" arbitrary: c)
    case (Cons i js)
    then show ?case using registerSSE_heard [of c n i] Cons.IH [of "registerSSE i c"] by simp
  qed simp
  then show ?thesis by (simp add: registerAll_def below_def)
qed

lemma live_length: "live c n \<Longrightarrow> n < length (ecSources c)"
  by (auto simp: stateOf_def sourceAt_def split: if_splits)

text \<open>Nothing is live once the only live source is closed.\<close>

lemma closed_all:
  assumes "\<And>m. live c m \<Longrightarrow> m = n"
  shows "stateOf (closeSource n (logCall e c)) m = Closed"
proof (cases "m = n")
  case False
  then have "stateOf (closeSource n (logCall e c)) m = stateOf c m"
    by (simp add: source_defs closeSource_def setSource_def logCall_def)
  with False assms show ?thesis by metis
qed (simp add: source_defs closeSource_def setSource_def logCall_def)

lemma sseOk_dead: "holds c \<le> 1 \<Longrightarrow> timersOk c \<Longrightarrow> ecConnect c \<noteq> [] \<Longrightarrow> (\<And>m. \<not> live c m) \<Longrightarrow> sseOk c"
  by (simp add: sseOk_def)

lemma sseOk_parts:
  assumes "sseOk c" "live c n"
  shows "ecSource c = Some n" "n < length (ecSources c)" "onceOn c n" "m \<noteq> n \<Longrightarrow> stateOf c m = Closed"
proof -
  show c: "ecSource c = Some n" "onceOn c n" using assms unfolding sseOk_def by blast+
  show "n < length (ecSources c)" by (rule live_length [OF assms(2)])
  show "m \<noteq> n \<Longrightarrow> stateOf c m = Closed" using assms(1) c(1) unfolding sseOk_def by (metis option.inject)
qed

text \<open>A change that keeps sources, elements and what the connected element knows of them.\<close>

lemma sseOk_frame:
  assumes "sseOk c" "holds d \<le> 1 \<and> timersOk d" "ecConnect d = ecConnect c" "ecSource d = ecSource c"
    "ecElts d = ecElts c" "ecSelf d = ecSelf c"
    "\<And>m. live d m \<Longrightarrow> live c m \<and> (stateOf d m = Open \<longrightarrow> retryOf d m = 0) \<and> retryOf d m = retryOf c m
       \<and> (\<forall>l. fst l < length (ecElts c) \<and> elHere (ecElts c ! fst l) \<longrightarrow> count_list (heard d m) l = count_list (heard c m) l)
       \<and> set (heard d m) \<subseteq> set (heard c m)"
  shows "sseOk d"
proof -
  have "ecSource d = Some m \<and> onceOn d m \<and> (stateOf d m = Open \<longrightarrow> retryOf d m = 0)" if "live d m" for m
  proof -
    have l: "live c m" using assms(7) [OF that] by blast
    have c: "onceOn c m" "ecSource c = Some m" using assms(1) l unfolding sseOk_def by blast+
    have sub: "l \<in> set (heard c m)" if "l \<in> set (heard d m)" for l
      using assms(7) [OF \<open>live d m\<close>] that by blast
    have "onceOn d m" unfolding onceOn_def assms(5,6)
    proof (intro conjI ballI allI impI)
      fix l assume "l \<in> set (heard d m)"
      with c(1) sub show "fst l < length (ecElts c)" unfolding onceOn_def by blast
    next
      fix i and l :: listener assume i: "i < length (ecElts c)" "elHere (ecElts c ! i)" "fst l = i"
      then have "count_list (heard c m) l =
          (if retryOf c m = 0 \<or> ecSelf c \<and> i = 0 then count_list (listenersOf i (ecElts c ! i)) l else 0)"
        using c(1) unfolding onceOn_def by blast
      moreover have "count_list (heard d m) l = count_list (heard c m) l" "retryOf d m = retryOf c m"
        using assms(7) [OF that] i by blast+
      ultimately show "count_list (heard d m) l =
          (if retryOf d m = 0 \<or> ecSelf c \<and> i = 0 then count_list (listenersOf i (ecElts c ! i)) l else 0)"
        by simp
    qed
    moreover have "stateOf d m = Open \<longrightarrow> retryOf d m = 0" using assms(7) [OF that] by blast
    ultimately show ?thesis using c(2) assms(4) by simp
  qed
  then show ?thesis using assms(1-3) unfolding sseOk_def by simp
qed

lemma onOpen_ok:
  assumes ok: "sseOk c" and l: "live c n"
  shows "sseOk (onOpen n c)"
proof -
  note p = sseOk_parts [OF ok l]
  let ?c1 = "logCall (SseOpen n) (setSource n (\<lambda>s. s\<lparr>esState := Open\<rparr>) c)"
  have c1: "ecSource ?c1 = Some n" "n < length (ecSources ?c1)" "ecElts ?c1 = ecElts c" "ecSelf ?c1 = ecSelf c"
    "heard ?c1 m = heard c m" "retryOf ?c1 m = retryOf c m" "ecConnect ?c1 = ecConnect c"
    "stateOf ?c1 m = (if m = n then Open else stateOf c m)" for m
    using p(1,2) sourceAt_Some [OF p(2)]
    by (auto simp: stateOf_def heard_def retryOf_def) (simp_all add: logCall_def setSource_def)
  have h: "holds (onOpen n c) \<le> 1 \<and> timersOk (onOpen n c)"
    using onOpen_holds [OF l] ok unfolding sseOk_def by fastforce
  have s: "sourceAt n ?c1 = Some (ecSources ?c1 ! n)" using c1(2) by (simp add: sourceAt_def)
  have r: "retryOf ?c1 n = esRetry (ecSources ?c1 ! n)" unfolding retryOf_def s by simp
  have run: "onOpen n c = (if 0 < retryOf c n then setSource n (\<lambda>s. s\<lparr>esRetry := 0\<rparr>) (registerAll ?c1) else ?c1)"
    by (simp only: onOpen_def Let_def s option.case r [symmetric] c1(6))
  show ?thesis
  proof (cases "0 < retryOf c n")
    case False
    then have eq: "onOpen n c = ?c1" by (simp only: run if_False)
    have "sseOk ?c1"
    proof (rule sseOk_frame [OF ok])
      fix m assume "live ?c1 m"
      then have "live c m" using c1(8) [of m] l by (cases "m = n") auto
      then have "m = n" using p(1) ok unfolding sseOk_def by (metis option.inject)
      then show "live c m \<and> (stateOf ?c1 m = Open \<longrightarrow> retryOf ?c1 m = 0) \<and> retryOf ?c1 m = retryOf c m
       \<and> (\<forall>l. fst l < length (ecElts c) \<and> elHere (ecElts c ! fst l) \<longrightarrow> count_list (heard ?c1 m) l = count_list (heard c m) l)
       \<and> set (heard ?c1 m) \<subseteq> set (heard c m)"
        using c1(5,6) l False by simp
    qed (use h eq c1 p(1) in simp_all)
    then show ?thesis by (simp only: eq)
  next
    case True
    let ?c2 = "registerAll ?c1"
    let ?d = "setSource n (\<lambda>s. s\<lparr>esRetry := 0\<rparr>) ?c2"
    have eq: "onOpen n c = ?d" using True by (simp only: run if_True)
    note reg = registerAll_heard [OF c1(1,2)]
    have d: "heard ?d n = heard c n @ concat (map (\<lambda>i. listenersOf i (ecElts c ! i)) (below ?c1))"
      "retryOf ?d n = 0" "stateOf ?d n = Open" "ecElts ?d = ecElts c" "ecSelf ?d = ecSelf c" "ecSource ?d = Some n"
      using reg c1 sourceAt_Some [OF p(2)]
      by (auto simp: stateOf_def heard_def retryOf_def split: option.splits) (simp_all add: setSource_def)
    have other: "stateOf ?d m = Closed" if "m \<noteq> n" for m
    proof -
      have fr: "sourceAt m (foldl (\<lambda>c1 i. registerSSE i c1) x is) = sourceAt m x" if "ecSource x = Some n" for x "is"
        using that \<open>m \<noteq> n\<close>
      proof (induction "is" arbitrary: x)
        case (Cons i js)
        have "sourceAt m (registerSSE i x) = sourceAt m x" using Cons.prems by (simp add: registerSSE_def)
        with Cons show ?case by simp
      qed simp
      have "sourceAt m ?d = sourceAt m ?c1"
        using fr [OF c1(1)] that by (simp add: registerAll_def)
      then show ?thesis using c1(8) [of m] p(4) [OF that] that by (simp add: stateOf_def)
    qed
    have bel: "set (below ?c1) = {i. (if ecSelf c then 1 else 0) \<le> i \<and> i < length (ecElts c) \<and> elHere (ecElts c ! i)}"
      "distinct (below ?c1)"
      by (auto simp: below_def c1(3,4))
    have "onceOn ?d n"
      unfolding onceOn_def
    proof (intro conjI ballI allI impI)
      fix l assume "l \<in> set (heard ?d n)"
      then consider "l \<in> set (heard c n)" | i where "i \<in> set (below ?c1)" "l \<in> set (listenersOf i (ecElts c ! i))"
        by (auto simp: d(1))
      then show "fst l < length (ecElts ?d)" unfolding d(4)
      proof cases
        case 1
        with p(3) show "fst l < length (ecElts c)" unfolding onceOn_def by blast
      next
        case 2
        have "i < length (ecElts c)" using 2(1) unfolding bel(1) by simp
        then show "fst l < length (ecElts c)" unfolding listenersOf_fst [OF 2(2)] .
      qed
    next
      fix i and l :: listener assume i: "i < length (ecElts ?d)" "elHere (ecElts ?d ! i)" "fst l = i"
      have old: "count_list (heard c n) l = (if ecSelf c \<and> i = 0 then count_list (listenersOf i (ecElts c ! i)) l else 0)"
      proof -
        have "i < length (ecElts c)" "elHere (ecElts c ! i)" using i(1,2) unfolding d(4) by blast+
        with p(3) i(3) have "count_list (heard c n) l = (if retryOf c n = 0 \<or> ecSelf c \<and> i = 0
            then count_list (listenersOf i (ecElts c ! i)) l else 0)" unfolding onceOn_def by blast
        then show ?thesis using True by simp
      qed
      have "count_list (heard ?d n) l = count_list (heard c n) l
          + (if i \<in> set (below ?c1) then count_list (listenersOf i (ecElts c ! i)) l else 0)"
        using count_concat [OF bel(2), of "\<lambda>i. ecElts c ! i" l] i(3) by (simp add: d(1))
      then show "count_list (heard ?d n) l =
          (if retryOf ?d n = 0 \<or> ecSelf ?d \<and> i = 0 then count_list (listenersOf i (ecElts ?d ! i)) l else 0)"
        using i(1,2) bel(1) unfolding d(2,4,5) by (simp add: old)
    qed
    then have "sseOk ?d" using h ok d other c1 unfolding sseOk_def eq by (metis registerAll_frame(5) setSource_frame(5))
    then show ?thesis by (simp only: eq)
  qed
qed

lemma logCall_source [simp]:
  "stateOf (logCall e c) m = stateOf c m" "heard (logCall e c) m = heard c m" "retryOf (logCall e c) m = retryOf c m"
  "ecSelf (logCall e c) = ecSelf c"
  by (simp_all add: stateOf_def heard_def retryOf_def) (simp add: logCall_def)

lemma setSource_elts [simp]: "ecSelf (setSource n f c) = ecSelf c"
  by (simp add: setSource_def)

text \<open>Closing the current source leaves nothing live.\<close>

lemma close_ok:
  assumes ok: "sseOk c" and src: "ecSource c = Some n"
  shows "sseOk (closeSource n (logCall e c))"
proof (rule sseOk_dead)
  have "timersOk c" "holds c \<le> 1" using ok unfolding sseOk_def by blast+
  then show "holds (closeSource n (logCall e c)) \<le> 1" "timersOk (closeSource n (logCall e c))"
    using close_holds [of c n e] by simp_all
  show "ecConnect (closeSource n (logCall e c)) \<noteq> []" using ok unfolding sseOk_def by simp
  have "m = n" if "live c m" for m using ok that src unfolding sseOk_def by (metis option.inject)
  then show "\<not> live (closeSource n (logCall e c)) m" for m using closed_all by blast
qed

text \<open>A message: whatever its listeners do, the source is closed or only listeners of absent elements go.\<close>

lemma onMessage_ok:
  assumes "sseOk c" "ecSource c = Some n"
  shows "sseOk (onMessage exts n w a l c) \<and> ecSource (onMessage exts n w a l c) = Some n"
proof (cases "ecInBody c")
  case False
  then have "onMessage exts n w a l c = closeSource n (logCall (SseClose n ''nodeMissing'') c)"
    using assms(2) by (simp add: onMessage_def maybeCloseSSESource_def)
  with close_ok [OF assms] assms(2) show ?thesis by simp
next
  case True
  obtain i kind name where l: "l = (i, kind, name)" by (cases l)
  let ?gone = "length (ecElts c) \<le> i \<or> \<not> elHere (ecElts c ! i)"
  let ?c2 = "if ?gone then setSource n (\<lambda>s. s\<lparr>esListeners := remove1 l (esListeners s)\<rparr>) c else c"
  let ?d = "onMessage exts n w a l c"
  have d: "?d = ?c2 \<or> (\<exists>e e'. ?d = logCall e (logCall e' ?c2))"
    using True by (cases kind) (auto simp: onMessage_def maybeCloseSSESource_def l Let_def)
  have c2: "stateOf ?c2 m = stateOf c m" "retryOf ?c2 m = retryOf c m"
    "heard ?c2 m = (if ?gone \<and> m = n then remove1 l (heard c m) else heard c m)" for m
    by (auto simp: stateOf_def heard_def retryOf_def split: option.split)
  have c2f: "ecSource ?c2 = Some n" "ecElts ?c2 = ecElts c" "ecSelf ?c2 = ecSelf c" "ecConnect ?c2 = ecConnect c"
    using assms(2) by simp_all
  have out: "stateOf ?d m = stateOf c m" "retryOf ?d m = retryOf c m" "heard ?d m = heard ?c2 m"
    "ecSource ?d = Some n" "ecElts ?d = ecElts c" "ecSelf ?d = ecSelf c" "ecConnect ?d = ecConnect c" for m
    using d c2(1,2) c2f by (elim disjE exE; simp only: logCall_source logCall_frame)+
  have "sseOk ?d"
  proof (rule sseOk_frame [OF assms(1)])
    show "holds ?d \<le> 1 \<and> timersOk ?d" using onMessage_holds [of c exts n w a l] assms(1) unfolding sseOk_def by fastforce
    fix m assume "live ?d m"
    then have m: "live c m" by (simp add: out(1))
    have ret: "stateOf c m = Open \<longrightarrow> retryOf c m = 0" using assms(1) m unfolding sseOk_def by blast
    have "count_list (heard ?c2 m) k = count_list (heard c m) k"
      if "fst k < length (ecElts c)" "elHere (ecElts c ! fst k)" for k
      using that by (auto simp: c2(3) l count_list_remove1)
    moreover have "set (heard ?c2 m) \<subseteq> set (heard c m)" by (simp add: c2(3) set_remove1_subset)
    ultimately show "live c m \<and> (stateOf ?d m = Open \<longrightarrow> retryOf ?d m = 0) \<and> retryOf ?d m = retryOf c m
       \<and> (\<forall>l. fst l < length (ecElts c) \<and> elHere (ecElts c ! fst l) \<longrightarrow> count_list (heard ?d m) l = count_list (heard c m) l)
       \<and> set (heard ?d m) \<subseteq> set (heard c m)"
      using m ret unfolding out by blast
  qed (simp_all add: out assms(2))
  with out(4) show ?thesis by blast
qed

lemma dispatch_ok: "sseOk c \<Longrightarrow> live c n \<Longrightarrow> sseOk (dispatch exts n name w a c)"
proof -
  assume ok: "sseOk c" "live c n"
  have "sseOk (foldl (\<lambda>c1 l. onMessage exts n w a l c1) c ls)" if "sseOk c" "ecSource c = Some n" for ls c
    using that by (induction ls arbitrary: c) (simp_all add: onMessage_ok)
  then show ?thesis using ok sseOk_parts(1) [OF ok] by (simp add: dispatch_def split: option.split)
qed

lemma onError_ok:
  assumes ok: "sseOk c" and l: "live c n"
  shows "sseOk (onError n fatal c)"
proof -
  note p = sseOk_parts [OF ok l]
  have t: "timersOk c" "holds c \<le> 1" using ok unfolding sseOk_def by blast+
  have h: "holds (onError n fatal c) \<le> 1 \<and> timersOk (onError n fatal c)"
    using onError_holds [OF l t(1), of fatal] t(2) by simp
  let ?c0 = "if fatal then closeSource n c else setSource n (\<lambda>s. s\<lparr>esState := Connecting\<rparr>) c"
  let ?c1 = "logCall (SseError n) ?c0"
  have keep: "ecConnect (onError n fatal c) = ecConnect c"
    by (simp add: onError_def maybeCloseSSESource_def Let_def split: option.split)
  show ?thesis
  proof (cases "ecInBody c \<and> \<not> fatal")
    case False
    have dead: "\<not> live (onError n fatal c) m" for m
    proof -
      have z: "stateOf ?c1 m = Closed" if "fatal"
        using p(4) [of m] that by (cases "m = n") (simp_all add: closeSource_def stateOf_def split: option.split)
      have y: "stateOf (closeSource n x) m = Closed" if "\<And>k. k \<noteq> n \<Longrightarrow> stateOf x k = Closed" for x
        using that by (cases "m = n") (simp_all add: closeSource_def stateOf_def split: option.split)
      have x: "k \<noteq> n \<Longrightarrow> stateOf ?c1 k = Closed" for k using p(4) [of k] by (simp add: closeSource_def stateOf_def)
      show ?thesis
      proof (cases "ecInBody c")
        case False
        then have "onError n fatal c = closeSource n (logCall (SseClose n ''nodeMissing'') ?c1)"
          using p(1) by (simp add: onError_def maybeCloseSSESource_def)
        moreover have "k \<noteq> n \<Longrightarrow> stateOf (logCall (SseClose n ''nodeMissing'') ?c1) k = Closed" for k
          using x by simp
        ultimately show ?thesis using y by simp
      next
        case True
        with False have f: fatal by simp
        have "stateOf (onError n fatal c) m = stateOf ?c1 m"
          using True f by (simp add: onError_def maybeCloseSSESource_def Let_def stateOf_def split: option.split)
            (simp add: sourceAt_def closeSource_def setSource_def nth_list_update)
        then show ?thesis using z f by simp
      qed
    qed
    with h keep ok show ?thesis by (intro sseOk_dead) (auto simp: sseOk_def)
  next
    case True
    have st: "stateOf ?c1 n = Connecting" using True l by (auto simp: stateOf_def split: option.splits)
    have eq: "onError n fatal c = ?c1"
      using True st by (auto simp: onError_def maybeCloseSSESource_def Let_def stateOf_def split: option.splits)
    have "sseOk ?c1"
    proof (rule sseOk_frame [OF ok])
      fix m assume m: "live ?c1 m"
      have "m = n"
      proof (rule ccontr)
        assume "m \<noteq> n"
        then have "stateOf ?c1 m = stateOf c m" using True by (simp add: stateOf_def)
        with m p(4) [OF \<open>m \<noteq> n\<close>] show False by simp
      qed
      moreover have "heard ?c1 n = heard c n" "retryOf ?c1 n = retryOf c n"
        using True by (auto simp: heard_def retryOf_def split: option.split)
      ultimately show "live c m \<and> (stateOf ?c1 m = Open \<longrightarrow> retryOf ?c1 m = 0) \<and> retryOf ?c1 m = retryOf c m
       \<and> (\<forall>l. fst l < length (ecElts c) \<and> elHere (ecElts c ! fst l) \<longrightarrow> count_list (heard ?c1 m) l = count_list (heard c m) l)
       \<and> set (heard ?c1 m) \<subseteq> set (heard c m)"
        using st l by simp
    qed (use h eq True in simp_all)
    then show ?thesis by (simp only: eq)
  qed
qed

text \<open>A new source: only the connected element itself listens on it at first.\<close>

lemma connect_ok:
  assumes t: "timersOk c" and h: "holds c = 0" and u: "ecConnect c \<noteq> []"
  shows "sseOk (ensureEventSourceOnElement r c) \<or> r = 0"
proof (cases "r = 0")
  case False
  let ?n = "length (ecSources c)" and ?d = "ensureEventSourceOnElement r c"
  let ?c1 = "ensureEventSource (ecConnect c) r c"
  have dead: "stateOf c m = Closed" for m
    using h by (auto simp: holds_def liveCount_def stateOf_def sourceAt_def filter_empty_conv)
  have c1: "stateOf ?c1 m = (if m = ?n then Connecting else Closed)" "heard ?c1 ?n = []" "retryOf ?c1 ?n = r"
    "ecSource ?c1 = Some ?n" "?n < length (ecSources ?c1)" "ecElts ?c1 = ecElts c" "ecSelf ?c1 = ecSelf c" for m
    using dead [of m]
    by (auto simp: ensureEventSource_def createEventSource_def source_defs nth_append split: if_splits)
  have deq: "?d = (if ecSelf c then registerSSE 0 ?c1 else ?c1)"
    using u c1(7) by (simp add: ensureEventSourceOnElement_def Let_def)
  have others: "stateOf ?d m = stateOf ?c1 m" "retryOf ?d m = retryOf ?c1 m" for m
    by (auto simp: deq registerSSE_def stateOf_def retryOf_def split: option.split)
  have f: "ecSource ?d = Some ?n" "ecElts ?d = ecElts c" "ecSelf ?d = ecSelf c" "ecConnect ?d = ecConnect c"
    "ecTimers ?d = ecTimers c" "liveCount ?d = 1"
    using c1 h by (auto simp: deq ensureEventSource_def holds_def) (simp_all add: ensureEventSource_def liveCount_def createEventSource_def)
  have hd: "heard ?d ?n = (if ecSelf c \<and> 0 < length (ecElts c) then listenersOf 0 (ecElts c ! 0) else [])"
  proof (cases "ecSelf c \<and> 0 < length (ecElts c)")
    case True
    then show ?thesis using registerSSE_heard(1) [OF c1(4,5), of 0] c1 by (simp add: deq)
  qed (auto simp: deq c1 registerSSE_def)
  have "onceOn ?d ?n"
    unfolding onceOn_def f others c1(3)
  proof (intro conjI ballI allI impI)
    fix l assume "l \<in> set (heard ?d ?n)"
    then show "fst l < length (ecElts c)" using listenersOf_fst by (fastforce simp: hd split: if_splits)
  next
    fix i and l :: listener assume "i < length (ecElts c)" "elHere (ecElts c ! i)" "fst l = i"
    then show "count_list (heard ?d ?n) l = (if r = 0 \<or> ecSelf c \<and> i = 0 then count_list (listenersOf i (ecElts c ! i)) l else 0)"
      using False by (auto simp: hd count_other)
  qed
  moreover have "live ?d m \<longrightarrow> m = ?n" "stateOf ?d m \<noteq> Open" for m using others c1(1) by (auto split: if_splits)
  ultimately have "sseOk ?d" using f h t u by (auto simp: sseOk_def holds_def timersOk_def)
  then show ?thesis ..
qed simp

text \<open>A new element listens on a live source that has opened or is the first one.\<close>

lemma processed_ok:
  assumes ok: "sseOk c" and nr: "\<not> reconnecting c"
  shows "sseOk (sseStep exts (Processed w ts) c)"
proof -
  let ?el = "\<lparr>elSwap = w, elTriggers = ts, elHere = True\<rparr>"
  let ?k = "length (ecElts c)"
  let ?c1 = "c\<lparr>ecElts := ecElts c @ [?el]\<rparr>"
  let ?d = "registerSSE ?k ?c1"
  have c1: "stateOf ?c1 m = stateOf c m" "heard ?c1 m = heard c m" "retryOf ?c1 m = retryOf c m" for m
    by (simp_all add: source_defs)
  have t: "timersOk c" "holds c \<le> 1" "ecConnect c \<noteq> []" using ok unfolding sseOk_def by blast+
  have h: "holds ?d \<le> 1 \<and> timersOk ?d"
    using sseStep_holds [OF t(1), of exts "Processed w ts"] t(2) by simp
  have st: "stateOf ?d m = stateOf c m" "retryOf ?d m = retryOf c m" for m
    by (auto simp: registerSSE_def stateOf_def retryOf_def sourceAt_def setSource_def nth_list_update split: option.split)
  have "ecSource ?d = Some n \<and> onceOn ?d n \<and> (stateOf ?d n = Open \<longrightarrow> retryOf ?d n = 0)" if "live ?d n" for n
  proof -
    have l: "live c n" using that by (simp add: st)
    note p = sseOk_parts [OF ok l]
    have r: "retryOf c n = 0"
      using nr p(1) l by (auto simp: reconnecting_def retryOf_def split: option.splits)
    have hd: "heard ?d n = heard c n @ listenersOf ?k ?el"
      using registerSSE_heard(1) [of ?c1 n ?k] p(1,2) c1 by simp
    have fresh: "count_list (heard c n) l = 0" if "fst l = ?k" for l
      using p(3) that unfolding onceOn_def by (intro count_notin) (metis less_irrefl)
    have "onceOn ?d n"
      unfolding onceOn_def
    proof (intro conjI ballI allI impI)
      fix l assume "l \<in> set (heard ?d n)"
      then consider "l \<in> set (heard c n)" | "l \<in> set (listenersOf ?k ?el)" unfolding hd by auto
      then have "fst l \<le> ?k"
      proof cases
        case 1
        with p(3) have "fst l < ?k" unfolding onceOn_def by blast
        then show ?thesis by simp
      next
        case 2
        then show ?thesis using listenersOf_fst by simp
      qed
      then show "fst l < length (ecElts ?d)" by simp
    next
      fix i and l :: listener assume i: "i < length (ecElts ?d)" "elHere (ecElts ?d ! i)" "fst l = i"
      show "count_list (heard ?d n) l =
          (if retryOf ?d n = 0 \<or> ecSelf ?d \<and> i = 0 then count_list (listenersOf i (ecElts ?d ! i)) l else 0)"
      proof (cases "i = ?k")
        case True
        then show ?thesis using fresh i(3) by (simp add: hd st r)
      next
        case False
        then have old: "i < ?k" "elHere (ecElts c ! i)" "ecElts ?d ! i = ecElts c ! i" using i(1,2) by (simp_all add: nth_append)
        have "count_list (heard c n) l = count_list (listenersOf i (ecElts c ! i)) l"
          using onceOn_count [OF p(3) old(1,2) i(3)] r by simp
        moreover have "count_list (listenersOf ?k ?el) l = 0" using count_other False i(3) by simp
        ultimately show ?thesis unfolding hd old(3) st r count_list_append by (simp only: add_0_right simp_thms if_True)
      qed
    qed
    then show ?thesis using p(1) r st by simp
  qed
  then have "sseOk ?d" using h t(3) unfolding sseOk_def by simp
  then show ?thesis by simp
qed

lemma removeElt_ok:
  assumes ok: "sseOk c"
  shows "sseOk (removeElt i c)"
proof -
  let ?d = "removeElt i c"
  have src: "stateOf ?d m = stateOf c m" "heard ?d m = heard c m" "retryOf ?d m = retryOf c m" for m
    by (simp_all add: source_defs removeElt_def)
  have fr: "ecSource ?d = ecSource c" "ecConnect ?d = ecConnect c" "ecSelf ?d = ecSelf c" "length (ecElts ?d) = length (ecElts c)"
    "ecTimers ?d = ecTimers c" "liveCount ?d = liveCount c"
    by (simp_all add: removeElt_def liveCount_def)
  have el: "elHere (ecElts ?d ! j) \<Longrightarrow> elHere (ecElts c ! j)" "listenersOf j (ecElts ?d ! j) = listenersOf j (ecElts c ! j)"
    if "j < length (ecElts c)" for j
    using that by (auto simp: removeElt_def nth_list_update listenersOf_here split: if_splits)
  have "onceOn ?d n" if "onceOn c n" for n
    using that el unfolding onceOn_def src fr by simp
  then show ?thesis using ok unfolding sseOk_def holds_def timersOk_def src fr by blast
qed

lemma sseInit_ok:
  assumes "url \<noteq> []"
  shows "sseOk (sseInit url stop self elts)"
proof -
  let ?c0 = "\<lparr>ecInBody = True, ecConnect = url, ecClose = stop, ecSource = None, ecSources = [], ecTimers = [],
      ecElts = elts, ecSelf = self, ecLog = []\<rparr>"
  let ?c1 = "ensureEventSource url 0 ?c0"
  let ?c2 = "if self then registerSSE 0 ?c1 else ?c1"
  have init: "sseInit url stop self elts = registerAll ?c2"
    using assms by (simp add: sseInit_def ensureEventSourceOnElement_def Let_def ensureEventSource_def)
  have c1: "ecSource ?c1 = Some 0" "length (ecSources ?c1) = 1" "heard ?c1 0 = []" "retryOf ?c1 0 = 0"
    "stateOf ?c1 0 = Connecting" "ecElts ?c1 = elts" "ecSelf ?c1 = self" "ecConnect ?c1 = url"
    by (simp_all add: ensureEventSource_def createEventSource_def source_defs)
  have self: "heard ?c2 0 = (if self \<and> 0 < length elts then listenersOf 0 (elts ! 0) else [])"
    "retryOf ?c2 0 = 0" "stateOf ?c2 0 = Connecting" "ecSource ?c2 = Some 0" "ecElts ?c2 = elts" "ecSelf ?c2 = self"
    "ecConnect ?c2 = url" "length (ecSources ?c2) = 1"
    using c1 registerSSE_heard [of ?c1 0 0] by (auto simp: registerSSE_def)
  have all: "heard (registerAll ?c2) 0 = heard ?c2 0 @ concat (map (\<lambda>i. listenersOf i (elts ! i)) (below ?c2))"
    "stateOf (registerAll ?c2) 0 = Connecting" "retryOf (registerAll ?c2) 0 = 0" "ecElts (registerAll ?c2) = elts"
    "ecSelf (registerAll ?c2) = self" "ecSource (registerAll ?c2) = Some 0" "ecConnect (registerAll ?c2) = url"
    "length (ecSources (registerAll ?c2)) = 1"
    using registerAll_heard [of ?c2 0] self by simp_all
  have bel: "set (below ?c2) = {i. (if self then 1 else 0) \<le> i \<and> i < length elts \<and> elHere (elts ! i)}" "distinct (below ?c2)"
    by (auto simp: below_def self)
  have "onceOn (registerAll ?c2) 0"
    unfolding onceOn_def
  proof (intro conjI ballI allI impI)
    fix l assume "l \<in> set (heard (registerAll ?c2) 0)"
    then consider "self \<and> 0 < length elts" "l \<in> set (listenersOf 0 (elts ! 0))"
      | i where "i \<in> set (below ?c2)" "l \<in> set (listenersOf i (elts ! i))"
      by (auto simp: all(1) self(1) split: if_splits)
    then show "fst l < length (ecElts (registerAll ?c2))" unfolding all(4)
    proof cases
      case 1
      then show "fst l < length elts" using listenersOf_fst [OF 1(2)] by simp
    next
      case 2
      have "i < length elts" using 2(1) unfolding bel(1) by simp
      then show "fst l < length elts" unfolding listenersOf_fst [OF 2(2)] .
    qed
  next
    fix i and l :: listener assume i: "i < length (ecElts (registerAll ?c2))" "elHere (ecElts (registerAll ?c2) ! i)" "fst l = i"
    have "count_list (heard (registerAll ?c2) 0) l = count_list (heard ?c2 0) l
        + (if i \<in> set (below ?c2) then count_list (listenersOf i (elts ! i)) l else 0)"
      using count_concat [OF bel(2), of "\<lambda>i. elts ! i" l] i(3) by (simp add: all(1))
    also have "\<dots> = count_list (listenersOf i (elts ! i)) l"
    proof (cases "self \<and> i = 0")
      case True
      then have "heard ?c2 0 = listenersOf 0 (elts ! 0)" "i \<notin> set (below ?c2)"
        using i(1) unfolding self(1) bel(1) all(4) by auto
      then show ?thesis using True by (simp only: if_False add_0_right)
    next
      case False
      then have "i \<in> set (below ?c2)" using i(1,2) unfolding all(4) bel(1) by (simp add: Suc_le_eq)
      moreover have "count_list (heard ?c2 0) l = 0"
        using False i(3) count_other [of l 0 "elts ! 0"] by (auto simp: self(1))
      ultimately show ?thesis by simp
    qed
    finally show "count_list (heard (registerAll ?c2) 0) l =
        (if retryOf (registerAll ?c2) 0 = 0 \<or> ecSelf (registerAll ?c2) \<and> i = 0
         then count_list (listenersOf i (ecElts (registerAll ?c2) ! i)) l else 0)"
      by (simp add: all)
  qed
  moreover have "m = 0" if "live (registerAll ?c2) m" for m
    using live_length [OF that] unfolding all(8) by simp
  ultimately show ?thesis
    using sseInit_holds [of url stop self elts] assms unfolding init sseOk_def all(6,7)
    using all(2) by (metis readyState.distinct(1))
qed

text \<open>Every step keeps the invariant; a timer fires only when nothing is live.\<close>

lemma timer_ok:
  assumes ok: "sseOk c" and k: "k < length (ecTimers c)"
  shows "sseOk (sseStep exts (TimerFires k) c)"
proof -
  let ?c1 = "c\<lparr>ecTimers := take k (ecTimers c) @ drop (Suc k) (ecTimers c)\<rparr>"
  have t: "timersOk c" "holds c \<le> 1" "ecConnect c \<noteq> []" using ok unfolding sseOk_def by blast+
  have z: "liveCount c = 0" "length (ecTimers c) = 1" using t(2) k by (auto simp: holds_def)
  have h: "holds ?c1 = 0" using z k by (simp add: holds_def liveCount_def)
  have r: "snd (ecTimers c ! k) \<noteq> 0" using t(1) k unfolding timersOk_def by (fastforce dest: nth_mem)
  have "ecTimers ?c1 = []" using h unfolding holds_def by (simp only: add_is_0 length_0_conv)
  then have "timersOk ?c1" unfolding timersOk_def by (simp only: list.set ball_empty)
  then show ?thesis using connect_ok [of ?c1 "snd (ecTimers c ! k)"] h r t(3) k by simp
qed

lemma sseStep_ok:
  assumes ok: "sseOk c" and p: "\<And>w ts. e = Processed w ts \<Longrightarrow> \<not> reconnecting c"
  shows "sseOk (sseStep exts e c)"
proof (cases e)
  case (CloseArrived n)
  have "ecSource c = Some n" if "stateOf c n = Open" using sseOk_parts(1) [OF ok, of n] that by simp
  then show ?thesis using CloseArrived ok close_ok by (auto simp: onCloseMessage_def)
next
  case (TimerFires k)
  then show ?thesis using ok timer_ok by (cases "k < length (ecTimers c)") auto
next
  case Removed
  have "stateOf (c\<lparr>ecInBody := False\<rparr>) = stateOf c" "heard (c\<lparr>ecInBody := False\<rparr>) = heard c"
    "retryOf (c\<lparr>ecInBody := False\<rparr>) = retryOf c"
    by (simp_all add: fun_eq_iff source_defs)
  then have "sseOk (c\<lparr>ecInBody := False\<rparr>)"
    using ok by (simp add: sseOk_def holds_def liveCount_def timersOk_def onceOn_def)
  then show ?thesis using Removed by simp
qed (use ok p processed_ok in \<open>auto simp del: sseStep.simps(6) simp: onOpen_ok onError_ok dispatch_ok removeElt_ok cleanupElement_def close_ok split: option.split\<close>)

lemma sseReach_ok: "sseReach exts url stop self elts c \<Longrightarrow> sseOk c"
  by (induction rule: sseReach.induct) (simp_all add: sseInit_ok sseStep_ok)

text \<open>What one listener of an element that is there adds to the log.\<close>

definition callsOf ::
  "(nat \<Rightarrow> (string \<Rightarrow> string) list) \<Rightarrow> string \<Rightarrow> (nat \<Rightarrow> bool) \<Rightarrow> (nat \<Rightarrow> bool) \<Rightarrow> listener \<Rightarrow> sseCall list" where
  "callsOf exts content allowed here l = (case l of (i, kind, name) \<Rightarrow>
     (case kind of
        ForSwap \<Rightarrow> if here i \<and> allowed i then [SseSwap i name (swapContent (exts i) content), SseMessage i] else []
      | ForTrigger \<Rightarrow> [SseTrigger i (''sse:'' @ name), SseMessage i]))"

definition present :: "sseClient \<Rightarrow> nat \<Rightarrow> bool" where
  "present c i \<longleftrightarrow> i < length (ecElts c) \<and> elHere (ecElts c ! i)"

lemma onMessage_log:
  assumes "ecInBody c"
  shows "ecLog (onMessage exts n content allowed l c) = ecLog c @ callsOf exts content allowed (present c) l
    \<and> ecInBody (onMessage exts n content allowed l c) \<and> ecElts (onMessage exts n content allowed l c) = ecElts c"
proof -
  obtain i kind name where l: "l = (i, kind, name)" by (cases l)
  have s: "ecLog (setSource n f c) = ecLog c" for f by (simp add: setSource_def)
  show ?thesis using assms
    by (cases kind) (auto simp: onMessage_def maybeCloseSSESource_def l Let_def callsOf_def present_def logCall_def s)
qed

lemma dispatch_log:
  assumes "ecInBody c"
  shows "ecLog (dispatch exts n name content allowed c) =
    ecLog c @ concat (map (callsOf exts content allowed (present c)) (filter (\<lambda>l. snd (snd l) = name) (heard c n)))"
proof -
  have "ecLog (foldl (\<lambda>c1 l. onMessage exts n content allowed l c1) c ls) =
      ecLog c @ concat (map (callsOf exts content allowed (present c)) ls)" for ls
    using assms
  proof (induction ls arbitrary: c)
    case (Cons l ls)
    note one = onMessage_log [OF Cons.prems, of exts n content allowed l]
    have "present (onMessage exts n content allowed l c) = present c" using one by (simp add: fun_eq_iff present_def)
    then show ?case using one Cons.IH [of "onMessage exts n content allowed l c"] by simp
  qed simp
  then show ?thesis by (simp add: dispatch_def heard_def split: option.split)
qed

lemma count_calls:
  assumes "present c i" "allowed i"
  shows "count_list (concat (map (callsOf exts content allowed (present c)) (filter (\<lambda>l. snd (snd l) = name) ls)))
      (SseSwap i name (swapContent (exts i) content)) = count_list ls (i, ForSwap, name)"
    "count_list (concat (map (callsOf exts content allowed (present c)) (filter (\<lambda>l. snd (snd l) = name) ls)))
      (SseTrigger i (''sse:'' @ name)) = count_list ls (i, ForTrigger, name)"
proof -
  have "count_list (callsOf exts content allowed (present c) l) (SseSwap i name (swapContent (exts i) content)) =
      (if l = (i, ForSwap, name) then 1 else 0)"
    "count_list (callsOf exts content allowed (present c) l) (SseTrigger i (''sse:'' @ name)) =
      (if l = (i, ForTrigger, name) then 1 else 0)" if "snd (snd l) = name" for l
    using that assms by (cases l; cases "fst (snd l)"; auto simp: callsOf_def)+
  moreover have "l \<noteq> (i, k, name)" if "snd (snd l) \<noteq> name" for l :: listener and k using that by auto
  ultimately show "count_list (concat (map (callsOf exts content allowed (present c)) (filter (\<lambda>l. snd (snd l) = name) ls)))
      (SseSwap i name (swapContent (exts i) content)) = count_list ls (i, ForSwap, name)"
    "count_list (concat (map (callsOf exts content allowed (present c)) (filter (\<lambda>l. snd (snd l) = name) ls)))
      (SseTrigger i (''sse:'' @ name)) = count_list ls (i, ForTrigger, name)"
    by (induction ls) simp_all
qed

lemma count_listeners:
  "count_list (listenersOf i el) (i, ForSwap, name) = count_list (swapNames el) name"
  "count_list (listenersOf i el) (i, ForTrigger, name) = count_list (triggerNames el) name"
proof -
  have "count_list (map (\<lambda>x. (i, ForSwap, x)) xs) (i, ForSwap, name) = count_list xs name"
    "count_list (map (\<lambda>x. (i, ForTrigger, x)) xs) (i, ForSwap, name) = 0"
    "count_list (map (\<lambda>x. (i, ForTrigger, x)) xs) (i, ForTrigger, name) = count_list xs name"
    "count_list (map (\<lambda>x. (i, ForSwap, x)) xs) (i, ForTrigger, name) = 0" for xs
    by (induction xs) auto
  then show "count_list (listenersOf i el) (i, ForSwap, name) = count_list (swapNames el) name"
    "count_list (listenersOf i el) (i, ForTrigger, name) = count_list (triggerNames el) name"
    by (simp_all add: listenersOf_def)
qed

text \<open>On an open source every element that is there is heard as often as its attributes ask.\<close>

lemma open_heard:
  assumes "sseReach exts url stop self elts c" "stateOf c n = Open" "present c i"
  shows "count_list (heard c n) (i, k, name) = count_list (listenersOf i (ecElts c ! i)) (i, k, name)"
proof -
  have ok: "sseOk c" by (rule sseReach_ok [OF assms(1)])
  then have "onceOn c n" "retryOf c n = 0" using assms(2) unfolding sseOk_def by force+
  then show ?thesis using assms(3) unfolding onceOn_def present_def by fastforce
qed

section \<open>Properties\<close>

text \<open>C38: Whatever the server, the network and the page do, an element holds at most one of a live event
  source and a pending reconnection, and every reconnection waits between half a second and 64 seconds.\<close>

theorem one_connection:
  "length (filter (\<lambda>s. esState s \<noteq> Closed) (ecSources (sseRun exts url stop self elts es)))
     + length (ecTimers (sseRun exts url stop self elts es)) \<le> 1 \<and>
   (\<forall>(d, r)\<in>set (ecTimers (sseRun exts url stop self elts es)). d = r * 500 \<and> 500 \<le> d \<and> d \<le> 64000)"
  using sseRun_holds [of exts url stop self elts es] by (fastforce simp: holds_def liveCount_def timersOk_def)

theorem one_connection_witness:
  "ecTimers (sseRun (\<lambda>_. []) ''/s'' [] False [] [Failed 0 True]) = [(500, 1)] \<and> (500::nat) = 1 * 500 \<and>
   length (filter (\<lambda>s. esState s \<noteq> Closed) (ecSources (sseRun (\<lambda>_. []) ''/s'' [] False [] [Failed 0 True]))) = 0"
proof -
  have t: "ecTimers (sseRun (\<lambda>_. []) ''/s'' [] False [] [Failed 0 True]) = [(500, 1)]" by code_simp
  show ?thesis using one_connection [of "\<lambda>_. []" "''/s''" "[]" False "[]" "[Failed 0 True]"] t by simp
qed

text \<open>\<open>k + 1\<close> connections that fail one after the other.\<close>

fun failRun :: "nat \<Rightarrow> sseEvent list" where
  "failRun 0 = [Failed 0 True]"
| "failRun (Suc k) = failRun k @ [TimerFires 0, Failed (Suc k) True]"

abbreviation failing :: "nat \<Rightarrow> sseClient" where
  "failing k \<equiv> sseRun (\<lambda>_. []) ''/s'' [] False [] (failRun k)"

lemma fail_step:
  assumes "ecInBody c" "ecConnect c = u" "ecTimers c = []" "length (ecSources c) = Suc n"
    "esState (ecSources c ! n) \<noteq> Closed" "esRetry (ecSources c ! n) = r"
  shows "ecTimers (sseStep x (Failed n True) c) = [(nextRetry r * 500, nextRetry r)] \<and>
    ecInBody (sseStep x (Failed n True) c) \<and> ecConnect (sseStep x (Failed n True) c) = u \<and>
    length (ecSources (sseStep x (Failed n True) c)) = Suc n \<and> ecSelf (sseStep x (Failed n True) c) = ecSelf c"
  using assms by (simp add: stateOf_def sourceAt_def onError_def Let_def closeSource_def setSource_def logCall_def
      maybeCloseSSESource_def)

text \<open>
  The wait doubles with every further failure, from half a second up to 64 seconds.
\<close>

theorem backoff_doubles:
  "ecTimers (failing k) = [(500 * min (2 ^ k) 128, min (2 ^ k) 128)]"
proof -
  have "ecTimers (failing k) = [((nextRetry ^^ Suc k) 0 * 500, (nextRetry ^^ Suc k) 0)] \<and>
      ecInBody (failing k) \<and> ecConnect (failing k) = ''/s'' \<and> length (ecSources (failing k)) = Suc k \<and> \<not> ecSelf (failing k)"
  proof (induction k)
    case 0
    have i: "sseInit ''/s'' [] False [] = \<lparr>ecInBody = True, ecConnect = ''/s'', ecClose = [], ecSource = Some 0,
        ecSources = [createEventSource ''/s'' 0], ecTimers = [], ecElts = [], ecSelf = False, ecLog = []\<rparr>"
      by (simp add: sseInit_def registerAll_def below_def Let_def ensureEventSourceOnElement_def ensureEventSource_def)
    have "failing 0 = sseStep (\<lambda>_. []) (Failed 0 True) (sseInit ''/s'' [] False [])" by (simp add: sseRun_def)
    then show ?case using fail_step [of "sseInit ''/s'' [] False []" "''/s''" 0 0] by (simp add: i createEventSource_def)
  next
    case (Suc k)
    let ?r = "(nextRetry ^^ Suc k) 0"
    let ?d = "sseStep (\<lambda>_. []) (TimerFires 0) (failing k)"
    have d: "ecInBody ?d" "ecConnect ?d = ''/s''" "ecTimers ?d = []" "length (ecSources ?d) = Suc (Suc k)"
      "esState (ecSources ?d ! Suc k) \<noteq> Closed" "esRetry (ecSources ?d ! Suc k) = ?r"
      "\<not> ecSelf ?d"
      using Suc by (simp_all add: ensureEventSourceOnElement_def Let_def ensureEventSource_def createEventSource_def nth_append)
    have "failing (Suc k) = sseStep (\<lambda>_. []) (Failed (Suc k) True) ?d"
      by (simp add: sseRun_def)
    then show ?case using fail_step [OF d(1-6)] d(7) by simp
  qed
  then show ?thesis unfolding nextRetry_iterate by (simp add: mult.commute)
qed

text \<open>
  A reconnection that was waiting when the element was cleaned up is not cancelled: it opens a new
  source for an element that is gone.
\<close>

theorem timer_survives_cleanup:
  "live (sseRun (\<lambda>_. []) ''/s'' [] False [] [Failed 0 True, Removed, CleanedUp, TimerFires 0]) 1 \<and>
   \<not> ecInBody (sseRun (\<lambda>_. []) ''/s'' [] False [] [Failed 0 True, Removed, CleanedUp, TimerFires 0])"
  by code_simp


text \<open>The list of rows of the dashboard after the connection was lost once and made again.\<close>

definition rowsElt :: sseElt where
  "rowsElt = \<lparr>elSwap = ''job_update'', elTriggers = [], elHere = True\<rparr>"

abbreviation again :: sseClient where
  "again \<equiv> sseStep (\<lambda>_. []) (Opened 1) (sseStep (\<lambda>_. []) (TimerFires 0) (sseStep (\<lambda>_. []) (Failed 0 True)
     (sseInit ''/s'' [] False [rowsElt])))"


text \<open>
  An element that htmx processes while a reconnection is under way is registered at once and again when
  the source opens, so its next message is swapped in twice; that is why \<open>sseReach\<close> leaves this case out.
\<close>

lemma processed_while_reconnecting:
  "ecLog (sseRun (\<lambda>_. []) ''/s'' [] False [] [Failed 0 True, TimerFires 0, Processed ''job_update'' [], Opened 1,
     Arrived 1 ''job_update'' ''x'' (\<lambda>_. True)]) =
   [SseError 0, SseOpen 1, SseSwap 0 ''job_update'' ''x'', SseMessage 0, SseSwap 0 ''job_update'' ''x'', SseMessage 0]"
  by code_simp

text \<open>
  The listener of a trigger removes itself when its element has left the page, and fires the trigger
  once more all the same, where the listener of a swap returns.
\<close>

lemma trigger_fires_for_absent_element:
  "ecLog (sseRun (\<lambda>_. []) ''/s'' [] False [\<lparr>elSwap = ''m'', elTriggers = [''sse:m''], elHere = True\<rparr>]
     [Opened 0, EltGone 0, Arrived 0 ''m'' ''x'' (\<lambda>_. True), Arrived 0 ''m'' ''x'' (\<lambda>_. True)]) =
   [SseOpen 0, SseTrigger 0 ''sse:m'', SseMessage 0]"
  by code_simp

end
