(* ===== verification/Live.thy ===== *)
theory Live
  imports SseClient Dashboard
begin

text \<open>
  The dashboard page while it is connected: the htmx extension of \<open>SseClient\<close> triggers
  \<open>htmx:sseOpen\<close> and \<open>htmx:sseError\<close>, the bridge of \<open>Monitor\<close> attaches its two listeners to the source
  that opened, and the messages that reach them become events of the board of \<open>Dashboard\<close>. The
  theorems say that the board gets exactly the messages that come over an open source, however often
  the connection is lost.
\<close>

section \<open>State and steps\<close>

record livePage =
  lpSse :: sseClient
  lpBridge :: bridge
  lpBoard :: board

text \<open>What the listeners of \<open>dashboard.js\<close> on \<open>document.body\<close> do when the extension triggers an event.\<close>

definition bodyListener :: "pageEnv \<Rightarrow> int \<Rightarrow> sseCall \<Rightarrow> livePage \<Rightarrow> livePage" where
  "bodyListener env now e p = (case e of
     SseOpen n \<Rightarrow> p\<lparr>lpBridge := attachSSE (Some n) (lpBridge p)\<rparr>
   | SseError n \<Rightarrow> p\<lparr>lpBoard := boardStep env now SseFails (lpBoard p)\<rparr>
   | _ \<Rightarrow> p)"

text \<open>What the bridge's own listeners do with a message of source \<open>n\<close>; \<open>reads\<close> is \<open>JSON.parse\<close> of its data.\<close>

definition bridgeListener ::
  "pageEnv \<Rightarrow> (string \<Rightarrow> sseMessage) \<Rightarrow> int \<Rightarrow> nat \<Rightarrow> string \<Rightarrow> string \<Rightarrow> livePage \<Rightarrow> livePage" where
  "bridgeListener env reads now n name content p =
     (if name = ''job_update'' \<and> n \<in> brJob (lpBridge p)
      then p\<lparr>lpBoard := boardStep env now (JobMessage (reads content)) (lpBoard p)\<rparr>
      else if name = ''progress_update'' \<and> n \<in> brProgress (lpBridge p)
      then p\<lparr>lpBoard := boardStep env now (ProgressMessage (reads content)) (lpBoard p)\<rparr>
      else p)"

text \<open>An event of the connection, or one of the page itself.\<close>

datatype liveEvent = Net sseEvent | Own boardEvent

type_synonym transforms = "nat \<Rightarrow> (string \<Rightarrow> string) list"

definition netStep :: "pageEnv \<Rightarrow> (string \<Rightarrow> sseMessage) \<Rightarrow> transforms \<Rightarrow> int \<Rightarrow> sseEvent \<Rightarrow> livePage \<Rightarrow> livePage" where
  "netStep env reads exts now e p =
     (let c = sseStep exts e (lpSse p);
          news = drop (length (ecLog (lpSse p))) (ecLog c);
          p1 = foldl (\<lambda>q a. bodyListener env now a q) (p\<lparr>lpSse := c\<rparr>) news
      in case e of
           Arrived n name content allowed \<Rightarrow>
             if stateOf (lpSse p) n = Open then bridgeListener env reads now n name content p1 else p1
         | _ \<Rightarrow> p1)"

definition liveStep ::
  "pageEnv \<Rightarrow> (string \<Rightarrow> sseMessage) \<Rightarrow> transforms \<Rightarrow> int \<times> liveEvent \<Rightarrow> livePage \<Rightarrow> livePage" where
  "liveStep env reads exts ne p = (case ne of (now, e) \<Rightarrow>
     (case e of Net a \<Rightarrow> netStep env reads exts now a p
      | Own a \<Rightarrow> p\<lparr>lpBoard := boardStep env now a (lpBoard p)\<rparr>))"

definition liveInit :: "string \<Rightarrow> sseElt list \<Rightarrow> board \<Rightarrow> livePage" where
  "liveInit url elts b = \<lparr>lpSse = sseInit url [] False elts, lpBridge = bridgeInit, lpBoard = b\<rparr>"

definition liveRun :: "pageEnv \<Rightarrow> (string \<Rightarrow> sseMessage) \<Rightarrow> transforms \<Rightarrow> string \<Rightarrow> sseElt list \<Rightarrow> board \<Rightarrow>
    (int \<times> liveEvent) list \<Rightarrow> livePage" where
  "liveRun env reads exts url elts b es = foldl (\<lambda>p ne. liveStep env reads exts ne p) (liveInit url elts b) es"

section \<open>The specification\<close>

text \<open>
  What the page promises, without the bridge: the board sees its own events, one failure for each
  connection that fails, and each job or progress message that comes over an open source, once and in
  order.
\<close>

definition promised :: "(string \<Rightarrow> sseMessage) \<Rightarrow> sseClient \<Rightarrow> liveEvent \<Rightarrow> boardEvent list" where
  "promised reads c e = (case e of
     Own a \<Rightarrow> [a]
   | Net (Failed n fatal) \<Rightarrow> if live c n then [SseFails] else []
   | Net (Arrived n name content allowed) \<Rightarrow>
       if stateOf c n \<noteq> Open then []
       else if name = ''job_update'' then [JobMessage (reads content)]
       else if name = ''progress_update'' then [ProgressMessage (reads content)] else []
   | _ \<Rightarrow> [])"

definition clientStep :: "transforms \<Rightarrow> liveEvent \<Rightarrow> sseClient \<Rightarrow> sseClient" where
  "clientStep exts e c = (case e of Net a \<Rightarrow> sseStep exts a c | Own a \<Rightarrow> c)"

fun boardTrace ::
  "(string \<Rightarrow> sseMessage) \<Rightarrow> transforms \<Rightarrow> sseClient \<Rightarrow> (int \<times> liveEvent) list \<Rightarrow> (int \<times> boardEvent) list" where
  "boardTrace reads exts c [] = []"
| "boardTrace reads exts c ((now, e) # es) =
     map (\<lambda>a. (now, a)) (promised reads c e) @ boardTrace reads exts (clientStep exts e c) es"

section \<open>Facts\<close>

text \<open>The calls that matter to \<open>dashboard.js\<close>.\<close>

definition heeded :: "sseCall \<Rightarrow> bool" where
  "heeded e \<longleftrightarrow> (case e of SseOpen n \<Rightarrow> True | SseError n \<Rightarrow> True | _ \<Rightarrow> False)"

definition newCalls :: "sseClient \<Rightarrow> sseClient \<Rightarrow> sseCall list \<Rightarrow> bool" where
  "newCalls c d hs \<longleftrightarrow> (\<exists>new. ecLog d = ecLog c @ new \<and> filter heeded new = hs)"

text \<open>\<open>quiet c d\<close>: nothing the page listens to is triggered, and no source opens.\<close>

definition quiet :: "sseClient \<Rightarrow> sseClient \<Rightarrow> bool" where
  "quiet c d \<longleftrightarrow> newCalls c d [] \<and> (\<forall>n. stateOf d n = Open \<longrightarrow> stateOf c n = Open)"

lemma newCalls_refl: "newCalls c c []"
  by (simp add: newCalls_def)

lemma newCalls_trans: "newCalls c d hs \<Longrightarrow> newCalls d e gs \<Longrightarrow> newCalls c e (hs @ gs)"
  by (auto simp: newCalls_def)

lemma quiet_refl: "quiet c c"
  by (simp add: quiet_def newCalls_refl)

lemma quiet_trans: "quiet c d \<Longrightarrow> quiet d e \<Longrightarrow> quiet c e"
  using newCalls_trans [of c d "[]" e "[]"] by (auto simp: quiet_def)

lemma setSource_log [simp]: "ecLog (setSource n f c) = ecLog c"
  by (simp add: setSource_def)

lemma stateOf_set: "stateOf (setSource n f c) m = (if m = n then (case sourceAt n c of None \<Rightarrow> Closed | Some s \<Rightarrow> esState (f s)) else stateOf c m)"
  by (auto simp: stateOf_def split: option.split)

lemma quiet_set: "(\<And>s. esState (f s) = Open \<Longrightarrow> esState s = Open) \<Longrightarrow> quiet c (setSource n f c)"
  by (auto simp: quiet_def newCalls_def stateOf_set stateOf_def split: option.splits)

lemma quiet_log: "\<not> heeded e \<Longrightarrow> quiet c (logCall e c)"
  by (auto simp: quiet_def newCalls_def) (auto simp: logCall_def)

lemma quiet_close: "quiet c (closeSource n (logCall (SseClose n w) c))"
  unfolding closeSource_def
  by (rule quiet_trans [OF quiet_log quiet_set]) (simp_all add: heeded_def)

lemma quiet_same: "ecSources d = ecSources c \<Longrightarrow> ecLog d = ecLog c \<Longrightarrow> quiet c d"
  by (simp add: quiet_def newCalls_def stateOf_def sourceAt_def)

lemma quiet_register: "quiet c (registerSSE i c)"
  by (auto simp: registerSSE_def quiet_refl split: option.split intro: quiet_set)

lemma quiet_registerAll: "quiet c (registerAll c)"
proof -
  have "quiet c (foldl (\<lambda>c1 i. registerSSE i c1) c is)" for "is"
    by (induction "is" arbitrary: c) (auto intro: quiet_refl quiet_trans [OF quiet_register])
  then show ?thesis by (simp add: registerAll_def)
qed

lemma quiet_maybeClose: "maybeCloseSSESource c = (b, d) \<Longrightarrow> quiet c d"
  by (auto simp: maybeCloseSSESource_def quiet_refl quiet_close split: if_splits option.splits)

lemma quiet_connect: "quiet c (ensureEventSourceOnElement r c)"
proof -
  have "quiet c (ensureEventSource url r c)" for url
    by (auto simp: quiet_def newCalls_def ensureEventSource_def stateOf_def sourceAt_def nth_append createEventSource_def)
  then have "quiet c (if ecConnect c \<noteq> [] then ensureEventSource (ecConnect c) r c else c)" by (simp add: quiet_refl)
  then show ?thesis
    using quiet_trans [OF _ quiet_register] by (simp add: ensureEventSourceOnElement_def Let_def)
qed

lemma quiet_onMessage: "quiet c (onMessage exts n w a l c)"
proof -
  obtain b c1 where m: "maybeCloseSSESource c = (b, c1)" by fastforce
  obtain i kind name where l: "l = (i, kind, name)" by (cases l)
  have s: "quiet c1 (setSource n (\<lambda>s. s\<lparr>esListeners := remove1 l (esListeners s)\<rparr>) c1)" by (rule quiet_set) simp
  have two: "quiet c1 d \<Longrightarrow> \<not> heeded e \<Longrightarrow> \<not> heeded f \<Longrightarrow> quiet c1 (logCall e (logCall f d))" for d e f
    by (metis quiet_trans quiet_log)
  have "quiet c1 (onMessage exts n w a l c)"
    using m s quiet_refl [of c1] by (cases kind)
      (auto simp: onMessage_def l Let_def heeded_def split: bool.split intro!: two)
  with quiet_maybeClose [OF m] show ?thesis by (rule quiet_trans)
qed

lemma quiet_dispatch: "quiet c (dispatch exts n name w a c)"
proof -
  have "quiet c (foldl (\<lambda>c1 l. onMessage exts n w a l c1) c ls)" for ls
    by (induction ls arbitrary: c) (auto intro: quiet_refl quiet_trans [OF quiet_onMessage])
  then show ?thesis by (simp add: dispatch_def quiet_refl split: option.split)
qed

text \<open>A connection that fails triggers one error, one that opens one opening.\<close>

lemma onError_calls:
  "newCalls c (onError n fatal c) [SseError n] \<and> (\<forall>m. stateOf (onError n fatal c) m = Open \<longrightarrow> stateOf c m = Open)"
proof -
  let ?c0 = "if fatal then closeSource n c else setSource n (\<lambda>s. s\<lparr>esState := Connecting\<rparr>) c"
  let ?c1 = "logCall (SseError n) ?c0"
  obtain b c2 where m: "maybeCloseSSESource ?c1 = (b, c2)" by fastforce
  have q0: "quiet c ?c0" unfolding closeSource_def by (auto intro: quiet_set)
  have one: "newCalls ?c0 ?c1 [SseError n]" by (simp add: newCalls_def logCall_def heeded_def)
  have q2: "quiet c2 (onError n fatal c)"
  proof (cases b)
    case True
    then show ?thesis using m by (simp add: onError_def Let_def quiet_refl)
  next
    case False
    have "quiet c2 ((setSource n (\<lambda>s. s\<lparr>esRetry := r\<rparr>) c2)\<lparr>ecTimers := ts\<rparr>)" for r ts
      by (rule quiet_trans [OF quiet_set quiet_same]) simp_all
    then show ?thesis using m False quiet_refl by (auto simp: onError_def Let_def split: option.split)
  qed
  have "quiet ?c1 (onError n fatal c)" by (rule quiet_trans [OF quiet_maybeClose [OF m] q2])
  then have "newCalls c (onError n fatal c) ([] @ [SseError n] @ [])"
    using q0 one newCalls_trans unfolding quiet_def by blast
  moreover have "stateOf (onError n fatal c) m = Open \<longrightarrow> stateOf c m = Open" for m
    using \<open>quiet ?c1 _\<close> q0 unfolding quiet_def by simp
  ultimately show ?thesis by simp
qed

lemma onOpen_calls:
  "newCalls c (onOpen n c) [SseOpen n] \<and> (\<forall>m. m \<noteq> n \<longrightarrow> stateOf (onOpen n c) m = Open \<longrightarrow> stateOf c m = Open)"
proof -
  let ?c0 = "setSource n (\<lambda>s. s\<lparr>esState := Open\<rparr>) c"
  let ?c1 = "logCall (SseOpen n) ?c0"
  have one: "newCalls c ?c1 [SseOpen n]" by (simp add: newCalls_def logCall_def heeded_def)
  have "quiet ?c1 (setSource n (\<lambda>s. s\<lparr>esRetry := 0\<rparr>) (registerAll ?c1))"
    by (rule quiet_trans [OF quiet_registerAll quiet_set]) simp
  then have q: "quiet ?c1 (onOpen n c)" by (auto simp: onOpen_def Let_def quiet_refl split: option.split)
  then have "newCalls c (onOpen n c) [SseOpen n]" using newCalls_trans [OF one] unfolding quiet_def by force
  moreover have "stateOf (onOpen n c) m = Open \<longrightarrow> stateOf c m = Open" if "m \<noteq> n" for m
  proof
    assume "stateOf (onOpen n c) m = Open"
    then have "stateOf ?c1 m = Open" using q unfolding quiet_def by blast
    then show "stateOf c m = Open" using that by (simp add: stateOf_set)
  qed
  ultimately show ?thesis by blast
qed

text \<open>What each event of the connection triggers.\<close>

definition heededBy :: "sseClient \<Rightarrow> sseEvent \<Rightarrow> sseCall list" where
  "heededBy c e = (case e of
     Opened n \<Rightarrow> if live c n then [SseOpen n] else []
   | Failed n fatal \<Rightarrow> if live c n then [SseError n] else []
   | _ \<Rightarrow> [])"

lemma quiet_step:
  assumes "\<And>n. e \<noteq> Opened n" "\<And>n f. e \<noteq> Failed n f"
  shows "quiet c (sseStep exts e c)"
proof (cases e)
  case (TimerFires k)
  have "quiet c (c\<lparr>ecTimers := ts\<rparr>)" for ts by (rule quiet_same) simp_all
  then have "quiet c (ensureEventSourceOnElement r (c\<lparr>ecTimers := ts\<rparr>))" for r ts
    using quiet_trans quiet_connect by blast
  then show ?thesis using TimerFires quiet_refl by simp
next
  case (Processed w ts)
  have "quiet c (c\<lparr>ecElts := xs\<rparr>)" for xs by (rule quiet_same) simp_all
  then have "quiet c (registerSSE i (c\<lparr>ecElts := xs\<rparr>))" for i xs using quiet_trans quiet_register by blast
  then show ?thesis using Processed by simp
next
  case (EltGone i)
  then show ?thesis using quiet_refl by (auto simp: removeElt_def intro: quiet_same)
next
  case Removed
  then show ?thesis by (auto intro: quiet_same)
qed (use assms in \<open>auto simp: quiet_refl quiet_dispatch quiet_close onCloseMessage_def cleanupElement_def split: option.split\<close>)

lemma step_calls:
  "newCalls c (sseStep exts e c) (heededBy c e) \<and>
   (\<forall>m. stateOf (sseStep exts e c) m = Open \<longrightarrow> stateOf c m = Open \<or> (e = Opened m \<and> live c m))"
proof -
  consider (Opened) n where "e = Opened n" | (Failed) n f where "e = Failed n f"
    | (Other) "\<forall>n. e \<noteq> Opened n" "\<forall>n f. e \<noteq> Failed n f" by blast
  then show ?thesis
  proof cases
  case Opened
  have "stateOf (onOpen n c) m = Open \<longrightarrow> stateOf c m = Open \<or> m = n" for m using onOpen_calls [of c n] by blast
  then show ?thesis using Opened onOpen_calls [of c n] newCalls_refl [of c] by (auto simp: heededBy_def)
next
  case Failed
  then show ?thesis using onError_calls [of c n f] newCalls_refl by (auto simp: heededBy_def)
next
  case Other
  then have "heededBy c e = []" by (simp add: heededBy_def split: sseEvent.split)
  then show ?thesis using quiet_step [of e c exts] Other unfolding quiet_def by (simp del: sseStep.simps)
qed
qed

lemma bodyListener_skip: "\<not> heeded a \<Longrightarrow> bodyListener env now a q = q"
  by (cases a) (simp_all add: heeded_def bodyListener_def)

lemma bodyListeners_filter:
  "foldl (\<lambda>q a. bodyListener env now a q) q new = foldl (\<lambda>q a. bodyListener env now a q) q (filter heeded new)"
  by (induction new arbitrary: q) (simp_all add: bodyListener_skip)

lemma netStep_calls:
  "foldl (\<lambda>q a. bodyListener env now a q) p1 (drop (length (ecLog c)) (ecLog (sseStep exts e c))) =
   foldl (\<lambda>q a. bodyListener env now a q) p1 (heededBy c e)"
proof -
  obtain new where "ecLog (sseStep exts e c) = ecLog c @ new" "filter heeded new = heededBy c e"
    using step_calls [of c exts e] unfolding newCalls_def by blast
  then show ?thesis by (metis append_eq_conv_conj bodyListeners_filter)
qed

text \<open>The bridge listens on the open source, and on no other.\<close>

definition bridged :: "livePage \<Rightarrow> bool" where
  "bridged p \<longleftrightarrow> brJob (lpBridge p) = set_option (brSource (lpBridge p)) \<and>
     brProgress (lpBridge p) = set_option (brSource (lpBridge p)) \<and>
     (\<forall>n. stateOf (lpSse p) n = Open \<longrightarrow> brSource (lpBridge p) = Some n)"

lemma attach_sets:
  assumes "brJob b = set_option (brSource b)" "brProgress b = set_option (brSource b)"
  shows "brSource (attachSSE (Some n) b) = Some n \<and> brJob (attachSSE (Some n) b) = {n}
    \<and> brProgress (attachSSE (Some n) b) = {n}"
  using assms by (auto simp: attachSSE_def Let_def split: option.splits)

lemma one_live:
  assumes "holds c \<le> 1" "live c m" "live c n"
  shows "m = n"
proof (rule ccontr)
  assume "m \<noteq> n"
  have "m < length (ecSources c)" "n < length (ecSources c)" using assms live_length by blast+
  moreover have "{m, n} \<subseteq> {i. i < length (ecSources c) \<and> esState (ecSources c ! i) \<noteq> Closed}"
    using assms(2,3) calculation by (auto simp: stateOf_def sourceAt_def)
  then have "card {m, n} \<le> card {i. i < length (ecSources c) \<and> esState (ecSources c ! i) \<noteq> Closed}"
    by (intro card_mono) simp_all
  then have "2 \<le> liveCount c" using \<open>m \<noteq> n\<close> by (simp add: liveCount_def length_filter_conv_card)
  with assms(1) show False by (simp add: holds_def)
qed

definition pageOk :: "livePage \<Rightarrow> bool" where
  "pageOk p \<longleftrightarrow> bridged p \<and> holds (lpSse p) \<le> 1 \<and> timersOk (lpSse p)"

text \<open>One step of the page is the promised step of its board.\<close>

lemma netStep_parts:
  assumes "pageOk p"
  shows "lpSse (netStep env reads exts now e p) = sseStep exts e (lpSse p)"
    "lpBridge (netStep env reads exts now e p) = (case e of Opened n \<Rightarrow> (if live (lpSse p) n then attachSSE (Some n) (lpBridge p) else lpBridge p) | _ \<Rightarrow> lpBridge p)"
    "lpBoard (netStep env reads exts now e p) = foldl (\<lambda>b a. boardStep env now a b) (lpBoard p) (promised reads (lpSse p) (Net e))"
proof -
  let ?c = "lpSse p"
  let ?p1 = "foldl (\<lambda>q a. bodyListener env now a q) (p\<lparr>lpSse := sseStep exts e ?c\<rparr>) (heededBy ?c e)"
  have eq: "netStep env reads exts now e p = (case e of
      Arrived n name content allowed \<Rightarrow>
        if stateOf ?c n = Open then bridgeListener env reads now n name content ?p1 else ?p1
    | _ \<Rightarrow> ?p1)"
    unfolding netStep_def Let_def netStep_calls by (rule refl)
  have at: "n \<in> brJob (lpBridge p)" "n \<in> brProgress (lpBridge p)" if "stateOf ?c n = Open" for n
    using assms that unfolding pageOk_def bridged_def by auto
  show "lpSse (netStep env reads exts now e p) = sseStep exts e ?c"
    unfolding eq by (cases e) (auto simp: heededBy_def bodyListener_def bridgeListener_def)
  show "lpBridge (netStep env reads exts now e p) =
      (case e of Opened n \<Rightarrow> (if live ?c n then attachSSE (Some n) (lpBridge p) else lpBridge p) | _ \<Rightarrow> lpBridge p)"
    unfolding eq by (cases e) (auto simp: heededBy_def bodyListener_def bridgeListener_def)
  show "lpBoard (netStep env reads exts now e p) = foldl (\<lambda>b a. boardStep env now a b) (lpBoard p) (promised reads ?c (Net e))"
  proof (cases e)
    case (Arrived n name content allowed)
    then show ?thesis unfolding eq using at [of n]
      by (simp add: heededBy_def bridgeListener_def promised_def del: boardStep.simps)
  qed (unfold eq, auto simp: heededBy_def bodyListener_def promised_def simp del: boardStep.simps)
qed

lemma netStep_ok:
  assumes "pageOk p"
  shows "pageOk (netStep env reads exts now e p)"
proof -
  let ?q = "netStep env reads exts now e p" and ?c = "lpSse p"
  note parts = netStep_parts [OF assms, of env reads exts now e]
  have ok: "bridged p" "holds ?c \<le> 1" "timersOk ?c" using assms unfolding pageOk_def by blast+
  have h: "holds (lpSse ?q) \<le> 1" "timersOk (lpSse ?q)"
    using sseStep_holds [OF ok(3), of exts e] ok(2) by (simp_all add: parts(1))
  have b: "brJob (lpBridge p) = set_option (brSource (lpBridge p))" "brProgress (lpBridge p) = set_option (brSource (lpBridge p))"
    "stateOf ?c n = Open \<Longrightarrow> brSource (lpBridge p) = Some n" for n
    using ok(1) unfolding bridged_def by blast+
  have st: "stateOf (lpSse ?q) m = Open \<Longrightarrow> stateOf ?c m = Open \<or> (e = Opened m \<and> live ?c m)" for m
    using step_calls [of ?c exts e] unfolding parts(1) by blast
  have "bridged ?q"
  proof (cases "\<exists>n. e = Opened n \<and> live ?c n")
    case True
    then obtain n where n: "e = Opened n" "live ?c n" by blast
    have br: "lpBridge ?q = attachSSE (Some n) (lpBridge p)" using n parts(2) by simp
    have only: "m = n" if "stateOf (lpSse ?q) m = Open" for m
    proof -
      have "live ?c m" using st [OF that] by auto
      then show ?thesis using one_live [OF ok(2)] n(2) by blast
    qed
    show ?thesis using attach_sets [OF b(1,2), of n] unfolding bridged_def br by (auto dest: only)
  next
    case False
    then have br: "lpBridge ?q = lpBridge p" by (auto simp: parts(2) split: sseEvent.split)
    have "stateOf ?c m = Open" if "stateOf (lpSse ?q) m = Open" for m using st [OF that] False by blast
    then show ?thesis using b unfolding bridged_def br by blast
  qed
  with h show ?thesis unfolding pageOk_def by blast
qed

lemma liveStep_parts:
  assumes "pageOk p"
  shows "pageOk (liveStep env reads exts (now, e) p)
    \<and> lpSse (liveStep env reads exts (now, e) p) = clientStep exts e (lpSse p)
    \<and> lpBoard (liveStep env reads exts (now, e) p) =
        foldl (\<lambda>b a. boardStep env now a b) (lpBoard p) (promised reads (lpSse p) e)"
proof (cases e)
  case (Net a)
  then show ?thesis
    using netStep_ok [OF assms] netStep_parts [OF assms] by (simp add: liveStep_def clientStep_def)
next
  case (Own a)
  then show ?thesis using assms
    by (simp add: liveStep_def clientStep_def promised_def pageOk_def bridged_def del: boardStep.simps)
qed

lemma boardRun_append: "boardRun env (xs @ ys) b = boardRun env ys (boardRun env xs b)"
  by (simp add: boardRun_def)

lemma boardRun_now: "boardRun env (map (\<lambda>a. (now, a)) as) b = foldl (\<lambda>b a. boardStep env now a b) b as"
  by (induction "as" arbitrary: b) (simp_all add: boardRun_def del: boardStep.simps)

lemma live_refinement:
  "pageOk p \<Longrightarrow> pageOk (foldl (\<lambda>p ne. liveStep env reads exts ne p) p es) \<and>
    lpBoard (foldl (\<lambda>p ne. liveStep env reads exts ne p) p es) = boardRun env (boardTrace reads exts (lpSse p) es) (lpBoard p)"
proof (induction es arbitrary: p)
  case Nil
  then show ?case by (simp add: boardRun_def)
next
  case (Cons ne es)
  obtain now e where ne: "ne = (now, e)" by (cases ne)
  note step = liveStep_parts [OF Cons.prems, of env reads exts now e]
  then show ?case
    using Cons.IH [of "liveStep env reads exts (now, e) p"] by (simp add: ne boardRun_append boardRun_now)
qed

lemma liveInit_ok: "pageOk (liveInit url elts b)"
proof -
  have "stateOf (sseInit url [] False elts) n \<noteq> Open" for n
  proof -
    have "quiet \<lparr>ecInBody = True, ecConnect = url, ecClose = [], ecSource = None, ecSources = [], ecTimers = [],
        ecElts = elts, ecSelf = False, ecLog = []\<rparr> (sseInit url [] False elts)"
      unfolding sseInit_def by (rule quiet_trans [OF quiet_connect quiet_registerAll])
    then show ?thesis by (auto simp: quiet_def stateOf_def sourceAt_def)
  qed
  then show ?thesis
    using sseInit_holds [of url "[]" False elts] by (simp add: pageOk_def bridged_def liveInit_def bridgeInit_def)
qed

lemma board_of_run:
  "lpBoard (liveRun env reads exts url elts b es) = boardRun env (boardTrace reads exts (sseInit url [] False elts) es) b"
  using live_refinement [OF liveInit_ok] by (simp add: liveRun_def liveInit_def)

section \<open>Properties\<close>

text \<open>C36: The page keeps the list up to date through every loss of the connection: whatever the network, the
  server and the page do and in whatever order, the state of the board is the one that its own events,
  one failure for each connection that fails, and the job and progress messages of the open sources give
  when they are handled once each, in order. No source that the page has given up reaches the board,
  and no message of the current one is missed.\<close>

theorem live_refines_board:
  "lpBoard (liveRun env reads exts url elts b es) =
     boardRun env (boardTrace reads exts (sseInit url [] False elts) es) b"
  by (rule board_of_run)

text \<open>What holds of the board under all its events holds of it on the connected page.\<close>

lemma live_one_optimistic_row:
  assumes "optimisticCount b \<le> 1"
  shows "optimisticCount (lpBoard (liveRun env reads exts url elts b es)) \<le> 1"
  unfolding board_of_run by (rule boardRun_count [OF assms])

text \<open>On a page with an open source the bridge listens on that source and on no other.\<close>

lemma bridge_follows:
  assumes "stateOf (lpSse (liveRun env reads exts url elts b es)) n = Open"
  shows "brJob (lpBridge (liveRun env reads exts url elts b es)) = {n} \<and>
    brProgress (lpBridge (liveRun env reads exts url elts b es)) = {n}"
  using live_refinement [OF liveInit_ok, of env reads exts url elts b es] assms
  unfolding pageOk_def bridged_def liveRun_def by simp

text \<open>
  The health monitor counts the silence between messages about jobs, and the stream has nothing to say
  while no job changes: its pings are comments, which no listener sees. So a page whose connection is
  open and has never failed says that it is lost once ten seconds have passed without such a message.
\<close>

theorem idle_connection_banner:
  assumes "bdMon b = monInit 0 True (Some Live)"
  shows "stateOf (lpSse (liveRun env reads exts ''/s'' [] b [(0, Net (Opened 0)), (10001, Own (ConnectionEvent (Tick 0)))])) 0 = Open
    \<and> mnBanner (bdMon (lpBoard (liveRun env reads exts ''/s'' [] b
        [(0, Net (Opened 0)), (10001, Own (ConnectionEvent (Tick 0)))]))) = Some True"
proof -
  have m: "boardTrace reads exts (sseInit ''/s'' [] False []) [(0, Net (Opened 0)), (10001, Own (ConnectionEvent (Tick 0)))]
      = [(10001, ConnectionEvent (Tick 0))]" by (simp add: promised_def)
  have "mnBanner (bdMon (boardRun env [(10001, ConnectionEvent (Tick 0))] b)) = Some True"
    by (simp add: boardRun_def assms monInit_def monitor_defs Let_def)
  moreover have "lpSse (liveRun env reads exts ''/s'' [] b [(0, Net (Opened 0)), (10001, Own (ConnectionEvent (Tick 0)))])
      = sseStep exts (Opened 0) (sseInit ''/s'' [] False [])"
    using liveStep_parts [OF liveInit_ok, of env reads exts 0 "Net (Opened 0)" "''/s''" "[]" b]
    by (simp add: liveRun_def liveStep_def clientStep_def liveInit_def)
  moreover have "stateOf (sseStep (\<lambda>_. []) (Opened 0) (sseInit ''/s'' [] False [])) 0 = Open" by code_simp
  moreover have "sseStep exts (Opened 0) (sseInit ''/s'' [] False []) = sseStep (\<lambda>_. []) (Opened 0) (sseInit ''/s'' [] False [])"
    by simp
  ultimately show ?thesis unfolding board_of_run m by simp
qed

end
