(* ===== verification/Dom.thy ===== *)
theory Dom
  imports Prelude JsString
begin

text \<open>
  The browser's tree of elements as far as the page's scripts build and search it: attributes, inline
  styles, text, selectors that pick the first match in document order, and the operations that replace a
  node or put one beside it. Node types other than elements and texts do not occur.
\<close>

section \<open>Trees\<close>

datatype dom =
    TextNode string
  | Element string "(string, string) omap" "(string, string) omap" "dom list"

definition createElement :: "string \<Rightarrow> dom" where
  "createElement tag = Element tag [] [] []"

fun setAttribute :: "string \<Rightarrow> string \<Rightarrow> dom \<Rightarrow> dom" where
  "setAttribute k v (Element t a st ks) = Element t (om_set k v a) st ks"
| "setAttribute k v (TextNode s) = TextNode s"

fun removeAttribute :: "string \<Rightarrow> dom \<Rightarrow> dom" where
  "removeAttribute k (Element t a st ks) = Element t (om_del k a) st ks"
| "removeAttribute k (TextNode s) = TextNode s"

fun getAttribute :: "string \<Rightarrow> dom \<Rightarrow> string option" where
  "getAttribute k (Element t a st ks) = om_get a k"
| "getAttribute k (TextNode s) = None"

fun setStyle :: "string \<Rightarrow> string \<Rightarrow> dom \<Rightarrow> dom" where
  "setStyle k v (Element t a st ks) = Element t a (om_set k v st) ks"
| "setStyle k v (TextNode s) = TextNode s"

fun getStyle :: "string \<Rightarrow> dom \<Rightarrow> string option" where
  "getStyle k (Element t a st ks) = om_get st k"
| "getStyle k (TextNode s) = None"

fun appendChild :: "dom \<Rightarrow> dom \<Rightarrow> dom" where
  "appendChild c (Element t a st ks) = Element t a st (ks @ [c])"
| "appendChild c (TextNode s) = TextNode s"

text \<open>The setter of \<open>textContent\<close> leaves at most one text node; the getter joins the texts below.\<close>

fun setText :: "string \<Rightarrow> dom \<Rightarrow> dom" where
  "setText s (Element t a st ks) = Element t a st (if s = [] then [] else [TextNode s])"
| "setText s (TextNode u) = TextNode s"

primrec textContent :: "dom \<Rightarrow> string" where
  "textContent (TextNode s) = s"
| "textContent (Element t a st ks) = concat (map textContent ks)"

fun tagOf :: "dom \<Rightarrow> string option" where
  "tagOf (Element t a st ks) = Some t"
| "tagOf (TextNode s) = None"

fun childNodes :: "dom \<Rightarrow> dom list" where
  "childNodes (Element t a st ks) = ks"
| "childNodes (TextNode s) = []"

section \<open>Classes\<close>

fun wordsOf :: "string \<Rightarrow> string \<Rightarrow> string list" where
  "wordsOf acc [] = (if acc = [] then [] else [rev acc])"
| "wordsOf acc (c # s) = (if isSpace c then (if acc = [] then [] else [rev acc]) @ wordsOf [] s else wordsOf (c # acc) s)"

definition classWords :: "string \<Rightarrow> string list" where
  "classWords s = wordsOf [] s"

definition classList :: "dom \<Rightarrow> string list" where
  "classList e = (case getAttribute ''class'' e of None \<Rightarrow> [] | Some s \<Rightarrow> classWords s)"

definition hasClass :: "string \<Rightarrow> dom \<Rightarrow> bool" where
  "hasClass c e \<longleftrightarrow> c \<in> set (classList e)"

definition addClass :: "string \<Rightarrow> dom \<Rightarrow> dom" where
  "addClass c e = (if hasClass c e then e
     else setAttribute ''class'' (joinWith '' '' (classList e @ [c])) e)"

definition removeClass :: "string \<Rightarrow> dom \<Rightarrow> dom" where
  "removeClass c e = (if hasClass c e
     then setAttribute ''class'' (joinWith '' '' (filter (\<lambda>d. d \<noteq> c) (classList e))) e else e)"

section \<open>Selecting\<close>

text \<open>A node and everything below it in document order.\<close>

primrec nodes :: "dom \<Rightarrow> dom list" where
  "nodes (TextNode s) = [TextNode s]"
| "nodes (Element t a st ks) = Element t a st ks # concat (map nodes ks)"

definition descendants :: "dom \<Rightarrow> dom list" where
  "descendants e = concat (map nodes (childNodes e))"

definition querySelector :: "(dom \<Rightarrow> bool) \<Rightarrow> dom \<Rightarrow> dom option" where
  "querySelector P e = find P (descendants e)"

text \<open>
  The first descendant that a selector finds is replaced by some nodes: by a changed copy of itself, by
  another node, by itself with a new sibling. \<open>None\<close>: the selector finds nothing.
\<close>

primrec spliceNode :: "(dom \<Rightarrow> bool) \<Rightarrow> (dom \<Rightarrow> dom list) \<Rightarrow> dom \<Rightarrow> dom list option"
  and spliceNodes :: "(dom \<Rightarrow> bool) \<Rightarrow> (dom \<Rightarrow> dom list) \<Rightarrow> dom list \<Rightarrow> dom list option" where
  "spliceNode P f (TextNode s) = (if P (TextNode s) then Some (f (TextNode s)) else None)"
| "spliceNode P f (Element t a st ks) = (if P (Element t a st ks) then Some (f (Element t a st ks))
     else map_option (\<lambda>js. [Element t a st js]) (spliceNodes P f ks))"
| "spliceNodes P f [] = None"
| "spliceNodes P f (k # ks) = (case spliceNode P f k of Some js \<Rightarrow> Some (js @ ks)
     | None \<Rightarrow> map_option (\<lambda>js. k # js) (spliceNodes P f ks))"

fun splice :: "(dom \<Rightarrow> bool) \<Rightarrow> (dom \<Rightarrow> dom list) \<Rightarrow> dom \<Rightarrow> dom option" where
  "splice P f (Element t a st ks) = map_option (Element t a st) (spliceNodes P f ks)"
| "splice P f (TextNode s) = None"

definition onFirst :: "(dom \<Rightarrow> bool) \<Rightarrow> (dom \<Rightarrow> dom) \<Rightarrow> dom \<Rightarrow> dom" where
  "onFirst P f e = (case splice P (\<lambda>x. [f x]) e of None \<Rightarrow> e | Some d \<Rightarrow> d)"

text \<open>The same for the last descendant in document order.\<close>

primrec lastNode :: "(dom \<Rightarrow> bool) \<Rightarrow> (dom \<Rightarrow> dom) \<Rightarrow> dom \<Rightarrow> dom option"
  and lastNodes :: "(dom \<Rightarrow> bool) \<Rightarrow> (dom \<Rightarrow> dom) \<Rightarrow> dom list \<Rightarrow> dom list option" where
  "lastNode P f (TextNode s) = (if P (TextNode s) then Some (f (TextNode s)) else None)"
| "lastNode P f (Element t a st ks) = (case lastNodes P f ks of Some js \<Rightarrow> Some (Element t a st js)
     | None \<Rightarrow> (if P (Element t a st ks) then Some (f (Element t a st ks)) else None))"
| "lastNodes P f [] = None"
| "lastNodes P f (k # ks) = (case lastNodes P f ks of Some js \<Rightarrow> Some (k # js)
     | None \<Rightarrow> map_option (\<lambda>j. j # ks) (lastNode P f k))"

fun onLast :: "(dom \<Rightarrow> bool) \<Rightarrow> (dom \<Rightarrow> dom) \<Rightarrow> dom \<Rightarrow> dom option" where
  "onLast P f (Element t a st ks) = map_option (Element t a st) (lastNodes P f ks)"
| "onLast P f (TextNode s) = None"

section \<open>Facts\<close>

text \<open>Replacing finds something exactly when selecting does.\<close>

lemma splice_find:
  "spliceNode P f e = None \<longleftrightarrow> find P (nodes e) = None"
  "spliceNodes P f ks = None \<longleftrightarrow> find P (concat (map nodes ks)) = None"
proof (induction e and ks rule: spliceNode.induct spliceNodes.induct)
  case (Cons_dom k ks)
  then show ?case by (auto simp: find_None_iff split: option.splits)
qed (auto simp: find_None_iff)

lemma splice_iff: "splice P f e = None \<longleftrightarrow> querySelector P e = None"
  by (cases e) (simp_all add: querySelector_def descendants_def splice_find)

lemma textContent_setText [simp]: "textContent (setText s e) = s"
  by (cases e) simp_all

text \<open>The words of a class attribute: a word without white space, then the rest.\<close>

lemma wordsOf_word:
  "\<forall>c\<in>set w. \<not> isSpace c \<Longrightarrow> wordsOf acc w = (if acc = [] \<and> w = [] then [] else [rev acc @ w])"
  by (induction w arbitrary: acc) auto

lemma wordsOf_append:
  "\<forall>c\<in>set w. \<not> isSpace c \<Longrightarrow> wordsOf acc (w @ CHR '' '' # s) =
     (if acc = [] \<and> w = [] then [] else [rev acc @ w]) @ wordsOf [] s"
proof (induction w arbitrary: acc)
  case Nil
  have "isSpace (CHR '' '')" by code_simp
  then show ?case by simp
qed simp

lemma classWords_single: "\<forall>c\<in>set w. \<not> isSpace c \<Longrightarrow> w \<noteq> [] \<Longrightarrow> classWords w = [w]"
  by (simp add: classWords_def wordsOf_word)

lemma classWords_Cons: "\<forall>c\<in>set w. \<not> isSpace c \<Longrightarrow> w \<noteq> [] \<Longrightarrow> classWords (w @ CHR '' '' # s) = w # classWords s"
  by (simp add: classWords_def wordsOf_append)

text \<open>Joining words and splitting them again.\<close>

lemma classWords_join:
  "\<forall>w\<in>set ws. w \<noteq> [] \<and> (\<forall>c\<in>set w. \<not> isSpace c) \<Longrightarrow> classWords (joinWith '' '' ws) = ws"
proof (induction ws)
  case (Cons w ws)
  then show ?case by (cases ws) (simp_all add: classWords_single classWords_Cons)
qed (simp add: classWords_def)

end
