(* ===== verification/RowDom.thy ===== *)
theory RowDom
  imports Dom Dashboard
begin

text \<open>
  The row factory of \<open>dashboard.js\<close> on the browser's tree: how the element of a row is built, and how
  status messages and progress reports change it through the selectors they use. \<open>Rows\<close> describes the
  same operations on a record; the theorems show that the record is what the element displays, and that
  whatever a message contains, only the factory's own tags, attributes and addresses come into the page.
\<close>

section \<open>Building a row\<close>

definition createSvgIcon :: "string \<Rightarrow> string \<Rightarrow> dom" where
  "createSvgIcon iconId className =
     appendChild (setAttribute ''href'' (''/static/icons/sprite.svg#'' @ iconId) (createElement ''use''))
       (setAttribute ''aria-hidden'' ''true'' (setAttribute ''class'' className (createElement ''svg'')))"

definition statusBadgeDom :: "pageEnv \<Rightarrow> string option \<Rightarrow> dom" where
  "statusBadgeDom env status =
     (let normalized = normalizeStatus status;
          label = strOr (peKnown env (toLower normalized)) normalized
      in setText label (setAttribute ''class'' (''status-badge status-'' @ statusClassSuffix (Some normalized))
           (createElement ''span'')))"

definition setAll :: "(string \<times> string) list \<Rightarrow> dom \<Rightarrow> dom" where
  "setAll kvs e = foldl (\<lambda>d (k, v). setAttribute k v d) e kvs"

definition appendAll :: "dom list \<Rightarrow> dom \<Rightarrow> dom" where
  "appendAll cs e = foldl (\<lambda>d c. appendChild c d) e cs"

text \<open>The save link of the factory.\<close>

definition saveLinkDom :: "string \<Rightarrow> dom" where
  "saveLinkDom jobId = appendAll [createSvgIcon ''icon-download'' ''h-4 w-4'', setText ''Save'' (createElement ''span'')]
     (setAll [(''href'', jobPath jobId @ ''/file''), (''class'', ''download-btn text-xs''), (''download'', []),
        (''target'', ''_blank''), (''hx-boost'', ''false'')] (createElement ''a''))"

definition deleteButtonDom :: "string \<Rightarrow> dom" where
  "deleteButtonDom jobId = appendChild (createSvgIcon ''icon-trash'' ''h-5 w-5'')
     (setAll [(''type'', ''button''), (''class'', ''btn-danger''), (''hx-delete'', jobPath jobId),
        (''hx-target'', ''closest .download-row''), (''hx-swap'', ''outerHTML''),
        (''hx-confirm'', ''Delete this download?''), (''aria-label'', ''Delete download'')] (createElement ''button''))"

definition createRowDom :: "pageEnv \<Rightarrow> int \<Rightarrow> jobData \<Rightarrow> dom" where
  "createRowDom env now data =
     (let titleText = strOr (jdTitle data) (strOr (jdUrl data) []);
          createdAt = strOr (jdCreated data) [];
          status = normalizeStatus (jdStatus data);
          iconWrap = appendChild (createSvgIcon ''icon-video'' ''h-5 w-5 text-gray-400'')
            (setAttribute ''class'' ''h-10 w-10 rounded-xl bg-white/[0.04] border border-white/[0.06] flex items-center justify-center flex-shrink-0''
              (createElement ''div''));
          title = setText titleText (setAll [(''class'', ''url-text''), (''hx-disable'', []), (''title'', titleText)] (createElement ''p''));
          timestamp = setText (formatRelativeTime env now (jdCreated data))
            (setAll [(''class'', ''timestamp''), (''data-timestamp'', createdAt)] (createElement ''p''));
          textWrap = appendAll [title, timestamp] (createElement ''div'');
          mainWrap = appendAll [iconWrap, textWrap] (setAttribute ''class'' ''flex items-center gap-3'' (createElement ''div''));
          main = appendChild mainWrap (setAttribute ''class'' ''flex-1 min-w-0'' (createElement ''div''));
          actions = appendAll ([statusBadgeDom env (Some status)]
              @ (if toLower status = ''completed'' then [saveLinkDom (jdId data)] else []) @ [deleteButtonDom (jdId data)])
            (setAttribute ''class'' ''flex items-center gap-3'' (createElement ''div''))
      in appendAll [main, actions]
           (setAll [(''class'', ''download-row''), (''data-job-id'', jdId data)] (createElement ''div'')))"

section \<open>Changing a row\<close>

definition isDelete :: "dom \<Rightarrow> bool" where
  "isDelete e \<longleftrightarrow> tagOf e = Some ''button'' \<and> getAttribute ''hx-delete'' e \<noteq> None"

definition isContainer :: "dom \<Rightarrow> bool" where
  "isContainer e \<longleftrightarrow> hasClass ''flex'' e \<and> hasClass ''items-center'' e \<and> hasClass ''gap-3'' e"

text \<open>The visible title: the text of \<open>.url-text\<close>, or what the message says.\<close>

definition visibleTitleDom :: "dom \<Rightarrow> jobData \<Rightarrow> string" where
  "visibleTitleDom row data = trim (strOr (map_option textContent (querySelector (hasClass ''url-text'') row))
     (strOr (jdTitle data) (strOr (jdUrl data) [])))"

text \<open>
  The save link that an update makes; its content comes from a constant text of HTML. In the rows of the
  factory and of the server's template the delete button is a child of its container, as \<open>insertBefore\<close> needs.
\<close>

definition lateSaveDom :: "string \<Rightarrow> dom" where
  "lateSaveDom jobId =
     (case setAll [(''href'', jobPath jobId @ ''/file''), (''class'', ''download-btn text-xs''), (''download'', []),
        (''target'', ''_blank''), (''hx-boost'', ''false'')] (createElement ''a'') of
        Element t a st ks \<Rightarrow> setStyle ''display'' ''inline-flex'' (Element t a st
          [Element ''svg'' [(''class'', ''h-4 w-4''), (''aria-hidden'', ''true'')] []
             [Element ''use'' [(''href'', ''/static/icons/sprite.svg#icon-download'')] [] []], TextNode '' Save''])
      | TextNode s \<Rightarrow> TextNode s)"

definition insertSave :: "dom \<Rightarrow> dom \<Rightarrow> dom" where
  "insertSave link c = (case splice isDelete (\<lambda>d. [link, d]) c of Some c1 \<Rightarrow> c1 | None \<Rightarrow> appendChild link c)"

definition updateBadgeDom :: "pageEnv \<Rightarrow> jobData \<Rightarrow> dom \<Rightarrow> dom \<times> bool" where
  "updateBadgeDom env data row = (case querySelector (hasClass ''status-badge'') row of None \<Rightarrow> (row, False)
     | Some b \<Rightarrow>
         (let old = toLower (trim (textContent b));
              changed = (old \<noteq> toLower (normalizeStatus (jdStatus data)));
              replacement = statusBadgeDom env (jdStatus data);
              replacement1 = (if changed then addClass ''status-changed'' replacement else replacement)
          in (onFirst (hasClass ''status-badge'') (\<lambda>_. replacement1) row, changed)))"

text \<open>
  \<open>updateDownloadRow\<close>; \<open>None\<close>: it throws, since the row has none of the containers the link is put into.
\<close>

definition updateRowDom :: "pageEnv \<Rightarrow> int \<Rightarrow> jobData \<Rightarrow> dom \<Rightarrow> (dom \<times> string option) option" where
  "updateRowDom env now data row =
     (case updateBadgeDom env data row of (row1, changed) \<Rightarrow>
        (let nextStatus = normalizeStatus (jdStatus data);
             visible = strOr (map_option (\<lambda>b. trim (textContent b)) (querySelector (hasClass ''status-badge'') row1)) nextStatus;
             title = visibleTitleDom row1 data;
             said = (if changed \<and> title \<noteq> [] then Some (title @ '' - '' @ visible) else None);
             row2 = (if strOr (jdUpdated data) [] = [] then row1
                     else onFirst (hasClass ''timestamp'') (setText (formatRelativeTime env now (jdUpdated data))) row1);
             present = (querySelector (hasClass ''download-btn'') row2 \<noteq> None)
         in if toLower nextStatus = ''completed'' then
              (if present then Some (onFirst (hasClass ''download-btn'') (setStyle ''display'' ''inline-flex'') row2, said)
               else map_option (\<lambda>d. (d, said)) (onLast isContainer (insertSave (lateSaveDom (jdId data))) row2))
            else Some (onFirst (hasClass ''download-btn'') (setStyle ''display'' ''none'') row2, said)))"

text \<open>The timer that ends the flash of a changed badge.\<close>

definition endFlash :: "dom \<Rightarrow> dom" where
  "endFlash row = onFirst (hasClass ''status-badge'') (removeClass ''status-changed'') row"

text \<open>Adopting the row shown at once: its id is set, its mark removed.\<close>

definition adoptDom :: "string \<Rightarrow> dom \<Rightarrow> dom" where
  "adoptDom i row = removeAttribute ''data-optimistic'' (setAttribute ''data-job-id'' i row)"

text \<open>
  The browser keeps the width a bar has when the text it is given is no length: a negative percentage, or
  a number that is not finite.
\<close>

definition validWidth :: "jsnum \<Rightarrow> bool" where
  "validWidth v = (case v of Fin x \<Rightarrow> 0 \<le> x | _ \<Rightarrow> False)"

definition progressWrap :: "bool \<Rightarrow> dom" where
  "progressWrap hasEta = Element ''div'' [(''class'', ''progress-container'')] []
     ([Element ''div'' [(''class'', ''progress-track'')] []
         [Element ''div'' [(''class'', ''progress-bar'')] [(''width'', ''0%'')] []]]
      @ (if hasEta then [Element ''span'' [(''class'', ''progress-eta'')] [] []] else []))"

definition updateProgressDom :: "(jsnum \<Rightarrow> string) \<Rightarrow> progressData \<Rightarrow> dom \<Rightarrow> dom" where
  "updateProgressDom showN p row =
     (let noBar = (querySelector (hasClass ''progress-bar'') row = None)
      in if noBar \<and> querySelector (hasClass ''status-badge'') row = None then row
         else
           (let row1 = (if noBar then (case splice (hasClass ''status-badge'') (\<lambda>b. [b, progressWrap (gpEta p \<noteq> None)]) row of
                          Some d \<Rightarrow> d | None \<Rightarrow> row) else row);
                row2 = (case gpPercent p of None \<Rightarrow> row1
                  | Some v \<Rightarrow> (let w = numMin v (Fin 100) in
                      if validWidth w then onFirst (hasClass ''progress-bar'') (setStyle ''width'' (showN w @ ''%'')) row1 else row1))
            in case gpEta p of None \<Rightarrow> row2
               | Some e \<Rightarrow> onFirst (hasClass ''progress-eta'') (setText (etaText e)) row2))"

section \<open>Facts: the shape of a row\<close>

text \<open>What varies in a row: the attributes of the element itself, and the parts below it.\<close>

record rowParts =
  rpRoot :: "(string, string) omap"
  rpHint :: string
  rpText :: string
  rpCreated :: string
  rpTime :: string
  rpWords :: "string list"
  rpLabel :: string
  rpBar :: "(string \<times> string option) option"
  rpSave :: "(string \<times> dom list \<times> (string, string) omap) option"
  rpDelete :: string

definition textOf :: "string \<Rightarrow> dom list" where
  "textOf s = (if s = [] then [] else [TextNode s])"

definition iconTree :: "string \<Rightarrow> string \<Rightarrow> dom" where
  "iconTree i c = Element ''svg'' [(''class'', c), (''aria-hidden'', ''true'')] []
     [Element ''use'' [(''href'', ''/static/icons/sprite.svg#'' @ i)] [] []]"

definition mainTree :: "rowParts \<Rightarrow> dom" where
  "mainTree p = Element ''div'' [(''class'', ''flex-1 min-w-0'')] []
     [Element ''div'' [(''class'', ''flex items-center gap-3'')] []
        [Element ''div'' [(''class'', ''h-10 w-10 rounded-xl bg-white/[0.04] border border-white/[0.06] flex items-center justify-center flex-shrink-0'')] []
           [iconTree ''icon-video'' ''h-5 w-5 text-gray-400''],
         Element ''div'' [] []
           [Element ''p'' [(''class'', ''url-text''), (''hx-disable'', []), (''title'', rpHint p)] [] (textOf (rpText p)),
            Element ''p'' [(''class'', ''timestamp''), (''data-timestamp'', rpCreated p)] [] (textOf (rpTime p))]]]"

definition badgeClass :: "string list \<Rightarrow> string" where
  "badgeClass ws = joinWith '' '' (''status-badge'' # ws)"

definition badgeTree :: "rowParts \<Rightarrow> dom" where
  "badgeTree p = Element ''span'' [(''class'', badgeClass (rpWords p))] []
     (textOf (rpLabel p))"

definition barTree :: "rowParts \<Rightarrow> dom list" where
  "barTree p = (case rpBar p of None \<Rightarrow> []
     | Some (w, e) \<Rightarrow> [Element ''div'' [(''class'', ''progress-container'')] []
         ([Element ''div'' [(''class'', ''progress-track'')] []
             [Element ''div'' [(''class'', ''progress-bar'')] [(''width'', w)] []]]
          @ (case e of None \<Rightarrow> [] | Some t \<Rightarrow> [Element ''span'' [(''class'', ''progress-eta'')] [] (textOf t)]))])"

definition saveTree :: "rowParts \<Rightarrow> dom list" where
  "saveTree p = (case rpSave p of None \<Rightarrow> []
     | Some (h, ks, st) \<Rightarrow> [Element ''a'' [(''href'', h), (''class'', ''download-btn text-xs''), (''download'', []),
         (''target'', ''_blank''), (''hx-boost'', ''false'')] st ks])"

definition deleteTree :: "rowParts \<Rightarrow> dom" where
  "deleteTree p = Element ''button'' [(''type'', ''button''), (''class'', ''btn-danger''), (''hx-delete'', rpDelete p),
     (''hx-target'', ''closest .download-row''), (''hx-swap'', ''outerHTML''), (''hx-confirm'', ''Delete this download?''),
     (''aria-label'', ''Delete download'')] [] [iconTree ''icon-trash'' ''h-5 w-5'']"

definition actionsTree :: "rowParts \<Rightarrow> dom" where
  "actionsTree p = Element ''div'' [(''class'', ''flex items-center gap-3'')] []
     (badgeTree p # barTree p @ saveTree p @ [deleteTree p])"

definition rowTree :: "rowParts \<Rightarrow> dom" where
  "rowTree p = Element ''div'' (rpRoot p) [] [mainTree p, actionsTree p]"

text \<open>The two contents a save link has.\<close>

definition saveKids :: "dom list set" where
  "saveKids = {[iconTree ''icon-download'' ''h-4 w-4'', Element ''span'' [] [] [TextNode ''Save'']],
     [iconTree ''icon-download'' ''h-4 w-4'', TextNode '' Save'']}"

definition statusWord :: "string \<Rightarrow> bool" where
  "statusWord w \<longleftrightarrow> startsWith w ''status-'' \<and> (\<forall>c\<in>set w. \<not> isSpace c)"

definition partsOk :: "rowParts \<Rightarrow> bool" where
  "partsOk p \<longleftrightarrow> (\<forall>w\<in>set (rpWords p). statusWord w) \<and> (case rpSave p of None \<Rightarrow> True | Some (h, ks, st) \<Rightarrow> ks \<in> saveKids)"

lemmas tree_defs = mainTree_def actionsTree_def badgeTree_def barTree_def saveTree_def deleteTree_def iconTree_def
  textOf_def rowTree_def

text \<open>The class attributes of the factory, as lists of words.\<close>

lemma rowClasses [simp]:
  "classWords ''flex-1 min-w-0'' = [''flex-1'', ''min-w-0'']"
  "classWords ''flex items-center gap-3'' = [''flex'', ''items-center'', ''gap-3'']"
  "classWords ''h-10 w-10 rounded-xl bg-white/[0.04] border border-white/[0.06] flex items-center justify-center flex-shrink-0''
     = [''h-10'', ''w-10'', ''rounded-xl'', ''bg-white/[0.04]'', ''border'', ''border-white/[0.06]'', ''flex'', ''items-center'',
        ''justify-center'', ''flex-shrink-0'']"
  "classWords ''h-5 w-5 text-gray-400'' = [''h-5'', ''w-5'', ''text-gray-400'']"
  "classWords ''url-text'' = [''url-text'']" "classWords ''timestamp'' = [''timestamp'']"
  "classWords ''download-btn text-xs'' = [''download-btn'', ''text-xs'']" "classWords ''btn-danger'' = [''btn-danger'']"
  "classWords ''h-5 w-5'' = [''h-5'', ''w-5'']" "classWords ''h-4 w-4'' = [''h-4'', ''w-4'']"
  "classWords ''progress-container'' = [''progress-container'']" "classWords ''progress-track'' = [''progress-track'']"
  "classWords ''progress-bar'' = [''progress-bar'']" "classWords ''progress-eta'' = [''progress-eta'']"
  "classWords ''download-row'' = [''download-row'']"
  by code_simp+

lemma hasClass_Element [simp]:
  "hasClass c (Element t a st ks) \<longleftrightarrow> (case om_get a ''class'' of None \<Rightarrow> False | Some s \<Rightarrow> c \<in> set (classWords s))"
  "\<not> hasClass c (TextNode s)"
  by (simp_all add: hasClass_def classList_def split: option.split)

lemma statusWord_not [simp]:
  "\<not> statusWord ''url-text''" "\<not> statusWord ''timestamp''" "\<not> statusWord ''download-btn''" "\<not> statusWord ''progress-bar''"
  "\<not> statusWord ''progress-eta''" "\<not> statusWord ''flex''" "\<not> statusWord []"
  by (simp_all add: statusWord_def startsWith_Cons startsWith_Nil_Cons)

lemma badgeClass_words:
  assumes "\<forall>w\<in>set ws. statusWord w"
  shows "classWords (badgeClass ws) = ''status-badge'' # ws"
proof -
  have "\<forall>c\<in>set ''status-badge''. \<not> isSpace c" by code_simp
  then show ?thesis unfolding badgeClass_def using assms statusWord_not(7)
    by (intro classWords_join) (auto simp: statusWord_def simp del: statusWord_not)
qed

lemma badge_hasClass:
  assumes "partsOk p"
  shows "hasClass ''status-badge'' (badgeTree p)" "\<not> hasClass ''url-text'' (badgeTree p)" "\<not> hasClass ''timestamp'' (badgeTree p)"
    "\<not> hasClass ''download-btn'' (badgeTree p)" "\<not> hasClass ''progress-bar'' (badgeTree p)"
    "\<not> hasClass ''progress-eta'' (badgeTree p)" "\<not> hasClass ''flex'' (badgeTree p)"
  using assms badgeClass_words [of "rpWords p"]
  by (auto simp: badgeTree_def partsOk_def dest: bspec)

lemma nodes_textOf [simp]: "concat (map nodes (textOf s)) = textOf s"
  by (simp add: textOf_def)

lemma find_textOf [simp]: "find (hasClass c) (textOf s) = None"
  by (simp add: textOf_def)

lemma splice_textOf [simp]: "spliceNodes (hasClass c) f (textOf s) = None"
  by (simp add: textOf_def)

lemma find_append [simp]: "find P (xs @ ys) = (case find P xs of None \<Rightarrow> find P ys | Some x \<Rightarrow> Some x)"
  by (induction xs) auto

lemma text_textOf [simp]: "concat (map textContent (textOf s)) = s"
  by (simp add: textOf_def)

lemma nodes_badge: "nodes (badgeTree p) = badgeTree p # textOf (rpLabel p)"
  by (simp add: badgeTree_def)


text \<open>What each selector finds in a row.\<close>

lemma badge_tag: "badgeTree p = Element ''span'' [(''class'', badgeClass (rpWords p))] [] (textOf (rpLabel p))"
  by (simp add: badgeTree_def)

lemmas part_defs = mainTree_def barTree_def saveTree_def deleteTree_def iconTree_def actionsTree_def rowTree_def

lemma descendants_row:
  "descendants (rowTree p) = nodes (mainTree p) @ actionsTree p # nodes (badgeTree p) @ concat (map nodes (barTree p))
     @ concat (map nodes (saveTree p)) @ nodes (deleteTree p)"
  by (simp add: descendants_def rowTree_def actionsTree_def)

lemma find_main [simp]:
  "find (hasClass ''status-badge'') (nodes (mainTree p)) = None"
  "find (hasClass ''download-btn'') (nodes (mainTree p)) = None"
  "find (hasClass ''progress-bar'') (nodes (mainTree p)) = None"
  "find (hasClass ''progress-eta'') (nodes (mainTree p)) = None"
  "find isDelete (nodes (mainTree p)) = None"
  "find (hasClass ''url-text'') (nodes (mainTree p)) =
     Some (Element ''p'' [(''class'', ''url-text''), (''hx-disable'', []), (''title'', rpHint p)] [] (textOf (rpText p)))"
  "find (hasClass ''timestamp'') (nodes (mainTree p)) =
     Some (Element ''p'' [(''class'', ''timestamp''), (''data-timestamp'', rpCreated p)] [] (textOf (rpTime p)))"
  by (simp_all add: mainTree_def iconTree_def) (simp add: isDelete_def textOf_def)

lemma actions_class [simp]:
  "\<not> hasClass ''status-badge'' (actionsTree p)" "\<not> hasClass ''download-btn'' (actionsTree p)"
  "\<not> hasClass ''progress-bar'' (actionsTree p)" "\<not> hasClass ''progress-eta'' (actionsTree p)" "\<not> isDelete (actionsTree p)"
  by (simp_all add: actionsTree_def isDelete_def)

lemma find_badge:
  assumes "partsOk p"
  shows "find (hasClass ''status-badge'') (nodes (badgeTree p)) = Some (badgeTree p)"
    "find (hasClass ''download-btn'') (nodes (badgeTree p)) = None" "find (hasClass ''progress-bar'') (nodes (badgeTree p)) = None"
    "find (hasClass ''progress-eta'') (nodes (badgeTree p)) = None" "find isDelete (nodes (badgeTree p)) = None"
  using badge_hasClass [OF assms] by (simp_all add: nodes_badge) (simp add: badgeTree_def isDelete_def textOf_def)

lemma find_bar [simp]:
  "find (hasClass ''download-btn'') (concat (map nodes (barTree p))) = None"
  "find isDelete (concat (map nodes (barTree p))) = None"
  "find (hasClass ''progress-bar'') (concat (map nodes (barTree p))) =
     map_option (\<lambda>(w, e). Element ''div'' [(''class'', ''progress-bar'')] [(''width'', w)] []) (rpBar p)"
  "find (hasClass ''progress-eta'') (concat (map nodes (barTree p))) =
     Option.bind (rpBar p) (\<lambda>(w, e). map_option (\<lambda>t. Element ''span'' [(''class'', ''progress-eta'')] [] (textOf t)) e)"
  by (auto simp: barTree_def split: option.split) (simp add: isDelete_def textOf_def)+

definition linkOf :: "string \<times> dom list \<times> (string, string) omap \<Rightarrow> dom" where
  "linkOf x = (case x of (h, ks, st) \<Rightarrow> Element ''a'' [(''href'', h), (''class'', ''download-btn text-xs''), (''download'', []),
     (''target'', ''_blank''), (''hx-boost'', ''false'')] st ks)"

lemma saveTree_link: "saveTree p = (case rpSave p of None \<Rightarrow> [] | Some x \<Rightarrow> [linkOf x])"
  by (simp add: saveTree_def linkOf_def split: option.split prod.split)

lemma find_save:
  assumes "partsOk p"
  shows "find (hasClass ''download-btn'') (concat (map nodes (saveTree p))) = map_option linkOf (rpSave p)"
    "find (hasClass ''progress-bar'') (concat (map nodes (saveTree p))) = None"
    "find (hasClass ''progress-eta'') (concat (map nodes (saveTree p))) = None"
    "find isDelete (concat (map nodes (saveTree p))) = None"
  using assms by (auto simp: saveTree_link linkOf_def partsOk_def saveKids_def iconTree_def isDelete_def split: option.splits)

lemma find_delete [simp]:
  "find (hasClass ''download-btn'') (nodes (deleteTree p)) = None" "find (hasClass ''progress-bar'') (nodes (deleteTree p)) = None"
  "find (hasClass ''progress-eta'') (nodes (deleteTree p)) = None" "find isDelete (nodes (deleteTree p)) = Some (deleteTree p)"
  by (simp_all add: deleteTree_def iconTree_def isDelete_def)

lemma row_queries:
  assumes "partsOk p"
  shows "querySelector (hasClass ''status-badge'') (rowTree p) = Some (badgeTree p)"
    "map_option textContent (querySelector (hasClass ''url-text'') (rowTree p)) = Some (rpText p)"
    "map_option textContent (querySelector (hasClass ''timestamp'') (rowTree p)) = Some (rpTime p)"
    "querySelector isDelete (rowTree p) = Some (deleteTree p)"
    "querySelector (hasClass ''download-btn'') (rowTree p) = map_option linkOf (rpSave p)"
    "querySelector (hasClass ''progress-bar'') (rowTree p) =
       map_option (\<lambda>(w, e). Element ''div'' [(''class'', ''progress-bar'')] [(''width'', w)] []) (rpBar p)"
    "querySelector (hasClass ''progress-eta'') (rowTree p) =
       Option.bind (rpBar p) (\<lambda>(w, e). map_option (\<lambda>t. Element ''span'' [(''class'', ''progress-eta'')] [] (textOf t)) e)"
  using find_badge [OF assms] find_save [OF assms]
  by (simp_all add: querySelector_def descendants_row split: option.split)

text \<open>Where each change lands.\<close>

lemma spliceNodes_append [simp]:
  "spliceNodes P f (xs @ ys) = (case spliceNodes P f xs of Some js \<Rightarrow> Some (js @ ys)
     | None \<Rightarrow> map_option (\<lambda>js. xs @ js) (spliceNodes P f ys))"
proof (induction xs)
  case Nil
  then show ?case by (cases "spliceNodes P f ys") simp_all
qed (auto split: option.split simp: option.map_comp o_def)

lemma splice_absent: "find P (nodes e) = None \<Longrightarrow> spliceNode P f e = None"
  "find P (concat (map nodes ks)) = None \<Longrightarrow> spliceNodes P f ks = None"
  by (simp_all add: splice_find)

lemma splice_badge:
  assumes "partsOk p"
  shows "splice (hasClass ''status-badge'') f (rowTree p) = Some (Element ''div'' (rpRoot p) [] [mainTree p,
    Element ''div'' [(''class'', ''flex items-center gap-3'')] [] (f (badgeTree p) @ barTree p @ saveTree p @ [deleteTree p])])"
proof -
  have "spliceNode (hasClass ''status-badge'') f (badgeTree p) = Some (f (badgeTree p))"
    using badge_hasClass(1) [OF assms] by (simp add: badgeTree_def)
  moreover have "spliceNode (hasClass ''status-badge'') f (mainTree p) = None" by (rule splice_absent) simp
  ultimately show ?thesis by (simp add: rowTree_def actionsTree_def)
qed

lemma splice_time:
  "splice (hasClass ''timestamp'') (\<lambda>e. [setText t e]) (rowTree p) = Some (rowTree (p\<lparr>rpTime := t\<rparr>))"
  by (simp add: rowTree_def mainTree_def iconTree_def actionsTree_def badgeTree_def barTree_def saveTree_def deleteTree_def)
    (simp add: textOf_def)

lemma splice_bar:
  assumes "partsOk p" "rpBar p = Some (w, e)"
  shows "splice (hasClass ''progress-bar'') (\<lambda>d. [setStyle ''width'' v d]) (rowTree p) = Some (rowTree (p\<lparr>rpBar := Some (v, e)\<rparr>))"
proof -
  have "spliceNode (hasClass ''progress-bar'') f (badgeTree p) = None" "spliceNode (hasClass ''progress-bar'') f (mainTree p) = None" for f
    using find_badge [OF assms(1)] by (simp_all add: splice_absent)
  then show ?thesis using assms(2)
    by (simp add: rowTree_def actionsTree_def barTree_def) (simp add: mainTree_def badgeTree_def saveTree_def deleteTree_def)
qed

lemma splice_eta:
  assumes "partsOk p" "rpBar p = Some (w, Some u)"
  shows "splice (hasClass ''progress-eta'') (\<lambda>d. [setText t d]) (rowTree p) = Some (rowTree (p\<lparr>rpBar := Some (w, Some t)\<rparr>))"
proof -
  have "spliceNode (hasClass ''progress-eta'') f (badgeTree p) = None" "spliceNode (hasClass ''progress-eta'') f (mainTree p) = None" for f
    using find_badge [OF assms(1)] by (simp_all add: splice_absent)
  then show ?thesis using assms(2)
    by (simp add: rowTree_def actionsTree_def barTree_def) (simp add: mainTree_def badgeTree_def saveTree_def deleteTree_def textOf_def)
qed

lemma splice_link:
  assumes "partsOk p" "rpSave p = Some (h, ks, st)"
  shows "splice (hasClass ''download-btn'') (\<lambda>d. [setStyle k v d]) (rowTree p) = Some (rowTree (p\<lparr>rpSave := Some (h, ks, om_set k v st)\<rparr>))"
proof -
  have "spliceNode (hasClass ''download-btn'') f (badgeTree p) = None" "spliceNode (hasClass ''download-btn'') f (mainTree p) = None"
    "spliceNodes (hasClass ''download-btn'') f (barTree p) = None" for f
    using find_badge [OF assms(1)] by (simp_all add: splice_absent)
  then show ?thesis using assms(2)
    by (simp add: rowTree_def actionsTree_def saveTree_def) (simp add: mainTree_def badgeTree_def barTree_def deleteTree_def)
qed

lemma last_absent:
  "find P (nodes e) = None \<Longrightarrow> lastNode P f e = None"
  "find P (concat (map nodes ks)) = None \<Longrightarrow> lastNodes P f ks = None"
proof (induction e and ks rule: lastNode.induct lastNodes.induct)
  case (Element t a st ks)
  then show ?case by (simp split: if_splits)
qed (auto split: option.splits if_splits)

lemma container_class: "isContainer e \<Longrightarrow> hasClass ''flex'' e"
  by (simp add: isContainer_def)

lemma no_container:
  assumes "partsOk p"
  shows "find isContainer (nodes (badgeTree p)) = None" "find isContainer (concat (map nodes (barTree p))) = None"
    "find isContainer (nodes (deleteTree p)) = None"
proof -
  have sub: "find (hasClass ''flex'') xs = None \<Longrightarrow> find isContainer xs = None" for xs
    using container_class by (auto simp: find_None_iff)
  have "find (hasClass ''flex'') (nodes (badgeTree p)) = None" using badge_hasClass(7) [OF assms] by (simp add: nodes_badge)
  moreover have "find (hasClass ''flex'') (concat (map nodes (barTree p))) = None"
    by (auto simp: barTree_def split: option.split)
  moreover have "find (hasClass ''flex'') (nodes (deleteTree p)) = None" by (simp add: deleteTree_def iconTree_def)
  ultimately show "find isContainer (nodes (badgeTree p)) = None" "find isContainer (concat (map nodes (barTree p))) = None"
    "find isContainer (nodes (deleteTree p)) = None" using sub by simp_all
qed

lemma insert_link:
  assumes "partsOk p" "rpSave p = None"
  shows "onLast isContainer (insertSave (linkOf x)) (rowTree p) = Some (rowTree (p\<lparr>rpSave := Some x\<rparr>))"
proof -
  let ?ks = "badgeTree p # barTree p @ saveTree p @ [deleteTree p]"
  have ks: "lastNodes isContainer f ?ks = None" for f
    using no_container [OF assms(1)] assms(2) by (intro last_absent) (simp add: saveTree_def)
  have c: "isContainer (actionsTree p)" by (simp add: actionsTree_def isContainer_def)
  have d: "spliceNode isDelete f (deleteTree p) = Some (f (deleteTree p))" for f
    by (simp add: deleteTree_def isDelete_def)
  have b: "spliceNode isDelete f (badgeTree p) = None" "spliceNodes isDelete f (barTree p) = None" for f
    using find_badge(5) [OF assms(1)] find_bar(2) by (simp_all add: splice_absent)
  have "splice isDelete (\<lambda>e. [linkOf x, e]) (actionsTree p) = Some (actionsTree (p\<lparr>rpSave := Some x\<rparr>))"
    using b d assms(2) by (simp add: actionsTree_def saveTree_link) (simp add: badgeTree_def barTree_def deleteTree_def)
  then have i: "insertSave (linkOf x) (actionsTree p) = actionsTree (p\<lparr>rpSave := Some x\<rparr>)" by (simp add: insertSave_def)
  have "lastNode isContainer f (actionsTree p) = Some (f (actionsTree p))" for f
    using ks c by (simp add: actionsTree_def)
  then show ?thesis using i by (simp add: rowTree_def) (simp add: mainTree_def)
qed

text \<open>The operations on a row in its shape.\<close>

lemma setAttribute_Nil [simp]: "setAttribute k v (createElement t) = Element t [(k, v)] [] []"
  by (simp add: createElement_def)

lemma icon_eq: "createSvgIcon i c = iconTree i c"
  by (simp add: createSvgIcon_def iconTree_def createElement_def)

lemma badge_eq:
  "statusBadgeDom env status = badgeTree (p\<lparr>rpWords := [''status-'' @ bgSuffix (createStatusBadge env status)],
     rpLabel := bgLabel (createStatusBadge env status)\<rparr>)"
  by (simp add: statusBadgeDom_def createStatusBadge_def badgeTree_def badgeClass_def Let_def textOf_def)

lemma suffix_word: "statusWord (''status-'' @ bgSuffix (createStatusBadge env status))"
proof -
  have x: "isSuffix (bgSuffix (createStatusBadge env status))"
    by (simp add: createStatusBadge_def Let_def statusClassSuffix_slug)
  have dash: "\<not> isSpace (CHR ''-'')" by code_simp
  have "\<forall>c\<in>set (bgSuffix (createStatusBadge env status)). \<not> isSpace c"
  proof
    fix c assume "c \<in> set (bgSuffix (createStatusBadge env status))"
    then have "isSlug c \<or> c = CHR ''-''" using x slugShape_set unfolding isSuffix_def by blast
    then show "\<not> isSpace c" using slug_chars dash by blast
  qed
  moreover have "\<forall>c\<in>set ''status-''. \<not> isSpace c" by code_simp
  ultimately show ?thesis unfolding statusWord_def by (simp add: startsWith_append)
qed

definition createdParts :: "pageEnv \<Rightarrow> int \<Rightarrow> jobData \<Rightarrow> rowParts" where
  "createdParts env now data = (let r = createDownloadRow env now data in
     \<lparr>rpRoot = [(''class'', ''download-row''), (''data-job-id'', jdId data)], rpHint = rwText r, rpText = rwText r,
      rpCreated = strOr (jdCreated data) [], rpTime = rwTime r,
      rpWords = [''status-'' @ bgSuffix (createStatusBadge env (Some (normalizeStatus (jdStatus data))))],
      rpLabel = bgLabel (createStatusBadge env (Some (normalizeStatus (jdStatus data)))), rpBar = None,
      rpSave = map_option (\<lambda>x. (fst x, [iconTree ''icon-download'' ''h-4 w-4'', Element ''span'' [] [] [TextNode ''Save'']], [])) (rwSave r),
      rpDelete = rwDelete r\<rparr>)"

lemma create_eq: "createRowDom env now data = rowTree (createdParts env now data)"
proof -
  have b: "statusBadgeDom env st = Element ''span'' [(''class'', badgeClass [''status-'' @ bgSuffix (createStatusBadge env st)])] []
      (textOf (bgLabel (createStatusBadge env st)))" for st
    using badge_eq [of env st] by (simp add: badgeTree_def)
  show ?thesis
    by (simp add: createRowDom_def createdParts_def createDownloadRow_def rowTree_def mainTree_def actionsTree_def barTree_def
        saveTree_link linkOf_def deleteTree_def badgeTree_def b icon_eq setAll_def appendAll_def saveLinkDom_def deleteButtonDom_def
        createElement_def Let_def textOf_def)
qed

section \<open>A row through its life\<close>

datatype rowOp =
    UpdateOp int jobData
  | ProgressOp progressData
  | FlashEnds
  | MarkOptimistic
  | PlaceOp string
  | FadeIn
  | AdoptOp string

text \<open>An operation on the element, and the announcement it makes.\<close>

fun opDom :: "pageEnv \<Rightarrow> (jsnum \<Rightarrow> string) \<Rightarrow> rowOp \<Rightarrow> dom \<Rightarrow> (dom \<times> string option) option" where
  "opDom env showN (UpdateOp now data) d = updateRowDom env now data d"
| "opDom env showN (ProgressOp p) d = Some (updateProgressDom showN p d, None)"
| "opDom env showN FlashEnds d = Some (endFlash d, None)"
| "opDom env showN MarkOptimistic d = Some (setAttribute ''data-optimistic'' ''true'' d, None)"
| "opDom env showN (PlaceOp k) d = Some (setAttribute ''data-sort-key'' k d, None)"
| "opDom env showN FadeIn d = Some (addClass ''fade-in'' d, None)"
| "opDom env showN (AdoptOp i) d = Some (adoptDom i d, None)"

text \<open>The same operation on the record of \<open>Rows\<close>.\<close>

fun opRow :: "pageEnv \<Rightarrow> rowOp \<Rightarrow> row \<Rightarrow> row \<times> string option" where
  "opRow env (UpdateOp now data) r = updateDownloadRow env now r data"
| "opRow env (ProgressOp p) r = (updateDownloadProgress r p, None)"
| "opRow env FlashEnds r = (r, None)"
| "opRow env MarkOptimistic r = (r\<lparr>rwOptimistic := True\<rparr>, None)"
| "opRow env (PlaceOp k) r = (r, None)"
| "opRow env FadeIn r = (r, None)"
| "opRow env (AdoptOp i) r = (adopt i r, None)"

fun runDom :: "pageEnv \<Rightarrow> (jsnum \<Rightarrow> string) \<Rightarrow> rowOp list \<Rightarrow> dom \<Rightarrow> (dom \<times> string option list) option" where
  "runDom env showN [] d = Some (d, [])"
| "runDom env showN (e # es) d = (case opDom env showN e d of None \<Rightarrow> None
     | Some (d1, said) \<Rightarrow> map_option (\<lambda>(d2, says). (d2, said # says)) (runDom env showN es d1))"

fun runRow :: "pageEnv \<Rightarrow> rowOp list \<Rightarrow> row \<Rightarrow> row \<times> string option list" where
  "runRow env [] r = (r, [])"
| "runRow env (e # es) r = (case opRow env e r of (r1, said) \<Rightarrow>
     (case runRow env es r1 of (r2, says) \<Rightarrow> (r2, said # says)))"

text \<open>What an element shows, read through the script's own selectors, is what the record says.\<close>

definition linkView :: "dom \<Rightarrow> string \<times> bool" where
  "linkView a = (case getAttribute ''href'' a of None \<Rightarrow> [] | Some h \<Rightarrow> h, getStyle ''display'' a \<noteq> Some ''none'')"

definition displays :: "(jsnum \<Rightarrow> string) \<Rightarrow> dom \<Rightarrow> row \<Rightarrow> bool" where
  "displays showN d r \<longleftrightarrow> getAttribute ''data-job-id'' d = rwJob r
     \<and> (getAttribute ''data-optimistic'' d = Some ''true'') = rwOptimistic r
     \<and> map_option textContent (querySelector (hasClass ''url-text'') d) = Some (rwText r)
     \<and> map_option textContent (querySelector (hasClass ''timestamp'') d) = Some (rwTime r)
     \<and> map_option textContent (querySelector (hasClass ''status-badge'') d) = map_option bgLabel (rwBadge r)
     \<and> map_option linkView (querySelector (hasClass ''download-btn'') d) = rwSave r
     \<and> map_option (getAttribute ''hx-delete'') (querySelector isDelete d) = Some (Some (rwDelete r))
     \<and> (querySelector (hasClass ''progress-bar'') d = None) = (rwBar r = None)
     \<and> (case rwBar r of None \<Rightarrow> True | Some v \<Rightarrow> if validWidth v
          then Option.bind (querySelector (hasClass ''progress-bar'') d) (getStyle ''width'') = Some (showN v @ ''%'') else True)
     \<and> map_option textContent (querySelector (hasClass ''progress-eta'') d) = rwEta r"

section \<open>Facts: the element follows the record\<close>

definition barShows :: "(jsnum \<Rightarrow> string) \<Rightarrow> (string \<times> string option) option \<Rightarrow> jsnum option \<Rightarrow> string option \<Rightarrow> bool" where
  "barShows showN bar v t \<longleftrightarrow> (case bar of None \<Rightarrow> v = None \<and> t = None
     | Some (w, e) \<Rightarrow> e = t \<and> (case v of None \<Rightarrow> False | Some x \<Rightarrow> validWidth x \<longrightarrow> w = showN x @ ''%''))"

definition renders :: "(jsnum \<Rightarrow> string) \<Rightarrow> rowParts \<Rightarrow> row \<Rightarrow> bool" where
  "renders showN p r \<longleftrightarrow> partsOk p \<and> om_get (rpRoot p) ''data-job-id'' = rwJob r
     \<and> (om_get (rpRoot p) ''data-optimistic'' = Some ''true'') = rwOptimistic r
     \<and> rpText p = rwText r \<and> rpTime p = rwTime r \<and> map_option bgLabel (rwBadge r) = Some (rpLabel p)
     \<and> map_option (\<lambda>(h, ks, st). (h, om_get st ''display'' \<noteq> Some ''none'')) (rpSave p) = rwSave r
     \<and> rpDelete p = rwDelete r
     \<and> barShows showN (rpBar p) (rwBar r) (rwEta r)"

lemma renders_displays:
  assumes "renders showN p r"
  shows "displays showN (rowTree p) r"
proof -
  have ok: "partsOk p" using assms by (simp add: renders_def)
  have b: "textContent (badgeTree p) = rpLabel p" by (simp add: badgeTree_def)
  have l: "linkView (linkOf x) = (case x of (h, ks, st) \<Rightarrow> (h, om_get st ''display'' \<noteq> Some ''none''))" for x
    by (simp add: linkView_def linkOf_def split: prod.split)
  have l': "(\<lambda>x. linkView (linkOf x)) = (\<lambda>(h, ks, st). (h, om_get st ''display'' \<noteq> Some ''none''))" by (simp add: fun_eq_iff l)
  have a: "getAttribute k (rowTree p) = om_get (rpRoot p) k" for k by (simp add: rowTree_def)
  have x: "getAttribute ''hx-delete'' (deleteTree p) = Some (rpDelete p)" by (simp add: deleteTree_def)
  show ?thesis using assms
    unfolding displays_def row_queries [OF ok] a
    by (auto simp: renders_def barShows_def b l' x option.map_comp o_def option.map_ident split: option.splits prod.splits)
qed

lemma renders_created: "renders showN (createdParts env now data) (createDownloadRow env now data)"
proof -
  have "partsOk (createdParts env now data)"
    using suffix_word by (auto simp: partsOk_def createdParts_def Let_def saveKids_def split: option.split)
  then show ?thesis
    by (simp add: renders_def barShows_def createdParts_def createDownloadRow_def Let_def option.map_comp o_def)
qed

lemma badge_classList: "partsOk p \<Longrightarrow> classList (badgeTree p) = ''status-badge'' # rpWords p"
  using badgeClass_words [of "rpWords p"] by (simp add: classList_def badgeTree_def partsOk_def)

lemma changed_word: "statusWord ''status-changed''"
  by code_simp

lemma addClass_badge:
  "partsOk p \<Longrightarrow> addClass ''status-changed'' (badgeTree p) =
     badgeTree (p\<lparr>rpWords := (if ''status-changed'' \<in> set (rpWords p) then rpWords p else rpWords p @ [''status-changed''])\<rparr>)"
  using badge_classList [of p]
  by (auto simp: addClass_def hasClass_def) (simp add: badgeTree_def badgeClass_def)

lemma removeClass_badge:
  "partsOk p \<Longrightarrow> removeClass ''status-changed'' (badgeTree p) =
     badgeTree (p\<lparr>rpWords := filter (\<lambda>w. w \<noteq> ''status-changed'') (rpWords p)\<rparr>)"
proof -
  assume ok: "partsOk p"
  have same: "filter (\<lambda>w. w \<noteq> ''status-changed'') ws = ws" if "''status-changed'' \<notin> set ws" for ws :: "string list"
    using that by (induction ws) auto
  show ?thesis using badge_classList [OF ok]
    by (auto simp: removeClass_def hasClass_def same) (simp_all add: badgeTree_def badgeClass_def same)
qed

lemma rowTree_badge:
  "badgeTree q = badgeTree (p\<lparr>rpWords := ws, rpLabel := l\<rparr>) \<Longrightarrow>
   Element ''div'' (rpRoot p) [] [mainTree p, Element ''div'' [(''class'', ''flex items-center gap-3'')] []
     ([badgeTree q] @ barTree p @ saveTree p @ [deleteTree p])] = rowTree (p\<lparr>rpWords := ws, rpLabel := l\<rparr>)"
  by (simp add: rowTree_def mainTree_def actionsTree_def barTree_def saveTree_def deleteTree_def)

text \<open>The words of the badge an update puts in.\<close>

definition newWords :: "pageEnv \<Rightarrow> jobData \<Rightarrow> bool \<Rightarrow> string list" where
  "newWords env data changed = (let w = ''status-'' @ bgSuffix (createStatusBadge env (jdStatus data))
     in if changed \<and> w \<noteq> ''status-changed'' then [w, ''status-changed''] else [w])"

lemma newWords_ok: "w \<in> set (newWords env data changed) \<Longrightarrow> statusWord w"
  using suffix_word changed_word by (auto simp: newWords_def Let_def split: if_splits)

lemma updateBadge_eq:
  assumes "partsOk p" "c = (toLower (trim (rpLabel p)) \<noteq> toLower (normalizeStatus (jdStatus data)))"
  shows "updateBadgeDom env data (rowTree p) =
    (rowTree (p\<lparr>rpWords := newWords env data c, rpLabel := bgLabel (createStatusBadge env (jdStatus data))\<rparr>), c)"
proof -
  let ?l = "bgLabel (createStatusBadge env (jdStatus data))" and ?w = "''status-'' @ bgSuffix (createStatusBadge env (jdStatus data))"
  let ?q = "p\<lparr>rpWords := [?w], rpLabel := ?l\<rparr>"
  have q: "partsOk ?q" using assms(1) suffix_word by (simp add: partsOk_def)
  have t: "textContent (badgeTree p) = rpLabel p" by (simp add: badgeTree_def)
  have new: "(if c then addClass ''status-changed'' (statusBadgeDom env (jdStatus data)) else statusBadgeDom env (jdStatus data))
      = badgeTree (p\<lparr>rpWords := newWords env data c, rpLabel := ?l\<rparr>)"
    using addClass_badge [OF q] unfolding badge_eq [of env "jdStatus data" p] newWords_def Let_def by (auto simp: badgeTree_def)
  show ?thesis
    unfolding updateBadgeDom_def row_queries(1) [OF assms(1)] option.case t assms(2) [symmetric] Let_def new
    by (simp add: onFirst_def splice_badge [OF assms(1)] rowTree_badge [simplified])
qed

lemma endFlash_eq:
  assumes "partsOk p"
  shows "endFlash (rowTree p) = rowTree (p\<lparr>rpWords := filter (\<lambda>w. w \<noteq> ''status-changed'') (rpWords p)\<rparr>)"
  using rowTree_badge [where ws = "filter (\<lambda>w. w \<noteq> ''status-changed'') (rpWords p)" and l = "rpLabel p" and p = p]
  by (simp add: endFlash_def onFirst_def splice_badge [OF assms] removeClass_badge [OF assms])

lemma onFirst_link:
  assumes "partsOk p"
  shows "onFirst (hasClass ''download-btn'') (setStyle k v) (rowTree p) =
    rowTree (p\<lparr>rpSave := map_option (\<lambda>(h, ks, st). (h, ks, om_set k v st)) (rpSave p)\<rparr>)"
proof (cases "rpSave p")
  case None
  then have "querySelector (hasClass ''download-btn'') (rowTree p) = None" using row_queries(5) [OF assms] by simp
  then have "splice (hasClass ''download-btn'') f (rowTree p) = None" for f by (simp add: splice_iff)
  moreover have "rowTree (p\<lparr>rpSave := None\<rparr>) = rowTree p" using None by (cases p) simp
  ultimately show ?thesis using None by (simp add: onFirst_def)
next
  case (Some x)
  then show ?thesis using splice_link [OF assms] by (cases x) (simp add: onFirst_def)
qed

lemma lateSave_eq:
  "lateSaveDom i = linkOf (jobPath i @ ''/file'', [iconTree ''icon-download'' ''h-4 w-4'', TextNode '' Save''], [(''display'', ''inline-flex'')])"
  by (simp add: lateSaveDom_def setAll_def linkOf_def iconTree_def)

text \<open>What an update makes of the save link.\<close>

definition saveParts :: "bool \<Rightarrow> string \<Rightarrow> rowParts \<Rightarrow> rowParts" where
  "saveParts done i p = p\<lparr>rpSave := (if done then Some (case rpSave p of
       Some (h, ks, st) \<Rightarrow> (h, ks, om_set ''display'' ''inline-flex'' st)
     | None \<Rightarrow> (jobPath i @ ''/file'', [iconTree ''icon-download'' ''h-4 w-4'', TextNode '' Save''], [(''display'', ''inline-flex'')]))
     else map_option (\<lambda>(h, ks, st). (h, ks, om_set ''display'' ''none'' st)) (rpSave p))\<rparr>"

definition saveRow :: "bool \<Rightarrow> string \<Rightarrow> row \<Rightarrow> row" where
  "saveRow done i r = r\<lparr>rwSave := (if done then Some (case rwSave r of Some (h, _) \<Rightarrow> (h, True) | None \<Rightarrow> (jobPath i @ ''/file'', True))
     else map_option (\<lambda>(h, _). (h, False)) (rwSave r))\<rparr>"

lemma save_step:
  assumes "partsOk p"
  shows "(if done then
      (if querySelector (hasClass ''download-btn'') (rowTree p) \<noteq> None
       then Some (onFirst (hasClass ''download-btn'') (setStyle ''display'' ''inline-flex'') (rowTree p), said)
       else map_option (\<lambda>d. (d, said)) (onLast isContainer (insertSave (lateSaveDom i)) (rowTree p)))
    else Some (onFirst (hasClass ''download-btn'') (setStyle ''display'' ''none'') (rowTree p), said))
    = Some (rowTree (saveParts done i p), said)"
  using insert_link [OF assms]
  by (cases "rpSave p") (auto simp: row_queries(5) [OF assms] onFirst_link [OF assms] lateSave_eq saveParts_def)

lemma renders_save: "renders showN p r \<Longrightarrow> renders showN (saveParts done i p) (saveRow done i r)"
proof (cases "rpSave p")
  case None
  moreover assume "renders showN p r"
  moreover from calculation have "rwSave r = None" by (auto simp: renders_def)
  ultimately show ?thesis by (simp add: renders_def partsOk_def saveParts_def saveRow_def saveKids_def)
next
  case (Some x)
  obtain h ks st where x: "x = (h, ks, st)" by (cases x) auto
  moreover assume sh: "renders showN p r"
  moreover from sh Some x have "rwSave r = Some (h, om_get st ''display'' \<noteq> Some ''none'')" by (simp add: renders_def)
  ultimately show ?thesis using Some by (simp add: renders_def partsOk_def saveParts_def saveRow_def)
qed

lemma renders_badge:
  assumes "renders showN p r" "\<forall>w\<in>set ws. statusWord w"
  shows "renders showN (p\<lparr>rpWords := ws, rpLabel := bgLabel b\<rparr>) (r\<lparr>rwBadge := Some b\<rparr>)"
  using assms by (simp add: renders_def partsOk_def)

lemma renders_time: "renders showN p r \<Longrightarrow> renders showN (p\<lparr>rpTime := t\<rparr>) (r\<lparr>rwTime := t\<rparr>)"
  by (simp add: renders_def partsOk_def)

text \<open>An update of a row in its shape.\<close>

definition flashes :: "jobData \<Rightarrow> rowParts \<Rightarrow> bool" where
  "flashes data p \<longleftrightarrow> toLower (trim (rpLabel p)) \<noteq> toLower (normalizeStatus (jdStatus data))"

definition badgedParts :: "pageEnv \<Rightarrow> jobData \<Rightarrow> rowParts \<Rightarrow> rowParts" where
  "badgedParts env data p = p\<lparr>rpWords := newWords env data (flashes data p), rpLabel := bgLabel (createStatusBadge env (jdStatus data))\<rparr>"

definition timedParts :: "pageEnv \<Rightarrow> int \<Rightarrow> jobData \<Rightarrow> rowParts \<Rightarrow> rowParts" where
  "timedParts env now data p = (if strOr (jdUpdated data) [] = [] then p else p\<lparr>rpTime := formatRelativeTime env now (jdUpdated data)\<rparr>)"

lemma parts_ok:
  assumes "partsOk p"
  shows "partsOk (badgedParts env data p)" "partsOk (timedParts env now data p)"
  using assms newWords_ok by (auto simp: partsOk_def badgedParts_def timedParts_def)

lemma badged_label: "rpLabel (badgedParts env data p) = bgLabel (createStatusBadge env (jdStatus data))"
  "rpText (badgedParts env data p) = rpText p"
  by (simp_all add: badgedParts_def)

lemma updateRowDom_eq:
  assumes "partsOk p" "rpText p = rwText r"
  shows "updateRowDom env now data (rowTree p) =
    Some (rowTree (saveParts (toLower (normalizeStatus (jdStatus data)) = ''completed'') (jdId data)
            (timedParts env now data (badgedParts env data p))),
      if flashes data p \<and> getVisibleDownloadTitle r data \<noteq> [] then
        Some (getVisibleDownloadTitle r data @ '' - '' @ strOr (Some (trim (bgLabel (createStatusBadge env (jdStatus data)))))
          (normalizeStatus (jdStatus data))) else None)"
proof -
  let ?p1 = "badgedParts env data p"
  have ok1: "partsOk ?p1" and ok2: "partsOk (timedParts env now data ?p1)" using parts_ok assms(1) by blast+
  have vis: "visibleTitleDom (rowTree ?p1) data = getVisibleDownloadTitle r data"
    unfolding visibleTitleDom_def row_queries(2) [OF ok1] using assms(2) by (simp add: getVisibleDownloadTitle_def badged_label)
  have lab: "map_option (\<lambda>b. trim (textContent b)) (querySelector (hasClass ''status-badge'') (rowTree ?p1))
      = Some (trim (bgLabel (createStatusBadge env (jdStatus data))))"
    unfolding row_queries(1) [OF ok1] by (simp add: badgeTree_def badged_label)
  have row2: "(if strOr (jdUpdated data) [] = [] then rowTree ?p1
      else onFirst (hasClass ''timestamp'') (setText (formatRelativeTime env now (jdUpdated data))) (rowTree ?p1))
      = rowTree (timedParts env now data ?p1)"
    by (simp add: onFirst_def splice_time timedParts_def)
  have b: "updateBadgeDom env data (rowTree p) = (rowTree ?p1, flashes data p)"
    using updateBadge_eq [OF assms(1) flashes_def] by (simp add: badgedParts_def)
  show ?thesis unfolding updateRowDom_def b prod.case Let_def vis lab row2 by (rule save_step [OF ok2])
qed

lemma updateDownloadRow_eq:
  assumes "renders showN p r"
  shows "updateDownloadRow env now r data =
    (saveRow (toLower (normalizeStatus (jdStatus data)) = ''completed'') (jdId data)
       (if strOr (jdUpdated data) [] = [] then r\<lparr>rwBadge := Some (createStatusBadge env (jdStatus data))\<rparr>
        else r\<lparr>rwBadge := Some (createStatusBadge env (jdStatus data)), rwTime := formatRelativeTime env now (jdUpdated data)\<rparr>),
      if flashes data p \<and> getVisibleDownloadTitle r data \<noteq> [] then
        Some (getVisibleDownloadTitle r data @ '' - '' @ strOr (Some (trim (bgLabel (createStatusBadge env (jdStatus data)))))
          (normalizeStatus (jdStatus data))) else None)"
proof -
  obtain b0 where "rwBadge r = Some b0" "bgLabel b0 = rpLabel p" using assms by (auto simp: renders_def)
  then show ?thesis
    by (simp add: updateDownloadRow_def saveRow_def Let_def getVisibleDownloadTitle_def flashes_def strOr_def split: option.split)
qed

lemma update_step:
  assumes sh: "renders showN p r"
  shows "\<exists>q. updateRowDom env now data (rowTree p) = Some (rowTree q, snd (updateDownloadRow env now r data))
    \<and> renders showN q (fst (updateDownloadRow env now r data))"
proof -
  have ok: "partsOk p" "rpText p = rwText r" using sh by (simp_all add: renders_def)
  let ?b = "createStatusBadge env (jdStatus data)"
  have "renders showN (badgedParts env data p) (r\<lparr>rwBadge := Some ?b\<rparr>)"
    unfolding badgedParts_def using newWords_ok by (intro renders_badge [OF sh]) blast
  then have "renders showN (timedParts env now data (badgedParts env data p)) (if strOr (jdUpdated data) [] = [] then r\<lparr>rwBadge := Some ?b\<rparr>
      else r\<lparr>rwBadge := Some ?b, rwTime := formatRelativeTime env now (jdUpdated data)\<rparr>)"
    using renders_time by (fastforce simp: timedParts_def)
  then show ?thesis
    unfolding updateRowDom_eq [OF ok] updateDownloadRow_eq [OF sh] fst_conv snd_conv by (blast intro: renders_save)
qed

text \<open>A progress report.\<close>

definition widthAfter :: "(jsnum \<Rightarrow> string) \<Rightarrow> progressData \<Rightarrow> string \<Rightarrow> string" where
  "widthAfter showN g w = (case gpPercent g of None \<Rightarrow> w
     | Some v \<Rightarrow> if validWidth (numMin v (Fin 100)) then showN (numMin v (Fin 100)) @ ''%'' else w)"

definition etaAfter :: "progressData \<Rightarrow> string option \<Rightarrow> string option" where
  "etaAfter g e = (case (e, gpEta g) of (Some _, Some x) \<Rightarrow> Some (etaText x) | _ \<Rightarrow> e)"

definition firstBar :: "progressData \<Rightarrow> (string \<times> string option) option \<Rightarrow> string \<times> string option" where
  "firstBar g b = (case b of None \<Rightarrow> (''0%'', if gpEta g \<noteq> None then Some [] else None) | Some x \<Rightarrow> x)"

definition progressParts :: "(jsnum \<Rightarrow> string) \<Rightarrow> progressData \<Rightarrow> rowParts \<Rightarrow> rowParts" where
  "progressParts showN g p = (case firstBar g (rpBar p) of (w, e) \<Rightarrow> p\<lparr>rpBar := Some (widthAfter showN g w, etaAfter g e)\<rparr>)"

lemma wrap_bar:
  assumes "partsOk p" "rpBar p = None"
  shows "splice (hasClass ''status-badge'') (\<lambda>b. [b, progressWrap h]) (rowTree p)
    = Some (rowTree (p\<lparr>rpBar := Some (''0%'', if h then Some [] else None)\<rparr>))"
  unfolding splice_badge [OF assms(1)]
  by (simp add: rowTree_def actionsTree_def mainTree_def saveTree_def deleteTree_def badgeTree_def
      barTree_def assms(2) progressWrap_def textOf_def)

lemma width_step:
  assumes "partsOk p" "rpBar p = Some (w, e)"
  shows "(case gpPercent g of None \<Rightarrow> rowTree p
     | Some v \<Rightarrow> (let u = numMin v (Fin 100) in
         if validWidth u then onFirst (hasClass ''progress-bar'') (setStyle ''width'' (showN u @ ''%'')) (rowTree p) else rowTree p))
     = rowTree (p\<lparr>rpBar := Some (widthAfter showN g w, e)\<rparr>)"
proof -
  have "p\<lparr>rpBar := Some (w, e)\<rparr> = p" using assms(2) by (cases p) simp
  then show ?thesis
    by (simp add: onFirst_def splice_bar [OF assms] widthAfter_def Let_def split: option.split)
qed

lemma eta_step:
  assumes "partsOk p" "rpBar p = Some (w, e)"
  shows "(case gpEta g of None \<Rightarrow> rowTree p | Some x \<Rightarrow> onFirst (hasClass ''progress-eta'') (setText (etaText x)) (rowTree p))
    = rowTree (p\<lparr>rpBar := Some (w, etaAfter g e)\<rparr>)"
proof -
  have same: "p\<lparr>rpBar := Some (w, e)\<rparr> = p" using assms(2) by (cases p) simp
  show ?thesis
  proof (cases e)
    case None
    then have "querySelector (hasClass ''progress-eta'') (rowTree p) = None" using row_queries(7) [OF assms(1)] assms(2) by simp
    then have "splice (hasClass ''progress-eta'') f (rowTree p) = None" for f by (simp add: splice_iff)
    then show ?thesis using same None by (simp add: onFirst_def etaAfter_def split: option.split)
  next
    case (Some u)
    then have "rowTree (p\<lparr>rpBar := Some (w, Some u)\<rparr>) = rowTree p" using same by simp
    then show ?thesis using Some assms splice_eta [of p w u] by (simp add: onFirst_def etaAfter_def split: option.split)
  qed
qed

lemma updateProgress_eq:
  assumes "partsOk p"
  shows "updateProgressDom showN g (rowTree p) = rowTree (progressParts showN g p)"
proof -
  obtain w e where we: "firstBar g (rpBar p) = (w, e)" by fastforce
  let ?p1 = "p\<lparr>rpBar := Some (w, e)\<rparr>"
  have ok1: "partsOk ?p1" and ok2: "partsOk (p\<lparr>rpBar := Some (v, e)\<rparr>)" for v using assms by (simp_all add: partsOk_def)
  have badge: "querySelector (hasClass ''status-badge'') (rowTree p) \<noteq> None" using row_queries(1) [OF assms] by simp
  have noBar: "(querySelector (hasClass ''progress-bar'') (rowTree p) = None) = (rpBar p = None)" using row_queries(6) [OF assms] by simp
  have row1: "(if rpBar p = None then (case splice (hasClass ''status-badge'') (\<lambda>b. [b, progressWrap (gpEta g \<noteq> None)]) (rowTree p) of
      Some d \<Rightarrow> d | None \<Rightarrow> rowTree p) else rowTree p) = rowTree ?p1"
  proof (cases "rpBar p")
    case None
    then show ?thesis using wrap_bar [OF assms None, of "gpEta g \<noteq> None"] we by (auto simp: firstBar_def)
  next
    case (Some b)
    then have "p\<lparr>rpBar := Some (w, e)\<rparr> = p" using we by (cases p) (simp add: firstBar_def)
    then show ?thesis using Some by simp
  qed
  have width: "(case gpPercent g of None \<Rightarrow> rowTree ?p1
     | Some v \<Rightarrow> if validWidth (numMin v (Fin 100))
         then onFirst (hasClass ''progress-bar'') (setStyle ''width'' (showN (numMin v (Fin 100)) @ ''%'')) (rowTree ?p1) else rowTree ?p1)
     = rowTree (p\<lparr>rpBar := Some (widthAfter showN g w, e)\<rparr>)"
    using width_step [OF ok1, where w = w and e = e and g = g and showN = showN] unfolding Let_def by simp
  have two: "(case gpEta g of None \<Rightarrow> rowTree (p\<lparr>rpBar := Some (v, e)\<rparr>)
      | Some x \<Rightarrow> onFirst (hasClass ''progress-eta'') (setText (etaText x)) (rowTree (p\<lparr>rpBar := Some (v, e)\<rparr>)))
      = rowTree (p\<lparr>rpBar := Some (v, etaAfter g e)\<rparr>)" for v
    using eta_step [OF ok2, of v v e g] by simp
  show ?thesis
    unfolding updateProgressDom_def noBar Let_def row1 width
    using badge two [of "widthAfter showN g w"] by (auto simp: progressParts_def we)
qed

lemma progress_step:
  assumes "renders showN p r" "showN (Fin 0) = ''0''"
  shows "renders showN (progressParts showN g p) (updateDownloadProgress r g)"
proof -
  have badge: "rwBadge r \<noteq> None" using assms(1) by (auto simp: renders_def)
  have bar: "barShows showN (rpBar (progressParts showN g p)) (rwBar (updateDownloadProgress r g)) (rwEta (updateDownloadProgress r g))"
    using assms badge
    by (auto simp: renders_def barShows_def progressParts_def firstBar_def widthAfter_def etaAfter_def validWidth_def
        updateDownloadProgress_def Let_def split: option.splits if_splits)
  have same: "rwJob (updateDownloadProgress r g) = rwJob r" "rwOptimistic (updateDownloadProgress r g) = rwOptimistic r"
    "rwText (updateDownloadProgress r g) = rwText r" "rwTime (updateDownloadProgress r g) = rwTime r"
    "rwBadge (updateDownloadProgress r g) = rwBadge r" "rwSave (updateDownloadProgress r g) = rwSave r"
    "rwDelete (updateDownloadProgress r g) = rwDelete r"
    by (simp_all add: updateDownloadProgress_def Let_def split: option.split)
  have parts: "\<exists>b. progressParts showN g p = p\<lparr>rpBar := b\<rparr>" by (auto simp: progressParts_def split: prod.split)
  then show ?thesis using assms(1) bar unfolding renders_def same by (auto simp: partsOk_def)
qed

text \<open>The small operations: the end of a flash, and the marks of the row shown at once.\<close>

lemma renders_words:
  "renders showN p r \<Longrightarrow> renders showN (p\<lparr>rpWords := filter P (rpWords p)\<rparr>) r"
  by (auto simp: renders_def partsOk_def)

lemma renders_root:
  assumes "renders showN p r" "om_get a ''data-job-id'' = i" "(om_get a ''data-optimistic'' = Some ''true'') = m"
  shows "renders showN (p\<lparr>rpRoot := a\<rparr>) (r\<lparr>rwJob := i, rwOptimistic := m\<rparr>)"
  using assms by (simp add: renders_def partsOk_def)

lemma root_set: "setAttribute k v (rowTree p) = rowTree (p\<lparr>rpRoot := om_set k v (rpRoot p)\<rparr>)"
  "removeAttribute k (rowTree p) = rowTree (p\<lparr>rpRoot := om_del k (rpRoot p)\<rparr>)"
  by (simp_all add: rowTree_def mainTree_def actionsTree_def badgeTree_def barTree_def saveTree_def deleteTree_def)

lemma root_add: "addClass c (rowTree p) = rowTree (p\<lparr>rpRoot := (if hasClass c (rowTree p) then rpRoot p
    else om_set ''class'' (joinWith '' '' (classList (rowTree p) @ [c])) (rpRoot p))\<rparr>)"
  by (simp add: addClass_def root_set)

lemma renders_attr:
  "renders showN p r \<Longrightarrow> k \<notin> {''data-job-id'', ''data-optimistic''} \<Longrightarrow> renders showN (p\<lparr>rpRoot := om_set k v (rpRoot p)\<rparr>) r"
  by (auto simp: renders_def partsOk_def)

lemma opDom_step:
  assumes sh: "renders showN p r" and z: "showN (Fin 0) = ''0''"
  shows "\<exists>q. opDom env showN e (rowTree p) = Some (rowTree q, snd (opRow env e r)) \<and> renders showN q (fst (opRow env e r))"
proof (cases e)
  case (UpdateOp now data)
  then show ?thesis using update_step [OF sh] by simp
next
  case (ProgressOp g)
  have "partsOk p" using sh by (simp add: renders_def)
  then show ?thesis using ProgressOp progress_step [OF sh z] updateProgress_eq by auto
next
  case FlashEnds
  have "partsOk p" using sh by (simp add: renders_def)
  then show ?thesis using FlashEnds renders_words [OF sh] endFlash_eq by auto
next
  case MarkOptimistic
  have "renders showN (p\<lparr>rpRoot := om_set ''data-optimistic'' ''true'' (rpRoot p)\<rparr>) (r\<lparr>rwJob := rwJob r, rwOptimistic := True\<rparr>)"
    using sh by (intro renders_root) (auto simp: renders_def)
  then show ?thesis using MarkOptimistic by (auto simp: root_set)
next
  case (PlaceOp k)
  then show ?thesis using renders_attr [OF sh, of "''data-sort-key''" k] by (auto simp: root_set)
next
  case FadeIn
  then show ?thesis using sh renders_attr [OF sh, of "''class''"] by (auto simp: root_add)
next
  case (AdoptOp i)
  have "renders showN (p\<lparr>rpRoot := om_del ''data-optimistic'' (om_set ''data-job-id'' i (rpRoot p))\<rparr>) (r\<lparr>rwJob := Some i, rwOptimistic := False\<rparr>)"
    by (intro renders_root [OF sh]) simp_all
  then show ?thesis using AdoptOp by (auto simp: adoptDom_def adopt_def root_set)
qed

lemma run_step:
  assumes "showN (Fin 0) = ''0''"
  shows "renders showN p r \<Longrightarrow>
    \<exists>q. runDom env showN es (rowTree p) = Some (rowTree q, snd (runRow env es r)) \<and> renders showN q (fst (runRow env es r))"
proof (induction es arbitrary: p r)
  case (Cons e es)
  obtain q where q: "opDom env showN e (rowTree p) = Some (rowTree q, snd (opRow env e r))" "renders showN q (fst (opRow env e r))"
    using opDom_step [OF Cons.prems assms] by blast
  show ?case using Cons.IH [OF q(2)] q(1) by (auto split: prod.splits)
qed auto


section \<open>Facts: what can come into the page\<close>

definition pathChar :: "char \<Rightarrow> bool" where
  "pathChar c \<longleftrightarrow> uriUnreserved c \<or> c = CHR ''%''"

text \<open>The address of a job: one segment of unreserved characters and escapes, then a fixed rest.\<close>

definition ownPath :: "string \<Rightarrow> string \<Rightarrow> bool" where
  "ownPath rest s \<longleftrightarrow> startsWith s ''/web/downloads/''
     \<and> dropWhile pathChar (drop (length ''/web/downloads/'') s) = rest"

definition factoryTags :: "string list" where
  "factoryTags = [''div'', ''p'', ''span'', ''a'', ''button'', ''svg'', ''use'']"

definition factoryAttributes :: "(string \<times> string) list" where
  "factoryAttributes =
     [(''class'', ''download-row''), (''class'', ''download-row fade-in''), (''class'', ''flex-1 min-w-0''), (''class'', ''flex items-center gap-3''),
      (''class'', ''h-10 w-10 rounded-xl bg-white/[0.04] border border-white/[0.06] flex items-center justify-center flex-shrink-0''),
      (''class'', ''h-5 w-5 text-gray-400''), (''class'', ''url-text''), (''class'', ''timestamp''), (''class'', ''download-btn text-xs''),
      (''class'', ''btn-danger''), (''class'', ''h-5 w-5''), (''class'', ''h-4 w-4''), (''class'', ''progress-container''),
      (''class'', ''progress-track''), (''class'', ''progress-bar''), (''class'', ''progress-eta''),
      (''data-optimistic'', ''true''), (''hx-disable'', []), (''aria-hidden'', ''true''), (''download'', []), (''target'', ''_blank''),
      (''hx-boost'', ''false''), (''type'', ''button''), (''hx-target'', ''closest .download-row''), (''hx-swap'', ''outerHTML''),
      (''hx-confirm'', ''Delete this download?''), (''aria-label'', ''Delete download''),
      (''href'', ''/static/icons/sprite.svg#icon-video''), (''href'', ''/static/icons/sprite.svg#icon-download''),
      (''href'', ''/static/icons/sprite.svg#icon-trash'')]"

definition safeAttribute :: "string \<times> string \<Rightarrow> bool" where
  "safeAttribute kv \<longleftrightarrow> (case kv of (k, v) \<Rightarrow> (k, v) \<in> set factoryAttributes
     \<or> k \<in> {''title'', ''data-timestamp'', ''data-job-id'', ''data-sort-key''}
     \<or> k = ''class'' \<and> list_all (\<lambda>w. startsWith w ''status-'') (classWords v)
     \<or> k = ''href'' \<and> ownPath ''/file'' v
     \<or> k = ''hx-delete'' \<and> ownPath [] v)"

definition safeStyle :: "string \<times> string \<Rightarrow> bool" where
  "safeStyle kv \<longleftrightarrow> fst kv = ''width'' \<or> kv \<in> {(''display'', ''inline-flex''), (''display'', ''none'')}"

primrec safeNode :: "dom \<Rightarrow> bool" where
  "safeNode (TextNode s) = True"
| "safeNode (Element t a st ks) \<longleftrightarrow> t \<in> set factoryTags \<and> list_all safeAttribute a \<and> list_all safeStyle st"

lemma radixDigit_word: "isRadixDigit 16 c \<Longrightarrow> list_all isWordChar (upperChar c)"
  by (auto simp: isRadixDigit_def digitVal_def isWordChar_def upperChar_def Let_def code_def split: if_splits)

lemma percentByte_chars: "list_all pathChar (percentByte n)"
proof -
  have w: "isWordChar c \<Longrightarrow> pathChar c" for c by (simp add: pathChar_def uriUnreserved_def)
  have "c \<in> set (padStart 2 CHR ''0'' (showHex n)) \<Longrightarrow> list_all isWordChar (upperChar c)" for c
  proof -
    assume "c \<in> set (padStart 2 CHR ''0'' (showHex n))"
    then have "isRadixDigit 16 c \<or> c = CHR ''0''" using showRadix_digits [of 16 c n] by (auto simp: padStart_def)
    moreover have "isRadixDigit 16 (CHR ''0'')" by code_simp
    ultimately show ?thesis using radixDigit_word by blast
  qed
  then show ?thesis using w by (auto simp: percentByte_def toUpper_def list_all_iff pathChar_def)
qed

lemma encodeURIComponent_chars: "list_all pathChar (encodeURIComponent s)"
  using percentByte_chars by (auto simp: encodeURIComponent_def list_all_iff pathChar_def)

lemma ownPath_job: "ownPath [] (jobPath i)" "ownPath ''/file'' (jobPath i @ ''/file'')"
proof -
  have a: "\<And>c. c \<in> set (encodeURIComponent i) \<Longrightarrow> pathChar c" using encodeURIComponent_chars [of i] by (simp add: list_all_iff)
  have b: "\<not> pathChar (CHR ''/'')" by code_simp
  show "ownPath [] (jobPath i)" "ownPath ''/file'' (jobPath i @ ''/file'')"
    using a b by (simp_all add: ownPath_def jobPath_def startsWith_Cons dropWhile_append2)
qed

lemma safe_set: "list_all P m \<Longrightarrow> P (k, v) \<Longrightarrow> list_all P (om_set k v m)"
  by (induction k v m rule: om_set.induct) auto

lemma safe_del: "list_all P m \<Longrightarrow> list_all P (om_del k m)"
  by (auto simp: om_del_def list_all_iff)

definition safeParts :: "rowParts \<Rightarrow> bool" where
  "safeParts p \<longleftrightarrow> partsOk p \<and> om_get (rpRoot p) ''class'' \<in> {Some ''download-row'', Some ''download-row fade-in''} \<and> list_all safeAttribute (rpRoot p) \<and> ownPath [] (rpDelete p)
     \<and> (case rpSave p of None \<Rightarrow> True | Some (h, ks, st) \<Rightarrow> ownPath ''/file'' h \<and> list_all safeStyle st)"

lemma safe_const: "safeAttribute kv" if "kv \<in> set factoryAttributes"
  using that by (auto simp: safeAttribute_def split: prod.split)

lemma safe_icon:
  assumes "(''class'', c) \<in> set factoryAttributes" "(''href'', ''/static/icons/sprite.svg#'' @ i) \<in> set factoryAttributes"
  shows "list_all safeNode (nodes (iconTree i c))"
proof -
  have "(''aria-hidden'', ''true'') \<in> set factoryAttributes" by (simp add: factoryAttributes_def)
  then show ?thesis using assms safe_const by (simp add: iconTree_def) (simp add: factoryTags_def)
qed

lemma safe_icons:
  "list_all safeNode (nodes (iconTree ''icon-video'' ''h-5 w-5 text-gray-400''))"
  "list_all safeNode (nodes (iconTree ''icon-download'' ''h-4 w-4''))" "list_all safeNode (nodes (iconTree ''icon-trash'' ''h-5 w-5''))"
  by (rule safe_icon; simp add: factoryAttributes_def)+

lemma safe_text [simp]: "list_all safeNode (textOf s)"
  by (simp add: textOf_def)

lemma safe_badge: "partsOk p \<Longrightarrow> list_all safeNode (nodes (badgeTree p))"
  using badgeClass_words [of "rpWords p"]
  by (auto simp: nodes_badge badgeTree_def safeAttribute_def partsOk_def statusWord_def factoryTags_def list_all_iff
      startsWith_Cons textOf_def)

lemma safe_main: "list_all safeNode (nodes (mainTree p))"
  using safe_icons(1) by (simp add: mainTree_def factoryTags_def safeAttribute_def factoryAttributes_def)

lemma safe_bar: "list_all safeNode (concat (map nodes (barTree p)))"
  by (auto simp: barTree_def factoryTags_def safeAttribute_def factoryAttributes_def safeStyle_def split: option.split)

lemma safe_save: "safeParts p \<Longrightarrow> list_all safeNode (concat (map nodes (saveTree p)))"
  using safe_icons(2)
  by (auto simp: saveTree_def safeParts_def partsOk_def saveKids_def factoryTags_def safeAttribute_def factoryAttributes_def split: option.splits)

lemma safe_delete: "safeParts p \<Longrightarrow> list_all safeNode (nodes (deleteTree p))"
  using safe_icons(3) by (simp add: deleteTree_def safeParts_def factoryTags_def safeAttribute_def factoryAttributes_def)

lemma safe_row: "safeParts p \<Longrightarrow> list_all safeNode (nodes (rowTree p))"
  using safe_badge safe_main safe_bar safe_save safe_delete
  by (simp add: rowTree_def actionsTree_def safeParts_def safeAttribute_def factoryTags_def factoryAttributes_def)

text \<open>Every operation keeps it so.\<close>

lemma safe_created: "safeParts (createdParts env now data)"
proof -
  have "partsOk (createdParts env now data)" using renders_created by (simp add: renders_def)
  then show ?thesis
    by (simp add: safeParts_def createdParts_def createDownloadRow_def Let_def safeAttribute_def factoryAttributes_def ownPath_job)
qed

lemma safe_saveParts:
  assumes "safeParts p"
  shows "safeParts (saveParts done i p)"
proof -
  have st: "safeStyle (''display'', ''inline-flex'')" "safeStyle (''display'', ''none'')" by (simp_all add: safeStyle_def)
  have kids: "[iconTree ''icon-download'' ''h-4 w-4'', TextNode '' Save''] \<in> saveKids" by (simp add: saveKids_def)
  show ?thesis
  proof (cases "rpSave p")
    case None
    then show ?thesis using assms st(1) kids ownPath_job(2) by (simp add: safeParts_def partsOk_def saveParts_def)
  next
    case (Some x)
    then show ?thesis using assms st by (cases x) (simp add: safeParts_def partsOk_def saveParts_def safe_set)
  qed
qed

lemma safe_update:
  assumes "safeParts p"
  shows "\<exists>q said. updateRowDom env now data (rowTree p) = Some (rowTree q, said) \<and> safeParts q"
proof -
  let ?p2 = "timedParts env now data (badgedParts env data p)"
  have ok: "partsOk p" using assms by (simp add: safeParts_def)
  have same: "rpSave ?p2 = rpSave p" "rpRoot ?p2 = rpRoot p" "rpDelete ?p2 = rpDelete p"
    by (simp_all add: timedParts_def badgedParts_def)
  have "partsOk ?p2" using ok parts_ok by blast
  then have "safeParts (saveParts c i ?p2)" for c i
    using assms same by (intro safe_saveParts) (simp add: safeParts_def)
  moreover have "rpText p = rwText ((createDownloadRow env now data)\<lparr>rwText := rpText p\<rparr>)" by simp
  ultimately show ?thesis using updateRowDom_eq [OF ok] by blast
qed

lemma safe_fade:
  assumes "safeParts p"
  shows "\<exists>q. addClass ''fade-in'' (rowTree p) = rowTree q \<and> safeParts q"
proof -
  have words: "classWords ''download-row fade-in'' = [''download-row'', ''fade-in'']" by code_simp
  have cls: "classList (rowTree p) = (case om_get (rpRoot p) ''class'' of None \<Rightarrow> [] | Some s \<Rightarrow> classWords s)"
    by (simp add: classList_def rowTree_def)
  consider "om_get (rpRoot p) ''class'' = Some ''download-row''" | "om_get (rpRoot p) ''class'' = Some ''download-row fade-in''"
    using assms by (auto simp: safeParts_def)
  then show ?thesis
  proof cases
    case 1
    then have "addClass ''fade-in'' (rowTree p) = rowTree (p\<lparr>rpRoot := om_set ''class'' ''download-row fade-in'' (rpRoot p)\<rparr>)"
      by (simp add: addClass_def hasClass_def cls root_set)
    moreover have "safeAttribute (''class'', ''download-row fade-in'')" by (rule safe_const) (simp add: factoryAttributes_def)
    ultimately show ?thesis using assms by (auto simp: safeParts_def partsOk_def intro!: safe_set)
  next
    case 2
    then show ?thesis using assms by (auto simp: addClass_def hasClass_def cls words)
  qed
qed

lemma safe_step:
  assumes "safeParts p"
  shows "\<exists>q said. opDom env showN e (rowTree p) = Some (rowTree q, said) \<and> safeParts q"
proof -
  have ok: "partsOk p" using assms by (simp add: safeParts_def)
  have root: "safeParts (p\<lparr>rpRoot := a\<rparr>)" if "list_all safeAttribute a"
      "om_get a ''class'' = om_get (rpRoot p) ''class''" for a
    using assms that by (simp add: safeParts_def partsOk_def)
  have mark: "safeAttribute (''data-optimistic'', ''true'')" "safeAttribute (''data-job-id'', i)" "safeAttribute (''data-sort-key'', i)" for i
    by (simp_all add: safeAttribute_def factoryAttributes_def)
  have attrs: "list_all safeAttribute (rpRoot p)" using assms by (simp add: safeParts_def)
  show ?thesis
  proof (cases e)
    case (UpdateOp now data)
    then show ?thesis using safe_update [OF assms] by simp
  next
    case (ProgressOp g)
    have "safeParts (progressParts showN g p)" using assms by (simp add: progressParts_def safeParts_def partsOk_def split: prod.split)
    then show ?thesis using ProgressOp updateProgress_eq [OF ok] by auto
  next
    case FlashEnds
    have "safeParts (p\<lparr>rpWords := filter (\<lambda>w. w \<noteq> ''status-changed'') (rpWords p)\<rparr>)"
      using assms by (simp add: safeParts_def partsOk_def)
    then show ?thesis using FlashEnds endFlash_eq [OF ok] by auto
  next
    case MarkOptimistic
    then show ?thesis using root [OF safe_set [OF attrs mark(1)]] by (auto simp: root_set)
  next
    case (PlaceOp k)
    then show ?thesis using root [OF safe_set [OF attrs mark(3)]] by (auto simp: root_set)
  next
    case FadeIn
    then show ?thesis using safe_fade [OF assms] by auto
  next
    case (AdoptOp i)
    then show ?thesis using root [OF safe_del [OF safe_set [OF attrs mark(2)]]] by (auto simp: adoptDom_def root_set)
  qed
qed

lemma safe_run: "safeParts p \<Longrightarrow> \<exists>q said. runDom env showN es (rowTree p) = Some (rowTree q, said) \<and> safeParts q"
proof (induction es arbitrary: p)
  case (Cons e es)
  obtain q said where "opDom env showN e (rowTree p) = Some (rowTree q, said)" "safeParts q" using safe_step [OF Cons.prems] by blast
  then show ?case using Cons.IH by fastforce
qed auto

text \<open>C35: whatever a message contains, it adds nothing to the page but text. For every job data, known or unknown
  status, progress report and order of the operations on a row, the nodes of its element have the factory's tags and
  attributes only: the content of a message shows up as text, in the hint of the title, in the time, the id and the sort key of the
  row, as a class that starts with \<open>status-\<close>, as a width, and, encoded, as one segment of the fixed address of a
  job. No event handler, script address, or further element comes from it.\<close>

theorem row_dom_safe:
  "case runDom env showN es (createRowDom env now data) of None \<Rightarrow> False | Some (d, said) \<Rightarrow> list_all safeNode (nodes d)"
  using safe_run [OF safe_created, of env showN es env now data] safe_row unfolding create_eq by auto

section \<open>Examples\<close>

text \<open>A job that finishes: it is reported, makes progress, and gets its link.\<close>

definition sampleLife :: "rowOp list" where
  "sampleLife = [MarkOptimistic, PlaceOp ''4'', FadeIn, AdoptOp ''a b'', ProgressOp \<lparr>gpPercent = Some (Fin 50), gpEta = Some (Fin 75)\<rparr>,
     UpdateOp 0 ((sampleJob ''a b'' ''u'' None)\<lparr>jdStatus := Some ''completed''\<rparr>), FlashEnds]"


end
