(* ===== verification/Style.thy ===== *)
theory Style
  imports RowDom
begin

text \<open>
  The configuration of the style sheet (\<open>tailwind.config.js\<close>): the classes that are kept whatever the
  templates name, and the tables of colours, fonts, sizes, animations and shadows. The build of the style
  sheet is not in the repository; what is used of it is its documented rule that a class is written out if it
  is safelisted or found in a file of \<open>content\<close>. The lemmas show that the tables fit together, and which
  classes of the scripts' own elements are left to chance.
\<close>

section \<open>Classes\<close>

definition contentGlobs :: "string list" where
  "contentGlobs = [''../app/templates/**/*.html'', ''./app/templates/**/*.html'']"

definition safelist :: "string list" where
  "safelist = [
     ''font-body'', ''font-display'', ''font-mono'', ''bg-surface-900'', ''bg-surface-800'',
     ''bg-surface-700'', ''bg-surface-600'', ''bg-surface-500'', ''text-gray-200'', ''text-gray-300'',
     ''text-gray-400'', ''text-white'', ''text-amber-400'', ''bg-amber-400/30'', ''bg-amber-500'',
     ''bg-amber-500/10'', ''card'', ''download-btn'', ''hover-lift'', ''status-badge'', ''status-pending'',
     ''status-processing'', ''status-completed'', ''status-failed'', ''status-deferred'',
     ''status-cancelled'', ''status-unknown'', ''success-box'', ''opacity-0'', ''opacity-100'',
     ''ease-out-expo'', ''toast'', ''toast-success'', ''toast-error'', ''toast-warning'', ''toast-info'',
     ''toast-exit'', ''bg-coral-500/10'', ''bg-coral-500/20'', ''hover:bg-coral-500/20'',
     ''border-coral-500/30'', ''text-coral-400'', ''bg-jade-500/10'', ''border-jade-500/20'',
     ''bg-warm-500/10'', ''border-warm-500/20'', ''text-warm-400'', ''border-amber-500/40'',
     ''hover:border-amber-400'', ''hover:text-amber-300'', ''border-blue-500/30'', ''text-blue-400'',
     ''hover:border-blue-500'', ''hover:text-blue-300'', ''text-jade-300'', ''text-jade-400'',
     ''text-warm-300'', ''text-coral-300'', ''text-amber-300'', ''bg-amber-500/15'', ''bg-warm-500/15'',
     ''bg-jade-500/15'', ''bg-coral-500/15'']"

section \<open>Tables\<close>

definition surfacePalette :: "(string \<times> string) list" where
  "surfacePalette = [
     (''950'', ''#08090d''), (''900'', ''#0d0f14''), (''800'', ''#131620''), (''700'', ''#1a1e2e''),
     (''600'', ''#232840''), (''500'', ''#2d3352''), (''400'', ''#394263''), (''300'', ''#465175''),
     (''200'', ''#546187''), (''100'', ''#63719a''), (''50'', ''#7382ae'')]"

definition amberPalette :: "(string \<times> string) list" where
  "amberPalette = [
     (''50'', ''#fffbeb''), (''100'', ''#fef3c7''), (''200'', ''#fde68a''), (''300'', ''#fcd34d''),
     (''400'', ''#fbbf24''), (''500'', ''#f59e0b''), (''600'', ''#d97706''), (''700'', ''#b45309''),
     (''800'', ''#92400e''), (''900'', ''#78350f''), (''950'', ''#451a03'')]"

definition warmPalette :: "(string \<times> string) list" where
  "warmPalette = [
     (''50'', ''#faf5ff''), (''100'', ''#f3e8ff''), (''200'', ''#e9d5ff''), (''300'', ''#d8b4fe''),
     (''400'', ''#c084fc''), (''500'', ''#a855f7''), (''600'', ''#9333ea''), (''700'', ''#7e22ce''),
     (''800'', ''#6b21a8''), (''900'', ''#581c87'')]"

definition coralPalette :: "(string \<times> string) list" where
  "coralPalette = [
     (''50'', ''#fff1f2''), (''100'', ''#ffe4e6''), (''200'', ''#fecdd3''), (''300'', ''#fda4af''),
     (''400'', ''#fb7185''), (''500'', ''#f43f5e''), (''600'', ''#e11d48''), (''700'', ''#be123c''),
     (''800'', ''#9f1239''), (''900'', ''#881337'')]"

definition jadePalette :: "(string \<times> string) list" where
  "jadePalette = [
     (''50'', ''#ecfdf5''), (''100'', ''#d1fae5''), (''200'', ''#a7f3d0''), (''300'', ''#6ee7b7''),
     (''400'', ''#34d399''), (''500'', ''#10b981''), (''600'', ''#059669''), (''700'', ''#047857''),
     (''800'', ''#065f46''), (''900'', ''#064e3b'')]"

definition colours :: "(string \<times> (string \<times> string) list) list" where
  "colours = [(''surface'', surfacePalette), (''amber'', amberPalette), (''warm'', warmPalette),
     (''coral'', coralPalette), (''jade'', jadePalette)]"

definition quotedName :: "string \<Rightarrow> string" where
  "quotedName s = CHR 34 # s @ [CHR 34]"

definition fontFamilies :: "(string \<times> string list) list" where
  "fontFamilies = [
     (''display'', [quotedName ''Outfit'', ''system-ui'', ''sans-serif'']),
     (''body'', [quotedName ''DM Sans'', ''system-ui'', ''sans-serif'']),
     (''mono'', [quotedName ''JetBrains Mono'', ''monospace''])]"

definition borderRadii :: "(string \<times> string) list" where
  "borderRadii = [
     (''4xl'', ''2rem''), (''5xl'', ''2.5rem'')]"

definition screens :: "(string \<times> string) list" where
  "screens = [
     (''xs'', ''475px''), (''3xl'', ''1920px'')]"

definition spacings :: "(string \<times> string) list" where
  "spacings = [
     (''18'', ''4.5rem''), (''88'', ''22rem''), (''128'', ''32rem'')]"

definition animations :: "(string \<times> string) list" where
  "animations = [
     (''fade-in'', ''fadeIn 0.5s ease-out forwards''), (''slide-up'', ''slideUp 0.5s ease-out forwards''),
     (''slide-in-right'', ''slideInRight 0.4s ease-out forwards''),
     (''glow-pulse'', ''glowPulse 2s ease-in-out infinite''), (''grain'', ''grain 8s steps(10) infinite''),
     (''float'', ''float 6s ease-in-out infinite'')]"

definition keyframes :: "(string \<times> (string \<times> (string \<times> string) list) list) list" where
  "keyframes = [
     (''fadeIn'', [
       (''0%'', [(''opacity'', ''0'')]), (''100%'', [(''opacity'', ''1'')])]),
     (''slideUp'', [
       (''0%'', [(''opacity'', ''0''), (''transform'', ''translateY(24px)'')]),
       (''100%'', [(''opacity'', ''1''), (''transform'', ''translateY(0)'')])]),
     (''slideInRight'', [
       (''0%'', [(''opacity'', ''0''), (''transform'', ''translateX(16px)'')]),
       (''100%'', [(''opacity'', ''1''), (''transform'', ''translateX(0)'')])]),
     (''glowPulse'', [
       (''0%, 100%'', [(''boxShadow'', ''0 0 20px rgba(251, 191, 36, 0.1)'')]),
       (''50%'', [(''boxShadow'', ''0 0 40px rgba(251, 191, 36, 0.2)'')])]),
     (''grain'', [
       (''0%, 100%'', [(''transform'', ''translate(0, 0)'')]),
       (''10%'', [(''transform'', ''translate(-5%, -10%)'')]),
       (''30%'', [(''transform'', ''translate(3%, -15%)'')]),
       (''50%'', [(''transform'', ''translate(12%, 9%)'')]),
       (''70%'', [(''transform'', ''translate(9%, 4%)'')]),
       (''90%'', [(''transform'', ''translate(-1%, 7%)'')])]),
     (''float'', [
       (''0%, 100%'', [(''transform'', ''translateY(0px)'')]),
       (''50%'', [(''transform'', ''translateY(-8px)'')])])]"

definition timingFunctions :: "(string \<times> string) list" where
  "timingFunctions = [
     (''out-expo'', ''cubic-bezier(0.16, 1, 0.3, 1)'')]"

definition boxShadows :: "(string \<times> string) list" where
  "boxShadows = [
     (''glow-amber'', ''0 0 30px rgba(251, 191, 36, 0.15)''),
     (''glow-amber-lg'', ''0 0 60px rgba(251, 191, 36, 0.2)''),
     (''glow-jade'', ''0 0 30px rgba(16, 185, 129, 0.15)''),
     (''glow-coral'', ''0 0 30px rgba(244, 63, 94, 0.15)''),
     (''inner-warm'', ''inset 0 1px 0 rgba(251, 191, 36, 0.1)'')]"

definition backgroundImages :: "(string \<times> string) list" where
  "backgroundImages = [
     (''gradient-radial'', ''radial-gradient(var(--tw-gradient-stops))'')]"

section \<open>Reading the tables\<close>

definition isHexColour :: "string \<Rightarrow> bool" where
  "isHexColour s = (case s of [] \<Rightarrow> False | c # h \<Rightarrow> c = CHR ''#'' \<and> length h = 6 \<and> list_all (isRadixDigit 16) h)"

text \<open>The colour a class names, as in \<open>hover:bg-coral-500/20\<close>: the family and its shade.\<close>

definition withoutVariant :: "string \<Rightarrow> string" where
  "withoutVariant c = (case rev (splitOn (CHR '':'') c) of [] \<Rightarrow> [] | w # _ \<Rightarrow> w)"

definition colourUse :: "string \<Rightarrow> (string \<times> string) option" where
  "colourUse c = (case splitOn (CHR ''-'') (withoutVariant c) of
     [k, family, shade] \<Rightarrow> if k \<in> {''bg'', ''text'', ''border''}
       then Some (family, takeWhile (\<lambda>x. x \<noteq> CHR ''/'') shade) else None
   | _ \<Rightarrow> None)"

text \<open>A class has a rule in the style sheet if it is safelisted, or if it occurs in a file of \<open>content\<close>.\<close>

definition emitted :: "(string \<Rightarrow> bool) \<Rightarrow> string \<Rightarrow> bool" where
  "emitted occurs c \<longleftrightarrow> c \<in> set safelist \<or> occurs c"

section \<open>The banner of a lost connection\<close>

definition bannerDom :: dom where
  "bannerDom = Element ''div'' [(''id'', ''sse-reconnect-banner''),
       (''class'', ''fixed bottom-4 right-4 z-50 flex items-center gap-3 bg-coral-500/90 backdrop-blur-sm text-white px-5 py-3.5 rounded-xl shadow-2xl border border-white/10 slide-up'')] []
     [createSvgIcon ''icon-alert'' ''h-5 w-5 flex-shrink-0'',
      Element ''span'' [(''class'', ''text-sm font-medium'')] [] [TextNode ''Connection lost.''],
      Element ''button'' [(''type'', ''button''), (''data-sse-retry'', []),
        (''class'', ''bg-white/20 hover:bg-white/30 active:bg-white/40 px-3.5 py-1.5 rounded-lg text-xs font-semibold transition-all duration-200'')] []
        [TextNode ''Reconnect'']]"

definition classesOf :: "dom \<Rightarrow> string list" where
  "classesOf d = concat (map classList (nodes d))"

section \<open>Facts\<close>

text \<open>Every colour is a colour, and no palette has a shade twice.\<close>

lemma palettes_hex: "list_all (\<lambda>(family, p). list_all (\<lambda>(shade, h). isHexColour h) p \<and> distinct (map fst p)) colours"
  by code_simp

text \<open>Each animation plays the keyframes of its own entry, all of them are played, and each has its start.\<close>

lemma animations_keyframes:
  "map (\<lambda>(n, a). hd (classWords a)) animations = map fst keyframes"
  "list_all (\<lambda>(n, stops). stops \<noteq> [] \<and> startsWith (fst (hd stops)) ''0%'') keyframes"
  by code_simp+

text \<open>A safelisted class that names a colour of these palettes names one of its shades.\<close>

lemma safelist_colours:
  "list_all (\<lambda>c. case colourUse c of None \<Rightarrow> True
     | Some (family, shade) \<Rightarrow> (case map_of colours family of None \<Rightarrow> True | Some p \<Rightarrow> map_of p shade \<noteq> None)) safelist"
  by code_simp

lemma safelist_distinct: "distinct safelist"
  by code_simp

text \<open>The badges of the known statuses and the toasts of the kinds in use are safelisted, with the default kind.\<close>

lemma badge_classes:
  "list_all (\<lambda>s. ''status-'' @ statusClassSuffix (Some s) \<in> set safelist)
     [''pending'', ''processing'', ''completed'', ''failed'', ''deferred'', ''cancelled'', ''unknown'']"
  "''status-'' @ statusClassSuffix None \<in> set safelist"
  by code_simp+

lemma badge_emitted:
  "s \<in> {''pending'', ''processing'', ''completed'', ''failed'', ''deferred'', ''cancelled'', ''unknown''} \<Longrightarrow>
   emitted occurs (''status-'' @ statusClassSuffix (Some s))"
  using badge_classes by (auto simp: emitted_def)

text \<open>
  The banner and the progress bar exist in scripts only, and \<open>content\<close> names no script: none of their
  classes but the white text is safelisted, nor are the flash of a changed badge and the end of a success
  box. Each has a rule only if some template happens to name it.
\<close>

lemma banner_unlisted: "filter (\<lambda>c. c \<in> set safelist) (classesOf bannerDom) = [''text-white'']"
  by code_simp

lemma progress_unlisted: "filter (\<lambda>c. c \<in> set safelist) (classesOf (progressWrap True)) = []"
  by code_simp

lemma exits_unlisted: "''status-changed'' \<notin> set safelist" "''success-box-exit'' \<notin> set safelist"
  by code_simp+

lemma scripts_by_chance:
  assumes "c \<in> set (classesOf bannerDom) \<union> set (classesOf (progressWrap True)) \<union> {''status-changed'', ''success-box-exit''}"
    "c \<noteq> ''text-white''"
  shows "emitted occurs c \<longleftrightarrow> occurs c"
proof -
  have left: "c \<notin> set safelist" if f: "filter (\<lambda>c. c \<in> set safelist) cs = xs" and c: "c \<in> set cs" "c \<notin> set xs" for cs xs
  proof
    assume "c \<in> set safelist"
    then have "c \<in> set (filter (\<lambda>c. c \<in> set safelist) cs)" using c by simp
    then show False using f c by simp
  qed
  have "c \<notin> set safelist"
    using assms left [OF banner_unlisted] left [OF progress_unlisted] exits_unlisted by auto
  then show ?thesis by (simp add: emitted_def)
qed

end
