(* ===== verification/Spec2Isabelle.thy ===== *)
theory Spec2Isabelle
  imports Errors Concurrency Metrics Validate Paths Bytes Fetch Hls Spawn Backend Tier1 Tier2 Downloader Server
    Json Wire ErrorFlow Service Launch Session Rows Monitor Forms Dashboard Notices Pages SseClient Live
    Dom RowDom Style
begin

text \<open>
  The JavaScript of the repository: the browser-downloader service under
  \<open>src/packages/browser-downloader/src\<close> and the scripts of the web pages under
  \<open>src/app/static/js\<close>.

  \<^bold>\<open>The service.\<close> \<open>server.js\<close> answers \<open>POST /download\<close>: it checks the URL and the output directory,
  takes a slot of the limiter, and runs \<open>download\<close> (\<open>downloader.js\<close>) against a timer, sending one
  JSON answer or a stream of progress lines. \<open>download\<close> drives a browser: tier 1 (\<open>tier1-cdp.js\<close>)
  watches the page's network traffic for media and manifests; if it finds neither, tier 2
  (\<open>tier2-dom.js\<close>) reads blob URLs inside the page. What tier 1 finds is fetched by
  \<open>streamlink-backend.js\<close>, through the streamlink and ffmpeg programs or by its own playlist walk.
  Every error that leaves the service is one of the words of \<open>errors.js\<close>.

  \<^bold>\<open>Theories and sources.\<close>
  \<^item> \<open>Prelude\<close>, \<open>JsString\<close>, \<open>JsNumber\<close>, \<open>Regex\<close>: fallible results and state passing with exceptions,
    the string library on Latin-1 code units, numbers as exact values with every operation rounded
    to a double, and a backtracking matcher for the regular expressions of the sources.
  \<^item> \<open>Errors\<close> (\<open>errors.js\<close>): error objects in a heap, so that the \<open>cause\<close> links may be cyclic.
    \<open>Concurrency\<close>, \<open>Metrics\<close>: \<open>concurrency.js\<close> and \<open>metrics.js\<close>.
  \<^item> \<open>Validate\<close>, \<open>Paths\<close> (\<open>validate.js\<close>): private addresses, the URL guard, the output directory,
    timeouts and extensions.
  \<^item> \<open>Fetch\<close>, \<open>Hls\<close>, \<open>Spawn\<close>, \<open>Backend\<close> (\<open>streamlink-backend.js\<close>): the guarded fetch with its contexts,
    redirects and retries; the playlist language; child processes as event machines; the two
    download routes on a state of network log, files, children and progress.
  \<^item> \<open>Tier1\<close>, \<open>Session\<close>, \<open>Bytes\<close>, \<open>Tier2\<close>: the interceptor as an event machine and the
    life of its CDP session; base64; the blob hook, the in-page fetch and the polling loop.
  \<^item> \<open>Downloader\<close> (\<open>downloader.js\<close>): the order of the tiers and the browser's life cycle. The locale
    \<open>dl_log\<close> is interpreted for the browser log and for the network log.
  \<^item> \<open>Server\<close> (\<open>server.js\<close>): the handler as a state machine over all requests (\<open>svStep\<close>), reachable
    states (\<open>svReach\<close>), and an abstract limiter (\<open>admission\<close>) that it refines. \<open>Json\<close>, \<open>Wire\<close>
    (\<open>server.js\<close>): the JSON text of every answer and of the progress lines, the two GET routes, the
    start of the process.
  \<^item> \<open>ErrorFlow\<close>, \<open>Service\<close>: the parts together. Which codes each layer may throw (the locales
    \<open>error_contract\<close> and \<open>public_contract\<close>, interpreted by \<open>typedExn\<close>), and the server running the
    downloads of \<open>Downloader\<close> (\<open>serves\<close>). \<open>Launch\<close> (\<open>downloader.js\<close>): the launcher and the promise it
    keeps from one download to the next.
  \<^item> \<open>Rows\<close>, \<open>Dashboard\<close>, \<open>Monitor\<close>, \<open>Forms\<close> (\<open>dashboard.js\<close>): the rows of the download list, the
    handlers of the page's events over one state (\<open>boardStep\<close>, \<open>boardRun\<close>), the health monitor of the
    live connection (\<open>monStep\<close>, \<open>monReach\<close>), the confirmation dialog and the URL form.
  \<^item> \<open>Dom\<close>, \<open>RowDom\<close> (\<open>dashboard.js\<close>): the browser's tree as far as the scripts use it, and on it the
    row factory with its icons, and the update, the progress bar and the marks of a row as the code
    does them, through selectors. The record of \<open>Rows\<close> is what such an element displays.
    \<open>Style\<close> (\<open>tailwind.config.js\<close>): the safelist and the tables of the style sheet.
  \<^item> \<open>Notices\<close> (\<open>toast.js\<close>, \<open>htmx-error-handler.js\<close>, \<open>auth.js\<close>, \<open>settings.js\<close>, \<open>chaos-lab.js\<close>,
    \<open>json-enc.js\<close>): what the small scripts tell the user; \<open>Pages\<close> (the same files and
    \<open>vooglaadija.js\<close>): their listeners, the settings page as one state machine. \<open>SseClient\<close> (\<open>sse.js\<close>):
    the event sources of an element, their reconnection and the listeners of the elements below
    (\<open>sseStep\<close>, \<open>sseRun\<close>, \<open>sseReach\<close>). \<open>Live\<close>: the page with its event source, bridge and board
    (\<open>liveRun\<close>), against a specification without the bridge (\<open>boardTrace\<close>).

  A group of definitions follows the order of its source file and keeps its names; a record holds
  the variables a closure keeps, a step function has one equation per event, and a thrown error is
  the left side of a sum. Where a name clashes with one of the library it has a suffix.

  \<^bold>\<open>What the lemmas show.\<close> Safety of what the service touches: every address asked for by a
  download passed the guard, the output file lies in the allowed directory, the options of a child
  process cannot be forged by a URL, credential files and temporary directories are removed on every
  path. Life cycles: a slot is held exactly by the running requests, each request is recorded once
  and answered once, the browser and the children are closed or killed, an interception settles and
  its tables stay bounded. Function: which addresses are private, which URLs are accepted, which
  variant, keys and segments a playlist yields, what a blob transfer returns. Errors: which are
  terminal, which are retried, and that every answer uses the vocabulary: under the hypotheses of
  \<open>ErrorFlow\<close> no download throws a bug or hangs, and under those of \<open>Service\<close> every answer has the shape
  that the head of \<open>server.js\<close> documents, names only files under the base, arrives as whole lines, and
  the metrics have a bounded number of series. Pages: the list stays newest
  first with one row per job under the messages of the server, at most one provisional row exists,
  the banner appears only after ten silent seconds, a question gets one answer, a failed request is
  reported once, an element has one live connection or one pending reconnection, and after every
  reconnection each message of the server is handled once by each listener and once by the list.
  In the browser's tree a row built by the factory never makes an update throw, displays what its
  record says after any operations, and takes nothing but text and encoded paths from a message.
  Several theorems state what the code does not keep; each stands beside the definition it is about.

  \<^bold>\<open>Bounds and fuel.\<close> The walk along \<open>cause\<close> has the stack depth as fuel and returns an overflow
  explicitly. Manifests nest to \<open>MAX_DEPTH\<close>, and the recursion has one level more, the one that
  throws. Redirects are followed \<open>MAX_REDIRECTS\<close> times, with one last request, attempts per context
  are \<open>MAX_RETRIES\<close> and one. The caps of the interceptor (256 entries) and of the hook (64 URLs) are
  the constants of the code. The matcher's repetition has the length of the remaining text as fuel,
  enough since an iteration must consume. The polling loop of tier 2 is a partial function that is
  shown to return under a clock that advances; the other loops are structural or have a measure.

  \<^bold>\<open>Parameters.\<close> Code outside the sources is an argument: the URL parser, the resolver (its answers
  may change from one request to the next), the network, the clock, random numbers, \<open>realpath\<close> and
  failures of file operations, AES, the output and exit of children, the events of the browser, the
  date and HTML parsers, the labels of statuses. A theorem assumes of them no more than it states.

  \<^bold>\<open>Not modelled.\<close> The Python application and its templates (another language); the bundle
  \<open>redoc.standalone.js\<close>, third-party code served as it is; the build of the style sheet, of which
  \<open>Style\<close> uses only the rule which classes are written out; in \<open>sse.js\<close> what htmx does with a swap or a
  trigger; rows that were not built by the factory, on the tree; the routing of Express. \<open>Live\<close> takes \<open>JSON.parse\<close> of a message as an argument. \<open>sseReach\<close>
  leaves out elements that htmx processes while a reconnection is under way: they are registered
  twice (\<open>processed_while_reconnecting\<close>). Texts are Latin-1: a code unit above 255 does not occur.
\<close>

end
